(* ===== verification/Prelude.thy ===== *)
theory Prelude
  imports Main "HOL-Library.Word" "HOL-Library.List_Lexorder"
begin

text \<open>
  The prelude of the development: the machine types of the Rust sources, the
  byte-order conversions \<open>to_be_bytes\<close>/\<open>from_be_bytes\<close>, the state-and-error
  combinators the operations are written with and their weakest-precondition
  rules, and the generic lemmas on lists, words and maps the components share.
  Machine integers keep their width: \<open>u64\<close> and \<open>i64\<close> are both 64-bit words (a
  Rust \<open>as i64\<close> cast keeps the bits), the signed reading is \<open>sint\<close>, and \<open>+\<close>, \<open>-\<close>
  and \<open>*\<close> wrap around as the release profile does.
\<close>

named_theorems run_simps \<open>how a run of an operation ends\<close>
named_theorems frame \<open>what an operation leaves alone\<close>
named_theorems wp_simps \<open>weakest preconditions of the state-and-error combinators\<close>
named_theorems view_simps \<open>what the typed view of a database is after an update\<close>

section \<open>Machine types\<close>

type_synonym u8 = "8 word"
type_synonym u32 = "32 word"
type_synonym u64 = "64 word"
type_synonym i64 = "64 word"
type_synonym bytes = "u8 list"

text \<open>Rust's \<open>saturating_sub\<close>, \<open>saturating_add\<close> and \<open>checked_add\<close>, on any width.\<close>

definition saturating_sub :: "'a::len word \<Rightarrow> 'a word \<Rightarrow> 'a word" where
  "saturating_sub a b = (if a \<le> b then 0 else a - b)"

definition saturating_add :: "'a::len word \<Rightarrow> 'a word \<Rightarrow> 'a word" where
  "saturating_add a b = (if unat a + unat b < 2 ^ LENGTH('a) then a + b else - 1)"

definition checked_add :: "'a::len word \<Rightarrow> 'a word \<Rightarrow> 'a word option" where
  "checked_add a b = (if unat a + unat b < 2 ^ LENGTH('a) then Some (a + b) else None)"

text \<open>The inclusive range \<open>first..=last\<close> of a 32-bit loop counter.\<close>

definition range_incl :: "u32 \<Rightarrow> u32 \<Rightarrow> u32 list" where
  "range_incl lo hi = map of_nat [unat lo ..< Suc (unat hi)]"

lemma unat_saturating_sub: "unat (saturating_sub a b) = unat a - unat b"
  by (auto simp: saturating_sub_def word_le_nat_alt unat_sub_if_size)

lemma checked_add_Some:
  "checked_add a b = Some c \<Longrightarrow> unat c = unat a + unat b"
  by (auto simp: checked_add_def unat_word_ariths split: if_splits)

lemma unat_add_lt: "unat (a::'a::len word) + unat b < 2 ^ LENGTH('a) \<Longrightarrow> unat (a + b) = unat a + unat b"
  by (simp add: unat_word_ariths)

lemma unat_mult_lt: "unat (a::'a::len word) * unat b < 2 ^ LENGTH('a) \<Longrightarrow> unat (a * b) = unat a * unat b"
  by (simp add: unat_word_ariths)

lemma unat_diff_le: "unat b \<le> unat a \<Longrightarrow> unat ((a::'a::len word) - b) = unat a - unat b"
  by (simp add: unat_sub word_le_nat_alt)

lemma unat_of_nat_lt: "n < 2 ^ LENGTH('a) \<Longrightarrow> unat (of_nat n :: 'a::len word) = n"
  by (simp add: unat_of_nat)

lemma unat_max: "unat (max a b) = max (unat a) (unat (b::'a::len word))"
  by (simp add: max_def word_le_nat_alt)

lemma unat_min: "unat (min a b) = min (unat a) (unat (b::'a::len word))"
  by (simp add: min_def word_le_nat_alt)

lemma unat_lt64 [simp]: "unat (w::u64) < 18446744073709551616"
  using unsigned_less [of w, where ?'a = nat] by simp

lemma unat_lt32 [simp]: "unat (w::u32) < 4294967296"
  using unsigned_less [of w, where ?'a = nat] by simp

lemma unat_lt8 [simp]: "unat (w::u8) < 256"
  using unsigned_less [of w, where ?'a = nat] by simp

lemma unat_ucast_u32: "unat (ucast (w::u32) :: u64) = unat w"
proof -
  have "unat w < 2 ^ 64" using unat_lt32 [of w] by (simp del: unat_lt32)
  then show ?thesis by (simp add: unsigned_ucast_eq take_bit_nat_eq_self)
qed

lemma unat_ucast_u64: "unat (ucast (w::u64) :: u32) = unat w mod 2 ^ 32"
  by (simp add: unsigned_ucast_eq unsigned_take_bit_eq take_bit_eq_mod)

lemma set_range_incl: "set (range_incl a b) = {i. a \<le> i \<and> i \<le> b}"
proof -
  have *: "unat (of_nat n :: u32) = n" if "n \<le> unat b" for n
    using that unat_lt32 [of b] by (intro unat_of_nat_lt) (simp del: unat_lt32)
  have "of_nat ` {unat a..unat b} = {i. a \<le> i \<and> i \<le> b}"
  proof (intro equalityI subsetI)
    fix i assume "i \<in> {i. a \<le> i \<and> i \<le> b}"
    then show "i \<in> of_nat ` {unat a..unat b}"
      by (intro image_eqI [of _ _ "unat i"]) (auto simp: word_le_nat_alt)
  qed (auto simp: word_le_nat_alt *)
  then show ?thesis
    unfolding range_incl_def set_map set_upt atLeastLessThanSuc_atLeastAtMost .
qed

lemma distinct_range_incl: "distinct (range_incl a b)"
proof -
  have "inj_on (of_nat :: nat \<Rightarrow> u32) {unat a..<Suc (unat b)}"
  proof (rule inj_on_inverseI [where g = unat])
    fix n assume "n \<in> {unat a..<Suc (unat b)}"
    then have "n < 4294967296" using unat_lt32 [of b] by (simp del: unat_lt32)
    then show "unat (of_nat n :: u32) = n" by (simp add: unat_of_nat_lt)
  qed
  then show ?thesis unfolding range_incl_def distinct_map set_upt by simp
qed

section \<open>Byte order\<close>

text \<open>
  The \<open>n\<close>-byte big-endian bytes of a number, most significant first, and back;
  \<open>u64::to_be_bytes\<close> and \<open>u32::to_be_bytes\<close> are the instances at 8 and 4 bytes.
\<close>

fun be_bytes :: "nat \<Rightarrow> nat \<Rightarrow> bytes" where
  "be_bytes 0 x = []"
| "be_bytes (Suc n) x = be_bytes n (x div 256) @ [of_nat x]"

definition from_be :: "bytes \<Rightarrow> nat" where
  "from_be bs = foldl (\<lambda>a b. a * 256 + unat b) 0 bs"

definition be64 :: "u64 \<Rightarrow> bytes" where
  "be64 w = be_bytes 8 (unat w)"

definition be32 :: "u32 \<Rightarrow> bytes" where
  "be32 w = be_bytes 4 (unat w)"

definition from_be64 :: "bytes \<Rightarrow> u64" where
  "from_be64 bs = of_nat (from_be bs)"

definition from_be32 :: "bytes \<Rightarrow> u32" where
  "from_be32 bs = of_nat (from_be bs)"

definition le64 :: "u64 \<Rightarrow> bytes" where
  "le64 w = rev (be64 w)"

definition from_le64 :: "bytes \<Rightarrow> u64" where
  "from_le64 bs = from_be64 (rev bs)"

lemma length_be_bytes [simp]: "length (be_bytes n x) = n"
  by (induction n x rule: be_bytes.induct) auto

lemma length_be64 [simp]: "length (be64 w) = 8"
  by (simp add: be64_def)

lemma length_be32 [simp]: "length (be32 w) = 4"
  by (simp add: be32_def)

lemma length_le64 [simp]: "length (le64 w) = 8"
  by (simp add: le64_def)

lemma from_be_snoc: "from_be (bs @ [b]) = from_be bs * 256 + unat b"
  by (simp add: from_be_def)

lemma unat_of_nat_u8: "unat (of_nat x :: u8) = x mod 256"
  by (simp add: unat_of_nat)

lemma from_be_be_bytes: "from_be (be_bytes n x) = x mod 256 ^ n"
proof (induction n arbitrary: x)
  case 0
  then show ?case by (simp add: from_be_def)
next
  case (Suc n)
  have "from_be (be_bytes (Suc n) x) = (x div 256) mod 256 ^ n * 256 + x mod 256"
    by (simp add: from_be_snoc Suc unat_of_nat_u8)
  also have "\<dots> = x mod (256 * 256 ^ n)"
    by (simp add: mod_mult2_eq)
  finally show ?case by simp
qed

lemma from_be64_be64 [simp]: "from_be64 (be64 w) = w"
  by (simp add: from_be64_def be64_def from_be_be_bytes)

lemma from_be32_be32 [simp]: "from_be32 (be32 w) = w"
  by (simp add: from_be32_def be32_def from_be_be_bytes)

lemma from_le64_le64 [simp]: "from_le64 (le64 w) = w"
  by (simp add: from_le64_def le64_def)

lemma be64_inject [simp]: "be64 a = be64 b \<longleftrightarrow> a = b"
  by (metis from_be64_be64)

lemma be32_inject [simp]: "be32 a = be32 b \<longleftrightarrow> a = b"
  by (metis from_be32_be32)

lemma le64_inject [simp]: "le64 a = le64 b \<longleftrightarrow> a = b"
  by (metis from_le64_le64)

lemma be_bytes_from_be: "be_bytes (length bs) (from_be bs) = bs"
proof (induction bs rule: rev_induct)
  case Nil
  then show ?case by simp
next
  case (snoc b bs)
  have "(from_be bs * 256 + unat b) div 256 = from_be bs"
    using unat_lt8 [of b] by simp
  moreover have "(of_nat (from_be bs * 256 + unat b) :: u8) = b"
  proof -
    have "unat (of_nat (from_be bs * 256 + unat b) :: u8) = unat b"
      using unat_lt8 [of b] by (simp only: unat_of_nat) simp
    then show ?thesis using word_unat_eq_iff by blast
  qed
  ultimately show ?case using snoc by (simp add: from_be_snoc)
qed

lemma from_be_less: "from_be bs < 256 ^ length bs"
proof -
  have "from_be bs = from_be bs mod 256 ^ length bs"
    using from_be_be_bytes [of "length bs" "from_be bs"] by (simp add: be_bytes_from_be)
  moreover have "from_be bs mod 256 ^ length bs < 256 ^ length bs" by simp
  ultimately show ?thesis by linarith
qed

lemma be64_from_be64: "length bs = 8 \<Longrightarrow> be64 (from_be64 bs) = bs"
  using from_be_less [of bs] be_bytes_from_be [of bs]
  by (simp add: be64_def from_be64_def unat_of_nat_lt)

lemma be32_from_be32: "length bs = 4 \<Longrightarrow> be32 (from_be32 bs) = bs"
  using from_be_less [of bs] be_bytes_from_be [of bs]
  by (simp add: be32_def from_be32_def unat_of_nat_lt)

text \<open>Byte order is numeric order: the lexicographic order on equal-length keys.\<close>

lemma snoc_less_snoc:
  fixes xs ys :: bytes
  assumes "length xs = length ys"
  shows "xs @ [a] < ys @ [b] \<longleftrightarrow> xs < ys \<or> xs = ys \<and> a < b"
  using assms by (induction xs ys rule: list_induct2) auto

lemma append_less_append:
  fixes xs ys :: bytes
  assumes "length xs = length ys"
  shows "xs @ us < ys @ vs \<longleftrightarrow> xs < ys \<or> xs = ys \<and> us < vs"
  using assms by (induction xs ys rule: list_induct2) auto

lemma append_le_append:
  fixes xs ys :: bytes
  assumes "length xs = length ys"
  shows "xs @ us \<le> ys @ vs \<longleftrightarrow> xs < ys \<or> xs = ys \<and> us \<le> vs"
  using assms by (induction xs ys rule: list_induct2) auto

lemma digit_less:
  fixes a b c d n :: nat
  assumes "b < n" "d < n"
  shows "a * n + b < c * n + d \<longleftrightarrow> a < c \<or> a = c \<and> b < d"
proof (cases a c rule: linorder_cases)
  case less
  then have "Suc a * n \<le> c * n" by (intro mult_le_mono1) simp
  with less assms show ?thesis by auto
next
  case greater
  then have "Suc c * n \<le> a * n" by (intro mult_le_mono1) simp
  with greater assms show ?thesis by auto
qed simp

lemma be_bytes_less:
  "x < 256 ^ n \<Longrightarrow> y < 256 ^ n \<Longrightarrow> be_bytes n x < be_bytes n y \<longleftrightarrow> x < y"
proof (induction n arbitrary: x y)
  case 0
  then show ?case by simp
next
  case (Suc n)
  then have b: "x div 256 < 256 ^ n" "y div 256 < 256 ^ n"
    by (simp_all add: less_mult_imp_div_less mult.commute)
  have eq: "be_bytes n (x div 256) = be_bytes n (y div 256) \<longleftrightarrow> x div 256 = y div 256"
    using b by (metis from_be_be_bytes mod_less)
  have lt: "(of_nat x :: u8) < of_nat y \<longleftrightarrow> x mod 256 < y mod 256"
    by (simp add: word_less_nat_alt unat_of_nat_u8)
  have "x < y \<longleftrightarrow> x div 256 < y div 256 \<or> x div 256 = y div 256 \<and> x mod 256 < y mod 256"
    using digit_less [of "x mod 256" 256 "y mod 256" "x div 256" "y div 256"] by simp
  then show ?case
    by (simp add: snoc_less_snoc Suc.IH [OF b] eq lt)
qed

lemma be64_less [simp]: "be64 a < be64 b \<longleftrightarrow> a < b"
  using be_bytes_less [of "unat a" 8 "unat b"] by (simp add: be64_def word_less_nat_alt)

lemma be32_less [simp]: "be32 a < be32 b \<longleftrightarrow> a < b"
  using be_bytes_less [of "unat a" 4 "unat b"] by (simp add: be32_def word_less_nat_alt)

lemma be32_le [simp]: "be32 a \<le> be32 b \<longleftrightarrow> a \<le> b"
  by (simp add: linorder_not_less [symmetric])

lemma be64_le [simp]: "be64 a \<le> be64 b \<longleftrightarrow> a \<le> b"
  by (simp add: linorder_not_less [symmetric])

lemma be64_append_inject [simp]: "be64 a @ xs = be64 b @ ys \<longleftrightarrow> a = b \<and> xs = ys"
  by (metis append_eq_append_conv length_be64 be64_inject)

lemma be64_append_less [simp]:
  "be64 a @ xs < be64 b @ ys \<longleftrightarrow> a < b \<or> a = b \<and> xs < ys"
  by (simp add: append_less_append)

lemma be64_append_le [simp]:
  "be64 a @ xs \<le> be64 b @ ys \<longleftrightarrow> a < b \<or> a = b \<and> xs \<le> ys"
  by (simp add: append_le_append)

section \<open>State and errors\<close>

text \<open>
  An operation takes the state and returns a result, \<open>Inl\<close> the error or \<open>Inr\<close> the
  value, with the state it leaves. \<open>bindE m f\<close> is Rust's \<open>?\<close>: an error of \<open>m\<close> is
  the error of the whole.
\<close>

type_synonym ('s, 'e, 'a) act = "'s \<Rightarrow> ('e + 'a) \<times> 's"

definition returnE :: "'a \<Rightarrow> ('s, 'e, 'a) act" where
  "returnE x s = (Inr x, s)"

definition throwE :: "'e \<Rightarrow> ('s, 'e, 'a) act" where
  "throwE e s = (Inl e, s)"

definition bindE :: "('s, 'e, 'a) act \<Rightarrow> ('a \<Rightarrow> ('s, 'e, 'b) act) \<Rightarrow> ('s, 'e, 'b) act" where
  "bindE m f s = (case m s of (Inl e, s') \<Rightarrow> (Inl e, s') | (Inr x, s') \<Rightarrow> f x s')"

definition liftE :: "'e + 'a \<Rightarrow> ('s, 'e, 'a) act" where
  "liftE r s = (r, s)"

definition getsE :: "('s \<Rightarrow> 'a) \<Rightarrow> ('s, 'e, 'a) act" where
  "getsE f s = (Inr (f s), s)"

definition modifyE :: "('s \<Rightarrow> 's) \<Rightarrow> ('s, 'e, unit) act" where
  "modifyE f s = (Inr (), f s)"

text \<open>\<open>attemptE m\<close> runs \<open>m\<close> and hands its result over as a value; \<open>mapErrE\<close> is \<open>map_err\<close>.\<close>

definition attemptE :: "('s, 'e, 'a) act \<Rightarrow> ('s, 'f, 'e + 'a) act" where
  "attemptE m s = (case m s of (r, s') \<Rightarrow> (Inr r, s'))"

definition mapErrE :: "('e \<Rightarrow> 'f) \<Rightarrow> ('s, 'e, 'a) act \<Rightarrow> ('s, 'f, 'a) act" where
  "mapErrE g m s = (case m s of (Inl e, s') \<Rightarrow> (Inl (g e), s') | (Inr x, s') \<Rightarrow> (Inr x, s'))"

text \<open>
  The weakest precondition of \<open>Q\<close> on success and \<open>R\<close> on error.
\<close>

definition wp :: "('s, 'e, 'a) act \<Rightarrow> ('a \<Rightarrow> 's \<Rightarrow> bool) \<Rightarrow> ('e \<Rightarrow> 's \<Rightarrow> bool) \<Rightarrow> 's \<Rightarrow> bool" where
  "wp m Q R s = (case m s of (Inl e, s') \<Rightarrow> R e s' | (Inr x, s') \<Rightarrow> Q x s')"

lemma wp_returnE [wp_simps]: "wp (returnE x) Q R s = Q x s"
  by (simp add: wp_def returnE_def)

lemma wp_throwE [wp_simps]: "wp (throwE e) Q R s = R e s"
  by (simp add: wp_def throwE_def)

lemma wp_bindE [wp_simps]: "wp (bindE m f) Q R s = wp m (\<lambda>x. wp (f x) Q R) R s"
  by (simp add: wp_def bindE_def split: prod.split sum.split)

lemma wp_liftE [wp_simps]: "wp (liftE r) Q R s = (case r of Inl e \<Rightarrow> R e s | Inr x \<Rightarrow> Q x s)"
  by (simp add: wp_def liftE_def)

lemma wp_getsE [wp_simps]: "wp (getsE f) Q R s = Q (f s) s"
  by (simp add: wp_def getsE_def)

lemma wp_modifyE [wp_simps]: "wp (modifyE f) Q R s = Q () (f s)"
  by (simp add: wp_def modifyE_def)

lemma wp_attemptE [wp_simps]:
  "wp (attemptE m) Q R s = wp m (\<lambda>x. Q (Inr x)) (\<lambda>e. Q (Inl e)) s"
  by (simp add: wp_def attemptE_def split: prod.split sum.split)

lemma wp_mapErrE [wp_simps]: "wp (mapErrE g m) Q R s = wp m Q (\<lambda>e. R (g e)) s"
  by (simp add: wp_def mapErrE_def split: prod.split sum.split)

lemma wp_if [wp_simps]: "wp (if b then m else n) Q R s = (if b then wp m Q R s else wp n Q R s)"
  by simp

lemma wp_mono:
  "wp m Q R s \<Longrightarrow> (\<And>x t. Q x t \<Longrightarrow> Q' x t) \<Longrightarrow> (\<And>e t. R e t \<Longrightarrow> R' e t) \<Longrightarrow> wp m Q' R' s"
  by (auto simp: wp_def split: prod.splits sum.splits)

lemma wpD:
  "wp m Q R s \<Longrightarrow> m s = (r, s') \<Longrightarrow> (case r of Inl e \<Rightarrow> R e s' | Inr x \<Rightarrow> Q x s')"
  by (simp add: wp_def split: sum.splits)

lemma wpI:
  "(\<And>x t. m s = (Inr x, t) \<Longrightarrow> Q x t) \<Longrightarrow> (\<And>e t. m s = (Inl e, t) \<Longrightarrow> R e t) \<Longrightarrow> wp m Q R s"
  by (simp add: wp_def split: prod.split sum.split)

text \<open>
  How a run ends, by cases on the operation: \<open>run_simps\<close> takes the equation
  \<open>m s = (r, t)\<close> apart, one combinator at a time.
\<close>

lemma run_returnE [run_simps]:
  "returnE x s = (Inr y, t) \<longleftrightarrow> y = x \<and> t = s"
  "returnE x s = (Inl e, t) \<longleftrightarrow> False"
  by (auto simp: returnE_def)

lemma run_throwE [run_simps]:
  "throwE e s = (Inr y, t) \<longleftrightarrow> False"
  "throwE e s = (Inl e', t) \<longleftrightarrow> e' = e \<and> t = s"
  by (auto simp: throwE_def)

lemma run_bindE [run_simps]:
  "bindE m f s = (Inr y, t) \<longleftrightarrow> (\<exists>x u. m s = (Inr x, u) \<and> f x u = (Inr y, t))"
  "bindE m f s = (Inl e, t) \<longleftrightarrow> m s = (Inl e, t) \<or> (\<exists>x u. m s = (Inr x, u) \<and> f x u = (Inl e, t))"
  by (auto simp: bindE_def split: prod.splits sum.splits)

lemma run_liftE [run_simps]:
  "liftE r s = (r', t) \<longleftrightarrow> r' = r \<and> t = s"
  by (auto simp: liftE_def)

lemma run_getsE [run_simps]:
  "getsE f s = (Inr y, t) \<longleftrightarrow> y = f s \<and> t = s"
  "getsE f s = (Inl e, t) \<longleftrightarrow> False"
  by (auto simp: getsE_def)

lemma run_modifyE [run_simps]:
  "modifyE f s = (Inr y, t) \<longleftrightarrow> t = f s"
  "modifyE f s = (Inl e, t) \<longleftrightarrow> False"
  by (auto simp: modifyE_def)

lemma run_attemptE [run_simps]:
  "attemptE m s = (Inr r, t) \<longleftrightarrow> m s = (r, t)"
  "attemptE m s = (Inl e, t) \<longleftrightarrow> False"
  by (auto simp: attemptE_def split: prod.splits)

lemma run_mapErrE [run_simps]:
  "mapErrE g m s = (Inr y, t) \<longleftrightarrow> m s = (Inr y, t)"
  "mapErrE g m s = (Inl e, t) \<longleftrightarrow> (\<exists>e'. m s = (Inl e', t) \<and> e = g e')"
  by (auto simp: mapErrE_def split: prod.splits sum.splits)

lemma run_if [run_simps]:
  "(if b then m else n) s = (r, t) \<longleftrightarrow> (if b then m s = (r, t) else n s = (r, t))"
  by simp

text \<open>
  Frame conditions. \<open>stays I m\<close>: whatever the outcome, \<open>m\<close> relates the state it starts
  in to the one it leaves by \<open>I\<close>. \<open>errs I m\<close> asks this of the error outcomes only, and
  \<open>never m\<close> says there are none. The rules follow the shape of an operation: reads
  first, then the call that commits, then bookkeeping that cannot fail.
\<close>

definition stays :: "('s \<Rightarrow> 's \<Rightarrow> bool) \<Rightarrow> ('s, 'e, 'a) act \<Rightarrow> bool" where
  "stays I m = (\<forall>s. I s (snd (m s)))"

definition errs :: "('s \<Rightarrow> 's \<Rightarrow> bool) \<Rightarrow> ('s, 'e, 'a) act \<Rightarrow> bool" where
  "errs I m = (\<forall>s e t. m s = (Inl e, t) \<longrightarrow> I s t)"

definition never :: "('s, 'e, 'a) act \<Rightarrow> bool" where
  "never m = (\<forall>s e t. m s \<noteq> (Inl e, t))"

lemma staysD: "stays I m \<Longrightarrow> m s = (r, t) \<Longrightarrow> I s t"
  by (metis stays_def snd_conv)

lemma errsD: "errs I m \<Longrightarrow> m s = (Inl e, t) \<Longrightarrow> I s t"
  by (simp add: errs_def)

lemma staysI: "(\<And>s r t. m s = (r, t) \<Longrightarrow> I s t) \<Longrightarrow> stays I m"
  by (metis stays_def prod.collapse)

lemma stays_bindE [frame]:
  assumes "transp I" "stays I m" "\<And>x. stays I (f x)"
  shows "stays I (bindE m f)"
proof (rule staysI)
  fix s r t assume "bindE m f s = (r, t)"
  then consider e where "m s = (Inl e, t)" | x u where "m s = (Inr x, u)" "f x u = (r, t)"
    by (auto simp: bindE_def split: prod.splits sum.splits)
  then show "I s t"
    using assms by cases (blast dest: staysD transpD)+
qed

lemma stays_basic [frame]:
  assumes "reflp I"
  shows "stays I (returnE x)" "stays I (throwE e)" "stays I (liftE r)" "stays I (getsE g)"
  using assms by (auto simp: stays_def returnE_def throwE_def liftE_def getsE_def reflp_def)

lemma stays_attemptE [frame]: "stays I m \<Longrightarrow> stays I (attemptE m)"
  by (simp add: stays_def attemptE_def split: prod.splits) (metis snd_conv)

lemma stays_mapErrE [frame]: "stays I m \<Longrightarrow> stays I (mapErrE g m)"
  by (auto intro!: staysI dest: staysD simp: mapErrE_def split: prod.splits sum.splits)

lemma errs_stays: "stays I m \<Longrightarrow> errs I m"
  by (auto simp: errs_def dest: staysD)

lemma errs_never: "never m \<Longrightarrow> errs I m"
  by (simp add: errs_def never_def)

lemma errs_bindE:
  assumes "transp I" "stays I m" "\<And>x. errs I (f x)"
  shows "errs I (bindE m f)"
  unfolding errs_def run_bindE using assms by (meson staysD errsD transpD)

lemma errs_commit: "errs I m \<Longrightarrow> (\<And>x. never (f x)) \<Longrightarrow> errs I (bindE m f)"
  by (auto simp: errs_def never_def run_bindE)

lemma never_basic [frame]: "never (returnE x)" "never (getsE g)" "never (modifyE h)" "never (attemptE m)"
  by (simp_all add: never_def run_returnE run_getsE run_modifyE run_attemptE)

lemma never_bindE [frame]: "never m \<Longrightarrow> (\<And>x. never (f x)) \<Longrightarrow> never (bindE m f)"
  by (simp add: never_def run_bindE)

end
