(* ===== verification/Keys.thy ===== *)
theory Keys
  imports Prelude
begin

text \<open>
  The per-volume key schema of \<^verbatim>\<open>crates/slatefs-core/src/meta/keys.rs\<close>: every record
  key as the bytes the database sees, the prefixes the range scans use and the
  parsers that read a key back. The constructors of \<open>rkey\<close> are the rows of the
  table at the head of the source file. Shown here: no two records share a key,
  the parsers invert the constructors, byte order is numeric order, and a scan
  between the prefixes of \<open>ino\<close> and \<open>ino + 1\<close> meets exactly the records of \<open>ino\<close>.
\<close>

section \<open>Keys\<close>

datatype rkey =
    KSuper
  | KInode u64
  | KDirent u64 bytes
  | KDirentIdx u64 u64
  | KChunk u64 u32
  | KSymlink u64
  | KXattr u64 bytes
  | KOrphan u64
  | KQuotaBytes
  | KQuotaInodes
  | KNextIno

text \<open>The tags are the ASCII codes of \<open>M i d e c s x o qB qI a\<close>.\<close>

fun key_bytes :: "rkey \<Rightarrow> bytes" where
  "key_bytes KSuper = [77]"
| "key_bytes (KInode ino) = 105 # be64 ino"
| "key_bytes (KDirent parent enc_name) = 100 # be64 parent @ enc_name"
| "key_bytes (KDirentIdx parent dirent_id) = 101 # be64 parent @ be64 dirent_id"
| "key_bytes (KChunk ino idx) = 99 # be64 ino @ be32 idx"
| "key_bytes (KSymlink ino) = 115 # be64 ino"
| "key_bytes (KXattr ino name) = 120 # be64 ino @ name"
| "key_bytes (KOrphan ino) = 111 # be64 ino"
| "key_bytes KQuotaBytes = [113, 66]"
| "key_bytes KQuotaInodes = [113, 73]"
| "key_bytes KNextIno = [97]"

definition dirent_prefix :: "u64 \<Rightarrow> bytes" where
  "dirent_prefix parent = 100 # be64 parent"

definition dirent_idx_prefix :: "u64 \<Rightarrow> bytes" where
  "dirent_idx_prefix parent = 101 # be64 parent"

definition chunk_prefix :: "u64 \<Rightarrow> bytes" where
  "chunk_prefix ino = 99 # be64 ino"

definition xattr_prefix :: "u64 \<Rightarrow> bytes" where
  "xattr_prefix ino = 120 # be64 ino"

definition orphan_prefix :: bytes where
  "orphan_prefix = [111]"

definition parse_chunk :: "bytes \<Rightarrow> (u64 \<times> u32) option" where
  "parse_chunk key =
     (if length key = 13 \<and> key ! 0 = 99
      then Some (from_be64 (take 8 (drop 1 key)), from_be32 (take 4 (drop 9 key)))
      else None)"

definition parse_dirent_idx :: "bytes \<Rightarrow> (u64 \<times> u64) option" where
  "parse_dirent_idx key =
     (if length key = 17 \<and> key ! 0 = 101
      then Some (from_be64 (take 8 (drop 1 key)), from_be64 (take 8 (drop 9 key)))
      else None)"

definition parse_ino :: "bytes \<Rightarrow> u64 option" where
  "parse_ino key = (if 9 \<le> length key then Some (from_be64 (take 8 (drop 1 key))) else None)"

section \<open>Injectivity and parsing\<close>

lemma key_bytes_inject [simp]: "key_bytes k = key_bytes k' \<longleftrightarrow> k = k'"
  by (cases k; cases k') (simp_all add: append_eq_append_conv)

lemmas key_defs = key_bytes.simps

declare key_bytes.simps [simp del]

lemma inj_key_bytes: "inj key_bytes"
  by (simp add: inj_def)

lemma parse_chunk_KChunk [simp]: "parse_chunk (key_bytes (KChunk ino idx)) = Some (ino, idx)"
  by (simp add: parse_chunk_def key_defs)

lemma parse_dirent_idx_KDirentIdx [simp]:
  "parse_dirent_idx (key_bytes (KDirentIdx p i)) = Some (p, i)"
  by (simp add: parse_dirent_idx_def key_defs)

lemma parse_ino_Cons: "parse_ino (t # be64 ino @ xs) = Some ino"
  by (simp add: parse_ino_def)

lemma parse_ino_simps [simp]:
  "parse_ino (key_bytes (KInode ino)) = Some ino"
  "parse_ino (key_bytes (KDirent ino n)) = Some ino"
  "parse_ino (key_bytes (KDirentIdx ino i)) = Some ino"
  "parse_ino (key_bytes (KChunk ino c)) = Some ino"
  "parse_ino (key_bytes (KSymlink ino)) = Some ino"
  "parse_ino (key_bytes (KXattr ino n)) = Some ino"
  "parse_ino (key_bytes (KOrphan ino)) = Some ino"
  using parse_ino_Cons [of _ ino "[]"] by (simp_all add: parse_ino_Cons key_defs)

text \<open>A parsed chunk key is the key of that chunk, not just of that shape.\<close>

lemma parse_chunk_Some: "parse_chunk key = Some (ino, idx) \<longleftrightarrow> key = key_bytes (KChunk ino idx)"
proof
  assume "parse_chunk key = Some (ino, idx)"
  then have l: "length key = 13" and t: "key ! 0 = 99"
    and i: "from_be64 (take 8 (drop 1 key)) = ino" and c: "from_be32 (take 4 (drop 9 key)) = idx"
    by (auto simp: parse_chunk_def split: if_splits)
  from l have "be64 ino = take 8 (drop 1 key)" "be32 idx = drop 9 key"
    using i c by (auto simp: be64_from_be64 be32_from_be32)
  moreover from l t have "key = 99 # take 8 (drop 1 key) @ drop 9 key"
    by (cases key) (auto simp: append_eq_conv_conj drop_Cons' numeral_eq_Suc)
  ultimately show "key = key_bytes (KChunk ino idx)" by (simp add: key_defs)
qed simp

section \<open>Order and scans\<close>

lemma be64_le_append [simp]: "be64 a \<le> be64 b @ ys \<longleftrightarrow> a \<le> b"
  using be64_append_le [of a "[]" b ys] by (auto simp del: be64_append_le)

lemma append_less_be64 [simp]: "be64 b @ ys < be64 a \<longleftrightarrow> b < a"
  using be64_append_less [of b ys a "[]"] by simp

lemma word_less_Suc: "a \<noteq> - 1 \<Longrightarrow> (b::'a::len word) < a + 1 \<longleftrightarrow> b \<le> a"
proof -
  assume "a \<noteq> - 1"
  then have "1 + a \<noteq> 0" by (simp add: add.commute eq_neg_iff_add_eq_0)
  then have "unat (a + 1) = Suc (unat a)" using unatSuc [of a] by (simp add: add.commute)
  then show ?thesis by (simp add: word_less_nat_alt word_le_nat_alt less_Suc_eq_le)
qed

text \<open>
  The interface of a record family scanned by prefix: the keys of the records of
  one inode, and the prefix that starts them. Whoever scans from the prefix of
  \<open>ino\<close> to that of \<open>ino + 1\<close> relies on meeting the records of \<open>ino\<close>, all of them
  and nothing else.
\<close>

locale scan_family =
  fixes rec_key :: "u64 \<Rightarrow> 'i \<Rightarrow> rkey"
    and pre :: "u64 \<Rightarrow> bytes"
  assumes rec_key_inject: "rec_key a i = rec_key b j \<longleftrightarrow> a = b \<and> i = j"
    and pre_le: "pre a \<le> key_bytes k \<Longrightarrow> key_bytes k < pre b \<Longrightarrow> \<exists>c i. k = rec_key c i"
    and pre_le_iff: "pre a \<le> key_bytes (rec_key b i) \<longleftrightarrow> a \<le> b"
    and less_pre_iff: "key_bytes (rec_key b i) < pre a \<longleftrightarrow> b < a"
begin

lemma in_scan_iff:
  assumes "ino \<noteq> - 1"
  shows "pre ino \<le> key_bytes k \<and> key_bytes k < pre (ino + 1) \<longleftrightarrow> (\<exists>i. k = rec_key ino i)"
proof
  assume a: "pre ino \<le> key_bytes k \<and> key_bytes k < pre (ino + 1)"
  then obtain c i where k: "k = rec_key c i" using pre_le by blast
  from a have "ino \<le> c" "c < ino + 1" by (simp_all add: k pre_le_iff less_pre_iff)
  then have "c = ino" using assms by (simp add: word_less_Suc)
  with k show "\<exists>i. k = rec_key ino i" by blast
next
  assume "\<exists>i. k = rec_key ino i"
  with assms show "pre ino \<le> key_bytes k \<and> key_bytes k < pre (ino + 1)"
    by (auto simp: pre_le_iff less_pre_iff word_less_Suc)
qed

text \<open>The records a scan over a whole schema database returns.\<close>

lemma scan_records:
  assumes "ino \<noteq> - 1" and "dom m \<subseteq> range key_bytes"
  shows "{(k, v). m k = Some v \<and> pre ino \<le> k \<and> k < pre (ino + 1)}
       = {(key_bytes (rec_key ino i), v) | i v. m (key_bytes (rec_key ino i)) = Some v}"
proof (intro equalityI subsetI)
  fix x assume "x \<in> {(k, v). m k = Some v \<and> pre ino \<le> k \<and> k < pre (ino + 1)}"
  then obtain k v where x: "x = (k, v)" "m k = Some v" and r: "pre ino \<le> k" "k < pre (ino + 1)"
    by auto
  from assms(2) x(2) obtain k' where k': "k = key_bytes k'" by (auto simp: dom_def)
  with r in_scan_iff [OF assms(1)] obtain i where "k' = rec_key ino i" by blast
  with x k' show "x \<in> {(key_bytes (rec_key ino i), v) | i v. m (key_bytes (rec_key ino i)) = Some v}"
    by auto
next
  fix x assume "x \<in> {(key_bytes (rec_key ino i), v) | i v. m (key_bytes (rec_key ino i)) = Some v}"
  with in_scan_iff [OF assms(1)] show "x \<in> {(k, v). m k = Some v \<and> pre ino \<le> k \<and> k < pre (ino + 1)}"
    by auto
qed

end

interpretation chunks: scan_family KChunk chunk_prefix
proof unfold_locales
  show "\<exists>c i. k = KChunk c i" if "chunk_prefix a \<le> key_bytes k" "key_bytes k < chunk_prefix b" for a b k
    using that by (cases k) (auto simp: chunk_prefix_def key_defs)
qed (auto simp: chunk_prefix_def key_defs)

interpretation dirents: scan_family KDirent dirent_prefix
proof unfold_locales
  show "\<exists>c i. k = KDirent c i" if "dirent_prefix a \<le> key_bytes k" "key_bytes k < dirent_prefix b" for a b k
    using that by (cases k) (auto simp: dirent_prefix_def key_defs)
qed (auto simp: dirent_prefix_def key_defs)

interpretation dirent_idxs: scan_family KDirentIdx dirent_idx_prefix
proof unfold_locales
  show "\<exists>c i. k = KDirentIdx c i"
    if "dirent_idx_prefix a \<le> key_bytes k" "key_bytes k < dirent_idx_prefix b" for a b k
    using that by (cases k) (auto simp: dirent_idx_prefix_def key_defs)
qed (auto simp: dirent_idx_prefix_def key_defs)

interpretation xattrs: scan_family KXattr xattr_prefix
proof unfold_locales
  show "\<exists>c i. k = KXattr c i" if "xattr_prefix a \<le> key_bytes k" "key_bytes k < xattr_prefix b" for a b k
    using that by (cases k) (auto simp: xattr_prefix_def key_defs)
qed (auto simp: xattr_prefix_def key_defs)

text \<open>The same for a scan that starts at a given chunk of the inode.\<close>

lemma in_chunk_scan_iff:
  assumes "ino \<noteq> - 1"
  shows "key_bytes (KChunk ino first) \<le> key_bytes k \<and> key_bytes k < chunk_prefix (ino + 1)
     \<longleftrightarrow> (\<exists>i\<ge>first. k = KChunk ino i)"
proof -
  have "\<exists>c i. k = KChunk c i"
    if "key_bytes (KChunk ino first) \<le> key_bytes k" "key_bytes k < chunk_prefix (ino + 1)"
    using that by (cases k) (auto simp: chunk_prefix_def key_defs)
  moreover have "a = ino \<and> first \<le> i" if "ino < a \<or> ino = a \<and> first \<le> i" "a < ino + 1" for a i
    using that assms by (auto simp: word_less_Suc)
  ultimately show ?thesis
    by (cases k) (auto simp: chunk_prefix_def key_defs word_less_Suc [OF assms])
qed

lemma chunk_key_less [simp]: "key_bytes (KChunk ino i) < key_bytes (KChunk ino j) \<longleftrightarrow> i < j"
  by (simp add: key_defs)

lemma dirent_idx_key_less [simp]:
  "key_bytes (KDirentIdx ino a) < key_bytes (KDirentIdx ino b) \<longleftrightarrow> a < b"
  by (simp add: key_defs)

text \<open>
  C28. The key codec: different records have different keys, byte order is numeric order
  within the families that are scanned in order, and the parsers invert the builders.
\<close>

theorem key_codec:
  "(key_bytes k = key_bytes k' \<longleftrightarrow> k = k') \<and>
   (key_bytes (KChunk ino i) < key_bytes (KChunk ino j) \<longleftrightarrow> i < j) \<and>
   (key_bytes (KDirentIdx ino a) < key_bytes (KDirentIdx ino b) \<longleftrightarrow> a < b) \<and>
   parse_chunk (key_bytes (KChunk ino i)) = Some (ino, i) \<and>
   parse_dirent_idx (key_bytes (KDirentIdx ino a)) = Some (ino, a) \<and>
   parse_ino (key_bytes (KInode ino)) = Some ino \<and>
   parse_ino (key_bytes (KOrphan ino)) = Some ino"
  by simp

end
