(* ===== verification/Records.thy ===== *)
theory Records
  imports Keys
begin

text \<open>
  The data of the program: the error types of \<^verbatim>\<open>error.rs\<close> and \<^verbatim>\<open>vfs.rs\<close>, the
  arguments and results of the \<open>Vfs\<close> trait, and the metadata records of
  \<^verbatim>\<open>meta/inode.rs\<close>, \<^verbatim>\<open>meta/dirent.rs\<close> and \<^verbatim>\<open>meta/superblock.rs\<close> with their
  versioned encoding of \<^verbatim>\<open>meta/mod.rs\<close>. The serializer itself (the \<open>postcard\<close>
  crate) is a parameter, a pair of functions per record type; \<open>postcard_ok\<close> states
  its documented round trip.
\<close>

unbundle bit_operations_syntax

section \<open>Errors\<close>

text \<open>
  The storage engine's error is told apart only as far as the code does: fenced by
  a newer writer, or anything else. Formatted messages are left out of the core
  error; the static kind strings are kept.
\<close>

datatype slatedb_error = Fenced | OtherStorage

datatype core_error =
    E_SlateDb slatedb_error
  | E_ObjectStore
  | E_Crypto
  | E_NotFound string
  | E_AlreadyExists string
  | E_Invalid string
  | E_Codec
  | E_Config
  | E_Io
  | E_Versioning

definition is_fenced_slatedb_error :: "slatedb_error \<Rightarrow> bool" where
  "is_fenced_slatedb_error e = (e = Fenced)"

datatype fs_error =
    NotPermitted | NotFound | Io | BadHandle | WouldBlock | AccessDenied | Exists
  | CrossDevice | NotDir | IsDir | Invalid | FileTooBig | NoSpace | TooManyLinks
  | NameTooLong | NotEmpty | NoData | NotSupported | Stale | QuotaExceeded | ReadOnly

fun errno :: "fs_error \<Rightarrow> int" where
  "errno NotPermitted = 1"
| "errno NotFound = 2"
| "errno Io = 5"
| "errno BadHandle = 9"
| "errno WouldBlock = 11"
| "errno AccessDenied = 13"
| "errno Exists = 17"
| "errno CrossDevice = 18"
| "errno NotDir = 20"
| "errno IsDir = 21"
| "errno Invalid = 22"
| "errno FileTooBig = 27"
| "errno NoSpace = 28"
| "errno TooManyLinks = 31"
| "errno NameTooLong = 36"
| "errno NotEmpty = 39"
| "errno NoData = 61"
| "errno NotSupported = 95"
| "errno Stale = 116"
| "errno QuotaExceeded = 122"
| "errno ReadOnly = 30"

text \<open>Internal errors collapse to \<open>EIO\<close> at the protocol boundary.\<close>

definition fs_error_of_core :: "core_error \<Rightarrow> fs_error" where
  "fs_error_of_core e = Io"

definition fs_error_of_slatedb :: "slatedb_error \<Rightarrow> fs_error" where
  "fs_error_of_slatedb e = Io"

section \<open>Time\<close>

datatype timespec = Timespec (ts_secs: i64) (ts_nanos: u32)

text \<open>The derived \<open>Ord\<close>: seconds as signed integers first, then nanoseconds.\<close>

instantiation timespec :: linorder
begin

definition less_eq_timespec :: "timespec \<Rightarrow> timespec \<Rightarrow> bool" where
  "a \<le> b \<longleftrightarrow> sint (ts_secs a) < sint (ts_secs b) \<or> ts_secs a = ts_secs b \<and> ts_nanos a \<le> ts_nanos b"

definition less_timespec :: "timespec \<Rightarrow> timespec \<Rightarrow> bool" where
  "a < b \<longleftrightarrow> sint (ts_secs a) < sint (ts_secs b) \<or> ts_secs a = ts_secs b \<and> ts_nanos a < ts_nanos b"

instance
proof
  fix x y z :: timespec
  have neq: "ts_secs a = ts_secs b" if "\<not> sint (ts_secs a) < sint (ts_secs b)"
    "\<not> sint (ts_secs b) < sint (ts_secs a)" for a b
    using that by (simp add: signed_word_eqI)
  show "x < y \<longleftrightarrow> x \<le> y \<and> \<not> y \<le> x"
    by (auto simp: less_timespec_def less_eq_timespec_def)
  show "x \<le> x" by (simp add: less_eq_timespec_def)
  show "x \<le> z" if "x \<le> y" "y \<le> z"
    using that by (auto simp: less_eq_timespec_def)
  show "x = y" if "x \<le> y" "y \<le> x"
    using that by (cases x; cases y) (auto simp: less_eq_timespec_def)
  show "x \<le> y \<or> y \<le> x"
    using neq [of x y] by (auto simp: less_eq_timespec_def)
qed

end

definition timespec_zero :: timespec where
  "timespec_zero = Timespec 0 0"

section \<open>Inodes and directory entries\<close>

definition ROOT_INO :: u64 where "ROOT_INO = 1"
definition INODE_VERSION :: u8 where "INODE_VERSION = 1"
definition MAX_NAME_LEN :: nat where "MAX_NAME_LEN = 255"
definition FIRST_DIRENT_ID :: u64 where "FIRST_DIRENT_ID = 3"
definition DIRENT_VERSION :: u8 where "DIRENT_VERSION = 1"
definition DIRENT_IDX_VERSION :: u8 where "DIRENT_IDX_VERSION = 1"
definition ORPHAN_VERSION :: u8 where "ORPHAN_VERSION = 1"

datatype file_kind = File | Dir | Symlink | Fifo | Socket | CharDev | BlockDev

definition is_dir :: "file_kind \<Rightarrow> bool" where
  "is_dir k = (k = Dir)"

record inode =
  i_kind :: file_kind
  i_mode :: u32
  i_uid :: u32
  i_gid :: u32
  i_nlink :: u32
  i_size :: u64
  i_atime :: timespec
  i_mtime :: timespec
  i_ctime :: timespec
  i_rdev :: u64
  i_generation :: u32
  i_flags :: u32
  i_next_dirent_id :: u64
  i_billed_bytes :: u64
  i_parent_dir :: u64

definition inode_new :: "file_kind \<Rightarrow> u32 \<Rightarrow> u32 \<Rightarrow> u32 \<Rightarrow> timespec \<Rightarrow> inode" where
  "inode_new kind mode uid gid now =
     \<lparr> i_kind = kind, i_mode = mode AND 0xFFF, i_uid = uid, i_gid = gid,
       i_nlink = (if is_dir kind then 2 else 1), i_size = 0,
       i_atime = now, i_mtime = now, i_ctime = now, i_rdev = 0, i_generation = 0, i_flags = 0,
       i_next_dirent_id = FIRST_DIRENT_ID, i_billed_bytes = 0, i_parent_dir = 0 \<rparr>"

definition touch_mtime :: "timespec \<Rightarrow> inode \<Rightarrow> inode" where
  "touch_mtime now i = i\<lparr>i_mtime := now, i_ctime := now\<rparr>"

record dirent =
  d_name :: bytes
  d_child_ino :: u64
  d_kind :: file_kind
  d_dirent_id :: u64

record dirent_idx =
  e_enc_name :: bytes
  e_child_ino :: u64
  e_kind :: file_kind

record orphan =
  o_size :: u64
  o_kind :: file_kind

section \<open>The superblock\<close>

datatype cipher = Aes256Gcm | XChaCha20Poly1305

datatype volume_kind = Filesystem | Block (vk_size_bytes: u64)

definition SUPERBLOCK_VERSION :: u8 where "SUPERBLOCK_VERSION = 2"

record superblock =
  sb_fsid :: u64
  sb_cipher :: cipher
  sb_chunk_size :: u32
  sb_name_enc :: bool
  sb_created_at :: u64
  sb_kind :: volume_kind

record superblock_v1 =
  sb1_fsid :: u64
  sb1_cipher :: cipher
  sb1_chunk_size :: u32
  sb1_name_enc :: bool
  sb1_created_at :: u64

section \<open>Versioned encoding\<close>

text \<open>One serializer: \<open>None\<close> is a \<open>postcard::Error\<close>.\<close>

record 'a postcard =
  to_allocvec :: "'a \<Rightarrow> bytes option"
  from_bytes :: "bytes \<Rightarrow> 'a option"

definition encode_versioned :: "'a postcard \<Rightarrow> u8 \<Rightarrow> 'a \<Rightarrow> core_error + bytes" where
  "encode_versioned pc version value =
     (case to_allocvec pc value of None \<Rightarrow> Inl E_Codec | Some bs \<Rightarrow> Inr (version # bs))"

fun decode_versioned :: "'a postcard \<Rightarrow> u8 \<Rightarrow> bytes \<Rightarrow> core_error + 'a" where
  "decode_versioned pc expected [] = Inl (E_Invalid ''record'')"
| "decode_versioned pc expected (version # rest) =
     (if version = expected
      then (case from_bytes pc rest of None \<Rightarrow> Inl E_Codec | Some x \<Rightarrow> Inr x)
      else Inl (E_Invalid ''record''))"

definition superblock_encode :: "superblock postcard \<Rightarrow> superblock \<Rightarrow> core_error + bytes" where
  "superblock_encode pc sb = encode_versioned pc SUPERBLOCK_VERSION sb"

fun superblock_decode ::
  "superblock postcard \<Rightarrow> superblock_v1 postcard \<Rightarrow> bytes \<Rightarrow> core_error + superblock" where
  "superblock_decode pc pc1 [] = Inl (E_Invalid ''record'')"
| "superblock_decode pc pc1 (version # rest) =
     (if version = 1 then
        (case from_bytes pc1 rest of
           None \<Rightarrow> Inl E_Codec
         | Some l \<Rightarrow> Inr \<lparr> sb_fsid = sb1_fsid l, sb_cipher = sb1_cipher l,
                          sb_chunk_size = sb1_chunk_size l, sb_name_enc = sb1_name_enc l,
                          sb_created_at = sb1_created_at l, sb_kind = Filesystem \<rparr>)
      else if version = SUPERBLOCK_VERSION then
        (case from_bytes pc rest of None \<Rightarrow> Inl E_Codec | Some sb \<Rightarrow> Inr sb)
      else Inl (E_Invalid ''record''))"

text \<open>
  What the code relies on of the serializer: every value has an encoding that
  decodes to it.
\<close>

definition postcard_ok :: "'a postcard \<Rightarrow> bool" where
  "postcard_ok pc = (\<forall>x. \<exists>bs. to_allocvec pc x = Some bs \<and> from_bytes pc bs = Some x)"

text \<open>The serializers of the volume's records.\<close>

record codecs =
  pc_inode :: "inode postcard"
  pc_dirent :: "dirent postcard"
  pc_dirent_idx :: "dirent_idx postcard"
  pc_orphan :: "orphan postcard"
  pc_superblock :: "superblock postcard"
  pc_superblock_v1 :: "superblock_v1 postcard"

definition codecs_ok :: "codecs \<Rightarrow> bool" where
  "codecs_ok c = (postcard_ok (pc_inode c) \<and> postcard_ok (pc_dirent c) \<and>
     postcard_ok (pc_dirent_idx c) \<and> postcard_ok (pc_orphan c) \<and>
     postcard_ok (pc_superblock c) \<and> postcard_ok (pc_superblock_v1 c))"

definition inode_encode :: "codecs \<Rightarrow> inode \<Rightarrow> core_error + bytes" where
  "inode_encode c i = encode_versioned (pc_inode c) INODE_VERSION i"

definition inode_decode :: "codecs \<Rightarrow> bytes \<Rightarrow> core_error + inode" where
  "inode_decode c bs = decode_versioned (pc_inode c) INODE_VERSION bs"

definition dirent_encode :: "codecs \<Rightarrow> dirent \<Rightarrow> core_error + bytes" where
  "dirent_encode c d = encode_versioned (pc_dirent c) DIRENT_VERSION d"

definition dirent_decode :: "codecs \<Rightarrow> bytes \<Rightarrow> core_error + dirent" where
  "dirent_decode c bs = decode_versioned (pc_dirent c) DIRENT_VERSION bs"

definition dirent_idx_encode :: "codecs \<Rightarrow> dirent_idx \<Rightarrow> core_error + bytes" where
  "dirent_idx_encode c e = encode_versioned (pc_dirent_idx c) DIRENT_IDX_VERSION e"

definition dirent_idx_decode :: "codecs \<Rightarrow> bytes \<Rightarrow> core_error + dirent_idx" where
  "dirent_idx_decode c bs = decode_versioned (pc_dirent_idx c) DIRENT_IDX_VERSION bs"

definition orphan_encode :: "codecs \<Rightarrow> orphan \<Rightarrow> core_error + bytes" where
  "orphan_encode c x = encode_versioned (pc_orphan c) ORPHAN_VERSION x"

definition orphan_decode :: "codecs \<Rightarrow> bytes \<Rightarrow> core_error + orphan" where
  "orphan_decode c bs = decode_versioned (pc_orphan c) ORPHAN_VERSION bs"

section \<open>Arguments and results of the Vfs trait\<close>

record credentials =
  c_uid :: u32
  c_gid :: u32
  c_groups :: "u32 list"
  c_trusted :: bool

definition creds_root :: credentials where
  "creds_root = \<lparr> c_uid = 0, c_gid = 0, c_groups = [], c_trusted = False \<rparr>"

definition creds_user :: "u32 \<Rightarrow> u32 \<Rightarrow> credentials" where
  "creds_user uid gid = \<lparr> c_uid = uid, c_gid = gid, c_groups = [], c_trusted = False \<rparr>"

definition creds_trusted :: "u32 \<Rightarrow> u32 \<Rightarrow> credentials" where
  "creds_trusted uid gid = \<lparr> c_uid = uid, c_gid = gid, c_groups = [], c_trusted = True \<rparr>"

definition is_root :: "credentials \<Rightarrow> bool" where
  "is_root c = (c_uid c = 0)"

definition is_privileged :: "credentials \<Rightarrow> bool" where
  "is_privileged c = (c_uid c = 0 \<or> c_trusted c)"

definition in_group :: "credentials \<Rightarrow> u32 \<Rightarrow> bool" where
  "in_group c gid = (c_gid c = gid \<or> gid \<in> set (c_groups c))"

record file_attr =
  a_ino :: u64
  a_kind :: file_kind
  a_mode :: u32
  a_nlink :: u32
  a_uid :: u32
  a_gid :: u32
  a_size :: u64
  a_atime :: timespec
  a_mtime :: timespec
  a_ctime :: timespec
  a_rdev :: u64
  a_generation :: u32
  a_blocks :: u64

datatype time_set = Now | Time timespec

record set_attrs =
  s_mode :: "u32 option"
  s_uid :: "u32 option"
  s_gid :: "u32 option"
  s_size :: "u64 option"
  s_atime :: "time_set option"
  s_mtime :: "time_set option"

record dir_entry =
  de_name :: bytes
  de_ino :: u64
  de_kind :: file_kind
  de_cookie :: u64

record read_dir =
  rd_entries :: "dir_entry list"
  rd_eof :: bool

record stat_fs =
  sf_block_size :: u32
  sf_total_bytes :: u64
  sf_free_bytes :: u64
  sf_avail_bytes :: u64
  sf_total_inodes :: u64
  sf_free_inodes :: u64

record entry_permissions =
  ep_can_read :: bool
  ep_can_write :: bool
  ep_can_delete :: bool
  ep_can_rename :: bool

datatype open_mode = OpenRead | OpenWrite | OpenReadWrite

datatype atime_mode = Relatime | Strict | Noatime

section \<open>Round trips\<close>

lemma decode_encode_versioned:
  "encode_versioned pc v x = Inr bs \<Longrightarrow> postcard_ok pc \<Longrightarrow> decode_versioned pc v bs = Inr x"
  unfolding postcard_ok_def
  by (drule spec [of _ x]) (auto simp: encode_versioned_def)

lemma encode_versioned_total: "postcard_ok pc \<Longrightarrow> \<exists>bs. encode_versioned pc v x = Inr bs"
  unfolding postcard_ok_def
  by (drule spec [of _ x]) (auto simp: encode_versioned_def)

lemmas codec_defs =
  inode_encode_def inode_decode_def dirent_encode_def dirent_decode_def
  dirent_idx_encode_def dirent_idx_decode_def orphan_encode_def orphan_decode_def

lemma encode_total:
  assumes "codecs_ok c"
  shows "\<exists>bs. inode_encode c i = Inr bs" "\<exists>bs. dirent_encode c d = Inr bs"
    "\<exists>bs. dirent_idx_encode c e = Inr bs" "\<exists>bs. orphan_encode c x = Inr bs"
  using assms by (simp_all add: codec_defs codecs_ok_def encode_versioned_total)

lemma decode_encode:
  assumes "codecs_ok c"
  shows "inode_encode c i = Inr bs \<Longrightarrow> inode_decode c bs = Inr i"
    "dirent_encode c d = Inr bs \<Longrightarrow> dirent_decode c bs = Inr d"
    "dirent_idx_encode c e = Inr bs \<Longrightarrow> dirent_idx_decode c bs = Inr e"
    "orphan_encode c x = Inr bs \<Longrightarrow> orphan_decode c bs = Inr x"
  using assms by (simp_all add: codec_defs codecs_ok_def decode_encode_versioned)

end
