(* ===== verification/Names.thy ===== *)
theory Names
  imports Records
begin

text \<open>
  File-name encryption, \<^verbatim>\<open>crates/slatefs-core/src/crypto/names.rs\<close>. The key
  derivation and the cipher are third-party code and parameters: \<open>hkdf\<close> expands the
  volume key with an info string, \<open>siv_encrypt\<close> and \<open>siv_decrypt\<close> are AES-SIV with no
  associated data, \<open>None\<close> where they return an error. \<open>siv_ok\<close> is the documented round
  trip under one key. Shown here: sealing a name and opening it under the same
  directory gives the name back, and names of one directory have different keys.
\<close>

record siv =
  hkdf :: "bytes \<Rightarrow> bytes \<Rightarrow> bytes"
  siv_encrypt :: "bytes \<Rightarrow> bytes \<Rightarrow> bytes option"
  siv_decrypt :: "bytes \<Rightarrow> bytes \<Rightarrow> bytes option"

text \<open>The bytes of \<open>slatefs/dirname/v1\<close>.\<close>

definition DIR_KEY_INFO :: bytes where
  "DIR_KEY_INFO = [115, 108, 97, 116, 101, 102, 115, 47, 100, 105, 114, 110, 97, 109, 101, 47, 118, 49]"

definition dir_key :: "siv \<Rightarrow> bytes \<Rightarrow> u64 \<Rightarrow> bytes" where
  "dir_key c dek parent_ino = hkdf c dek (DIR_KEY_INFO @ be64 parent_ino)"

definition seal_name :: "siv \<Rightarrow> bytes \<Rightarrow> u64 \<Rightarrow> bytes \<Rightarrow> core_error + bytes" where
  "seal_name c dek parent_ino name =
     (case siv_encrypt c (dir_key c dek parent_ino) name of None \<Rightarrow> Inl E_Crypto | Some x \<Rightarrow> Inr x)"

definition open_name :: "siv \<Rightarrow> bytes \<Rightarrow> u64 \<Rightarrow> bytes \<Rightarrow> core_error + bytes" where
  "open_name c dek parent_ino enc_name =
     (case siv_decrypt c (dir_key c dek parent_ino) enc_name of None \<Rightarrow> Inl E_Crypto | Some x \<Rightarrow> Inr x)"

definition siv_ok :: "siv \<Rightarrow> bool" where
  "siv_ok c = (\<forall>key name. \<exists>enc. siv_encrypt c key name = Some enc \<and> siv_decrypt c key enc = Some name)"

lemma seal_name_total: "siv_ok c \<Longrightarrow> \<exists>enc. seal_name c dek p n = Inr enc"
  unfolding siv_ok_def by (drule spec2 [of _ "dir_key c dek p" n]) (auto simp: seal_name_def)

lemma open_seal_name: "siv_ok c \<Longrightarrow> seal_name c dek p n = Inr enc \<Longrightarrow> open_name c dek p enc = Inr n"
  unfolding siv_ok_def
  by (drule spec2 [of _ "dir_key c dek p" n]) (auto simp: seal_name_def open_name_def)

lemma seal_name_inject:
  "siv_ok c \<Longrightarrow> seal_name c dek p n = Inr enc \<Longrightarrow> seal_name c dek p n' = Inr enc \<Longrightarrow> n = n'"
  by (metis open_seal_name sum.inject(2))

end
