(* ===== verification/Quota.thy ===== *)
theory Quota
  imports Records
begin

text \<open>
  Quota accounting, \<^verbatim>\<open>crates/slatefs-core/src/quota.rs\<close> with the limit records of
  \<^verbatim>\<open>control.rs\<close>: the merge operator of the persisted counters, the billing rule of a
  chunk and the in-memory tracker that enforces the limits. The unix time a check
  compares grace deadlines with is an argument. Shown here: a reservation either
  moves the usage by exactly its delta or leaves it alone, an accepted one is
  within the hard limit, frees always succeed, and the usage after any run of
  reserve/commit/release rounds is the sum of the committed deltas.
\<close>

section \<open>Persisted counters\<close>

datatype merge_error = MergeCallback

definition decode_i64 :: "bytes \<Rightarrow> merge_error + i64" where
  "decode_i64 bs = (if length bs = 8 then Inr (from_le64 bs) else Inl MergeCallback)"

text \<open>\<open>CounterMergeOperator::merge\<close>: an existing operand, if any, plus the new delta.\<close>

definition counter_merge :: "bytes option \<Rightarrow> bytes \<Rightarrow> merge_error + bytes" where
  "counter_merge existing value =
     (case (case existing of None \<Rightarrow> Inr None
                           | Some b \<Rightarrow> (case decode_i64 b of Inl e \<Rightarrow> Inl e | Inr x \<Rightarrow> Inr (Some x))) of
        Inl e \<Rightarrow> Inl e
      | Inr ex \<Rightarrow>
          (case decode_i64 value of
             Inl e \<Rightarrow> Inl e
           | Inr delta \<Rightarrow> Inr (le64 ((case ex of None \<Rightarrow> 0 | Some x \<Rightarrow> x) + delta))))"

definition encode_delta :: "i64 \<Rightarrow> bytes" where
  "encode_delta delta = le64 delta"

definition decode_counter :: "bytes option \<Rightarrow> i64" where
  "decode_counter b =
     (case b of None \<Rightarrow> 0 | Some bs \<Rightarrow> (if length bs = 8 then from_le64 bs else 0))"

definition billed_chunk_bytes :: "u64 \<Rightarrow> u64 \<Rightarrow> nat \<Rightarrow> u64" where
  "billed_chunk_bytes sz chunk_start value_len =
     min (of_nat value_len) (saturating_sub sz chunk_start)"

section \<open>Limits and the tracker\<close>

record quota_limit =
  ql_soft :: "u64 option"
  ql_hard :: "u64 option"
  ql_grace_until :: "u64 option"

record quota_limits =
  ql_bytes :: quota_limit
  ql_inodes :: quota_limit

text \<open>\<open>hard as i64\<close> keeps the bits, so the comparison is of the signed readings.\<close>

definition exceeds_limit :: "i64 \<Rightarrow> quota_limit \<Rightarrow> u64 \<Rightarrow> bool" where
  "exceeds_limit usage limit now =
     ((case ql_hard limit of Some hard \<Rightarrow> sint hard < sint usage | None \<Rightarrow> False) \<or>
      (case (ql_soft limit, ql_grace_until limit) of
         (Some soft, Some grace_until) \<Rightarrow> sint soft < sint usage \<and> grace_until \<le> now
       | _ \<Rightarrow> False))"

record quota_tracker =
  qt_bytes :: i64
  qt_inodes :: i64
  qt_rejections :: u64
  qt_limits :: quota_limits

definition quota_new :: "i64 \<Rightarrow> i64 \<Rightarrow> quota_limits \<Rightarrow> quota_tracker" where
  "quota_new bytes inodes limits =
     \<lparr> qt_bytes = bytes, qt_inodes = inodes, qt_rejections = 0, qt_limits = limits \<rparr>"

definition quota_usage :: "quota_tracker \<Rightarrow> i64 \<times> i64" where
  "quota_usage q = (qt_bytes q, qt_inodes q)"

definition quota_hard_limits :: "quota_tracker \<Rightarrow> u64 option \<times> u64 option" where
  "quota_hard_limits q = (ql_hard (ql_bytes (qt_limits q)), ql_hard (ql_inodes (qt_limits q)))"

definition quota_set_limits :: "quota_limits \<Rightarrow> quota_tracker \<Rightarrow> bool \<times> quota_tracker" where
  "quota_set_limits limits q =
     (if qt_limits q = limits then (False, q) else (True, q\<lparr>qt_limits := limits\<rparr>))"

definition quota_reserve ::
  "u64 \<Rightarrow> i64 \<Rightarrow> i64 \<Rightarrow> quota_tracker \<Rightarrow> (fs_error + unit) \<times> quota_tracker" where
  "quota_reserve now bytes_delta inode_delta q =
     (let limits = qt_limits q;
          new_bytes = qt_bytes q + bytes_delta;
          q1 = q\<lparr>qt_bytes := new_bytes\<rparr>
      in if 0 < sint bytes_delta \<and> exceeds_limit new_bytes (ql_bytes limits) now
         then (Inl QuotaExceeded,
               q1\<lparr>qt_bytes := qt_bytes q1 - bytes_delta, qt_rejections := qt_rejections q1 + 1\<rparr>)
         else
           let new_inodes = qt_inodes q1 + inode_delta;
               q2 = q1\<lparr>qt_inodes := new_inodes\<rparr>
           in if 0 < sint inode_delta \<and> exceeds_limit new_inodes (ql_inodes limits) now
              then (Inl QuotaExceeded,
                    q2\<lparr>qt_inodes := qt_inodes q2 - inode_delta, qt_bytes := qt_bytes q2 - bytes_delta,
                       qt_rejections := qt_rejections q2 + 1\<rparr>)
              else (Inr (), q2))"

definition quota_release :: "i64 \<Rightarrow> i64 \<Rightarrow> quota_tracker \<Rightarrow> quota_tracker" where
  "quota_release bytes_delta inode_delta q =
     q\<lparr>qt_bytes := qt_bytes q - bytes_delta, qt_inodes := qt_inodes q - inode_delta\<rparr>"

definition quota_check_not_over :: "u64 \<Rightarrow> quota_tracker \<Rightarrow> (fs_error + unit) \<times> quota_tracker" where
  "quota_check_not_over now q =
     (if exceeds_limit (qt_bytes q) (ql_bytes (qt_limits q)) now
      then (Inl QuotaExceeded, q\<lparr>qt_rejections := qt_rejections q + 1\<rparr>)
      else (Inr (), q))"

section \<open>Lemmas\<close>

lemma decode_counter_le64 [simp]: "decode_counter (Some (le64 d)) = d"
  by (simp add: decode_counter_def)

lemma decode_counter_None [simp]: "decode_counter None = 0"
  by (simp add: decode_counter_def)

text \<open>Merging a delta into a counter adds it to what the counter decodes to.\<close>

lemma counter_merge_encode_delta:
  assumes "existing = None \<or> (\<exists>b. existing = Some b \<and> length b = 8)"
  shows "counter_merge existing (encode_delta d) = Inr (le64 (decode_counter existing + d))"
  using assms
  by (auto simp: counter_merge_def encode_delta_def decode_i64_def decode_counter_def)

lemma unat_billed_chunk_bytes:
  "n < 2 ^ 64 \<Longrightarrow> unat (billed_chunk_bytes sz start n) = min n (unat sz - unat start)"
  by (simp add: billed_chunk_bytes_def unat_min unat_saturating_sub unat_of_nat_lt)

lemma sint_small: "unat (w::i64) < 2 ^ 63 \<Longrightarrow> sint w = int (unat w)"
proof -
  assume "unat w < 2 ^ 63"
  then have "int (unat w) < int (2 ^ 63)" by (simp only: of_nat_less_iff)
  then have "uint w < 2 ^ 63" by simp
  moreover have "- (2 ^ 63) \<le> uint w" by (rule order_trans [of _ 0]) simp_all
  ultimately have "sint w = uint w"
    by (simp add: sint_uint signed_take_bit_int_eq_self)
  then show ?thesis by simp
qed

lemma quota_reserve_cases:
  "quota_reserve now db di q =
     (if 0 < sint db \<and> exceeds_limit (qt_bytes q + db) (ql_bytes (qt_limits q)) now \<or>
         0 < sint di \<and> exceeds_limit (qt_inodes q + di) (ql_inodes (qt_limits q)) now
      then (Inl QuotaExceeded, q\<lparr>qt_rejections := qt_rejections q + 1\<rparr>)
      else (Inr (), q\<lparr>qt_bytes := qt_bytes q + db, qt_inodes := qt_inodes q + di\<rparr>))"
  by (simp add: quota_reserve_def Let_def)

text \<open>
  The contract the mutation paths rely on: reserve before the batch is built,
  release if the commit fails.
\<close>

locale reservations =
  fixes reserve :: "'t \<Rightarrow> 'd::ab_group_add \<Rightarrow> 'q \<Rightarrow> ('e + unit) \<times> 'q"
    and release :: "'t \<Rightarrow> 'd \<Rightarrow> 'q \<Rightarrow> 'q"
    and usage :: "'q \<Rightarrow> 'd"
  assumes usage_reserve: "reserve t d q = (Inr u, q') \<Longrightarrow> usage q' = usage q + d"
    and usage_rejected: "reserve t d q = (Inl e, q') \<Longrightarrow> usage q' = usage q"
    and usage_release: "usage (release t d q) = usage q - d"
begin

text \<open>
  A round of the pattern is the time and deltas of the call and whether its batch
  landed; \<open>charged\<close> is what the round adds to the usage.
\<close>

definition round_of :: "'t \<times> 'd \<times> bool \<Rightarrow> 'q \<Rightarrow> 'q" where
  "round_of x q =
     (case x of (t, d, committed) \<Rightarrow>
        (case reserve t d q of
           (Inl e, q') \<Rightarrow> q'
         | (Inr u, q') \<Rightarrow> (if committed then q' else release t d q')))"

definition charged :: "'t \<times> 'd \<times> bool \<Rightarrow> 'q \<Rightarrow> 'd" where
  "charged x q =
     (case x of (t, d, committed) \<Rightarrow>
        (case reserve t d q of
           (Inl e, q') \<Rightarrow> 0
         | (Inr u, q') \<Rightarrow> (if committed then d else 0)))"

primrec rounds :: "('t \<times> 'd \<times> bool) list \<Rightarrow> 'q \<Rightarrow> 'q" where
  "rounds [] q = q"
| "rounds (x # xs) q = rounds xs (round_of x q)"

primrec total_charged :: "('t \<times> 'd \<times> bool) list \<Rightarrow> 'q \<Rightarrow> 'd" where
  "total_charged [] q = 0"
| "total_charged (x # xs) q = charged x q + total_charged xs (round_of x q)"

lemma usage_round: "usage (round_of x q) = usage q + charged x q"
  by (auto simp: round_of_def charged_def usage_reserve usage_rejected usage_release
           split: prod.split sum.split)

lemma usage_rounds: "usage (rounds xs q) = usage q + total_charged xs q"
  by (induction xs arbitrary: q) (simp_all add: usage_round add.assoc)

end

interpretation byte_quota: reservations
  "\<lambda>(now, di) d. quota_reserve now d di" "\<lambda>(now, di) d. quota_release d di" qt_bytes
  by unfold_locales (auto simp: quota_reserve_cases quota_release_def split: if_splits)

interpretation inode_quota: reservations
  "\<lambda>(now, db) d. quota_reserve now db d" "\<lambda>(now, db) d. quota_release db d" qt_inodes
  by unfold_locales (auto simp: quota_reserve_cases quota_release_def split: if_splits)

section \<open>Properties\<close>

text \<open>
  C22: a reservation is all or nothing. It succeeds exactly when neither counter
  grows past its limit, and then moves both counters by the deltas; otherwise both
  counters keep their value, the refusal is counted, and the error is \<open>EDQUOT\<close>.
\<close>

theorem quota_reserve_atomic:
  "(case quota_reserve now db di q of
      (Inr _, q') \<Rightarrow>
        quota_usage q' = (qt_bytes q + db, qt_inodes q + di) \<and> qt_rejections q' = qt_rejections q \<and>
        \<not> (0 < sint db \<and> exceeds_limit (qt_bytes q + db) (ql_bytes (qt_limits q)) now) \<and>
        \<not> (0 < sint di \<and> exceeds_limit (qt_inodes q + di) (ql_inodes (qt_limits q)) now)
    | (Inl e, q') \<Rightarrow>
        e = QuotaExceeded \<and> quota_usage q' = quota_usage q \<and>
        qt_rejections q' = qt_rejections q + 1 \<and>
        (0 < sint db \<and> exceeds_limit (qt_bytes q + db) (ql_bytes (qt_limits q)) now \<or>
         0 < sint di \<and> exceeds_limit (qt_inodes q + di) (ql_inodes (qt_limits q)) now))"
  by (auto simp: quota_reserve_cases quota_usage_def)

text \<open>
  C23: an accepted growth stays within a hard limit that fits the signed range, as
  a plain number.
\<close>

theorem quota_reserve_within_hard:
  assumes "quota_reserve now db di q = (Inr u, q')" and "0 < sint db"
    and "ql_hard (ql_bytes (qt_limits q)) = Some hard" and "unat hard < 2 ^ 63"
  shows "sint (qt_bytes q') \<le> int (unat hard)"
  using assms
  by (auto simp: quota_reserve_cases exceeds_limit_def sint_small split: if_splits)

theorem quota_reserve_within_hard_witness:
  "sint (qt_bytes (snd (quota_reserve 0 60 1
     \<lparr>qt_bytes = 40, qt_inodes = 0, qt_rejections = 0,
      qt_limits = \<lparr>ql_bytes = \<lparr>ql_soft = None, ql_hard = Some 100, ql_grace_until = None\<rparr>,
                   ql_inodes = \<lparr>ql_soft = None, ql_hard = None, ql_grace_until = None\<rparr>\<rparr>\<rparr>))) \<le> 100"
  using quota_reserve_within_hard [of 0 60 1
     "\<lparr>qt_bytes = 40, qt_inodes = 0, qt_rejections = 0,
      qt_limits = \<lparr>ql_bytes = \<lparr>ql_soft = None, ql_hard = Some 100, ql_grace_until = None\<rparr>,
                   ql_inodes = \<lparr>ql_soft = None, ql_hard = None, ql_grace_until = None\<rparr>\<rparr>\<rparr>" "()" _ 100]
  by (simp add: quota_reserve_cases exceeds_limit_def)

text \<open>
  C32: a hard limit of \<open>2 ^ 63\<close> or more reads as a negative number: every growth to a
  non-negative usage is refused.
\<close>

theorem quota_huge_hard_rejects:
  assumes "ql_hard (ql_bytes (qt_limits q)) = Some hard" and "2 ^ 63 \<le> unat hard"
    and "0 < sint db" and "0 \<le> sint (qt_bytes q + db)"
  shows "fst (quota_reserve now db di q) = Inl QuotaExceeded"
proof -
  have "sint hard < 0"
  proof (rule ccontr)
    assume "\<not> sint hard < 0"
    moreover have "sint hard < 2 ^ 63" using sint_lt [of hard] by simp
    ultimately have "uint hard = sint hard" by (simp add: uint_sint take_bit_int_eq_self)
    with \<open>sint hard < 2 ^ 63\<close> have "unat hard < 2 ^ 63" by (simp add: unat_eq_nat_uint)
    with assms(2) show False by simp
  qed
  with assms show ?thesis by (simp add: quota_reserve_cases exceeds_limit_def)
qed

theorem quota_huge_hard_rejects_witness:
  "fst (quota_reserve 0 60 1
     \<lparr>qt_bytes = 40, qt_inodes = 0, qt_rejections = 0,
      qt_limits = \<lparr>ql_bytes = \<lparr>ql_soft = None, ql_hard = Some 9223372036854775808, ql_grace_until = None\<rparr>,
                   ql_inodes = \<lparr>ql_soft = None, ql_hard = None, ql_grace_until = None\<rparr>\<rparr>\<rparr>) = Inl QuotaExceeded"
  using quota_huge_hard_rejects [of
     "\<lparr>qt_bytes = 40, qt_inodes = 0, qt_rejections = 0,
      qt_limits = \<lparr>ql_bytes = \<lparr>ql_soft = None, ql_hard = Some 9223372036854775808, ql_grace_until = None\<rparr>,
                   ql_inodes = \<lparr>ql_soft = None, ql_hard = None, ql_grace_until = None\<rparr>\<rparr>\<rparr>" 9223372036854775808 60 0 1]
  by simp

end
