(* ===== verification/Engine.thy ===== *)
theory Engine
  imports Quota "HOL-Library.AList"
begin

text \<open>
  The storage engine (SlateDB) as the program sees it. The engine is third-party
  code: it is a parameter, a record of the calls the program makes. Each call also
  receives the number of the call, so that an engine may fail any call it likes, and
  differently each time. \<open>engine_ok\<close> states what the program relies on: a read that
  succeeds returns what the database holds, a scan that succeeds yields the range in
  key order, a batch is applied whole or not at all. \<open>mem_engine\<close> is an in-memory
  engine with a failure schedule that has these properties.
\<close>

section \<open>Batches\<close>

type_synonym kv = "bytes \<rightharpoonup> bytes"

datatype batch_op = Put bytes bytes | Delete bytes | Merge bytes bytes

text \<open>Merges go through the volume's merge operator, which may reject an operand.\<close>

fun apply_op :: "batch_op \<Rightarrow> kv \<Rightarrow> kv option" where
  "apply_op (Put k v) m = Some (m(k \<mapsto> v))"
| "apply_op (Delete k) m = Some (m(k := None))"
| "apply_op (Merge k v) m =
     (case counter_merge (m k) v of Inl _ \<Rightarrow> None | Inr x \<Rightarrow> Some (m(k \<mapsto> x)))"

fun apply_batch :: "batch_op list \<Rightarrow> kv \<Rightarrow> kv option" where
  "apply_batch [] m = Some m"
| "apply_batch (b # bs) m = (case apply_op b m of None \<Rightarrow> None | Some m' \<Rightarrow> apply_batch bs m')"

section \<open>The engine's calls\<close>

text \<open>
  A scan hands over an iterator; stepping it is a call of its own and may fail, which
  is what \<open>eg_next\<close> decides. \<open>eg_contents\<close> is the logical content of the database; no
  definition of the program reads it, only the laws below do.
\<close>

record 'db engine =
  eg_get :: "'db \<Rightarrow> nat \<Rightarrow> bytes \<Rightarrow> slatedb_error + bytes option"
  eg_scan :: "'db \<Rightarrow> nat \<Rightarrow> bytes \<Rightarrow> bytes \<Rightarrow> slatedb_error + (bytes \<times> bytes) list"
  eg_next :: "'db \<Rightarrow> nat \<Rightarrow> slatedb_error + unit"
  eg_snapshot :: "'db \<Rightarrow> nat \<Rightarrow> slatedb_error + unit"
  eg_write :: "'db \<Rightarrow> nat \<Rightarrow> batch_op list \<Rightarrow> (slatedb_error + unit) \<times> 'db"
  eg_flush :: "'db \<Rightarrow> nat \<Rightarrow> (slatedb_error + unit) \<times> 'db"
  eg_contents :: "'db \<Rightarrow> kv"

definition scan_of :: "kv \<Rightarrow> bytes \<Rightarrow> bytes \<Rightarrow> (bytes \<times> bytes) list \<Rightarrow> bool" where
  "scan_of m lo hi kvs =
     (sorted_wrt (<) (map fst kvs) \<and>
      (\<forall>k v. (k, v) \<in> set kvs \<longleftrightarrow> m k = Some v \<and> lo \<le> k \<and> k < hi))"

definition engine_ok :: "'db engine \<Rightarrow> bool" where
  "engine_ok E =
     ((\<forall>db t k v. eg_get E db t k = Inr v \<longrightarrow> v = eg_contents E db k) \<and>
      (\<forall>db t lo hi kvs. eg_scan E db t lo hi = Inr kvs \<longrightarrow> scan_of (eg_contents E db) lo hi kvs) \<and>
      (\<forall>db t ops u db'. eg_write E db t ops = (Inr u, db') \<longrightarrow>
         (\<forall>m. apply_batch ops (eg_contents E db) = Some m \<longrightarrow> eg_contents E db' = m)) \<and>
      (\<forall>db t ops e db'. eg_write E db t ops = (Inl e, db') \<longrightarrow> eg_contents E db' = eg_contents E db) \<and>
      (\<forall>db t r db'. eg_flush E db t = (r, db') \<longrightarrow> eg_contents E db' = eg_contents E db))"

text \<open>An engine that answers every call, for the statements that an operation succeeds.\<close>

definition engine_answers :: "'db engine \<Rightarrow> bool" where
  "engine_answers E =
     ((\<forall>db t k. \<exists>v. eg_get E db t k = Inr v) \<and> (\<forall>db t lo hi. \<exists>kvs. eg_scan E db t lo hi = Inr kvs) \<and>
      (\<forall>db t. eg_next E db t = Inr ()) \<and> (\<forall>db t. eg_snapshot E db t = Inr ()) \<and>
      (\<forall>db t ops. fst (eg_write E db t ops) = Inr ()) \<and> (\<forall>db t. fst (eg_flush E db t) = Inr ()))"

text \<open>A database handle with the number of the next call.\<close>

record 'db store =
  st_db :: 'db
  st_ticks :: nat

abbreviation tick :: "'db store \<Rightarrow> 'db store" where
  "tick s \<equiv> s\<lparr>st_ticks := Suc (st_ticks s)\<rparr>"

definition store_get :: "'db engine \<Rightarrow> bytes \<Rightarrow> ('db store, slatedb_error, bytes option) act" where
  "store_get E k s = (eg_get E (st_db s) (st_ticks s) k, tick s)"

definition store_scan ::
  "'db engine \<Rightarrow> bytes \<Rightarrow> bytes \<Rightarrow> ('db store, slatedb_error, (bytes \<times> bytes) list) act" where
  "store_scan E lo hi s = (eg_scan E (st_db s) (st_ticks s) lo hi, tick s)"

definition store_next :: "'db engine \<Rightarrow> ('db store, slatedb_error, unit) act" where
  "store_next E s = (eg_next E (st_db s) (st_ticks s), tick s)"

definition store_snapshot :: "'db engine \<Rightarrow> ('db store, slatedb_error, 'db) act" where
  "store_snapshot E s =
     (case eg_snapshot E (st_db s) (st_ticks s) of Inl e \<Rightarrow> Inl e | Inr _ \<Rightarrow> Inr (st_db s), tick s)"

definition snapshot_get ::
  "'db engine \<Rightarrow> 'db \<Rightarrow> bytes \<Rightarrow> ('db store, slatedb_error, bytes option) act" where
  "snapshot_get E snap k s = (eg_get E snap (st_ticks s) k, tick s)"

definition store_write :: "'db engine \<Rightarrow> batch_op list \<Rightarrow> ('db store, slatedb_error, unit) act" where
  "store_write E ops s =
     (case eg_write E (st_db s) (st_ticks s) ops of (r, db') \<Rightarrow> (r, \<lparr>st_db = db', st_ticks = Suc (st_ticks s)\<rparr>))"

definition store_flush :: "'db engine \<Rightarrow> ('db store, slatedb_error, unit) act" where
  "store_flush E s =
     (case eg_flush E (st_db s) (st_ticks s) of (r, db') \<Rightarrow> (r, \<lparr>st_db = db', st_ticks = Suc (st_ticks s)\<rparr>))"

text \<open>\<open>?\<close> on an engine call in code that returns the core error.\<close>

abbreviation core :: "('s, slatedb_error, 'a) act \<Rightarrow> ('s, core_error, 'a) act" where
  "core m \<equiv> mapErrE E_SlateDb m"

abbreviation st_contents :: "'db engine \<Rightarrow> 'db store \<Rightarrow> kv" where
  "st_contents E s \<equiv> eg_contents E (st_db s)"

section \<open>An in-memory engine\<close>

definition mem_result :: "(nat \<Rightarrow> slatedb_error option) \<Rightarrow> nat \<Rightarrow> 'a \<Rightarrow> slatedb_error + 'a" where
  "mem_result fails t x = (case fails t of Some e \<Rightarrow> Inl e | None \<Rightarrow> Inr x)"

fun mem_apply :: "batch_op \<Rightarrow> (bytes \<times> bytes) list \<Rightarrow> (bytes \<times> bytes) list option" where
  "mem_apply (Put k v) db = Some (AList.update k v db)"
| "mem_apply (Delete k) db = Some (AList.delete k db)"
| "mem_apply (Merge k v) db =
     (case counter_merge (map_of db k) v of Inl _ \<Rightarrow> None | Inr x \<Rightarrow> Some (AList.update k x db))"

fun mem_apply_all :: "batch_op list \<Rightarrow> (bytes \<times> bytes) list \<Rightarrow> (bytes \<times> bytes) list option" where
  "mem_apply_all [] db = Some db"
| "mem_apply_all (b # bs) db = (case mem_apply b db of None \<Rightarrow> None | Some db' \<Rightarrow> mem_apply_all bs db')"

definition mem_engine :: "(nat \<Rightarrow> slatedb_error option) \<Rightarrow> (bytes \<times> bytes) list engine" where
  "mem_engine fails =
     \<lparr>eg_get = (\<lambda>db t k. mem_result fails t (map_of db k)),
      eg_scan = (\<lambda>db t lo hi. mem_result fails t
        (sort_key fst (filter (\<lambda>(k, v). lo \<le> k \<and> k < hi) (AList.clearjunk db)))),
      eg_next = (\<lambda>db t. mem_result fails t ()),
      eg_snapshot = (\<lambda>db t. mem_result fails t ()),
      eg_write = (\<lambda>db t ops. case fails t of
          Some e \<Rightarrow> (Inl e, db)
        | None \<Rightarrow> (case mem_apply_all ops db of None \<Rightarrow> (Inl OtherStorage, db) | Some db' \<Rightarrow> (Inr (), db'))),
      eg_flush = (\<lambda>db t. (mem_result fails t (), db)),
      eg_contents = map_of\<rparr>"

section \<open>Laws\<close>

lemma engine_getD: "engine_ok E \<Longrightarrow> eg_get E db t k = Inr v \<Longrightarrow> v = eg_contents E db k"
  by (simp add: engine_ok_def)

lemma engine_scanD: "engine_ok E \<Longrightarrow> eg_scan E db t lo hi = Inr kvs \<Longrightarrow> scan_of (eg_contents E db) lo hi kvs"
  unfolding engine_ok_def by blast

lemma engine_writeD:
  "engine_ok E \<Longrightarrow> eg_write E db t ops = (Inr u, db') \<Longrightarrow>
   apply_batch ops (eg_contents E db) = Some m \<Longrightarrow> eg_contents E db' = m"
  unfolding engine_ok_def by blast

lemma engine_write_errD:
  "engine_ok E \<Longrightarrow> eg_write E db t ops = (Inl e, db') \<Longrightarrow> eg_contents E db' = eg_contents E db"
  unfolding engine_ok_def by blast

lemma engine_flushD: "engine_ok E \<Longrightarrow> eg_flush E db t = (r, db') \<Longrightarrow> eg_contents E db' = eg_contents E db"
  unfolding engine_ok_def by blast

lemma run_store_read [run_simps]:
  "store_get E k s = (r, t) \<longleftrightarrow> r = eg_get E (st_db s) (st_ticks s) k \<and> t = tick s"
  "store_scan E lo hi s = (r', t) \<longleftrightarrow> r' = eg_scan E (st_db s) (st_ticks s) lo hi \<and> t = tick s"
  "store_next E s = (r'', t) \<longleftrightarrow> r'' = eg_next E (st_db s) (st_ticks s) \<and> t = tick s"
  "snapshot_get E snap k s = (r, t) \<longleftrightarrow> r = eg_get E snap (st_ticks s) k \<and> t = tick s"
  by (auto simp: store_get_def store_scan_def store_next_def snapshot_get_def)

text \<open>Reads leave the database value alone; nothing but a successful write changes the contents.\<close>

definition same_db :: "'db store \<Rightarrow> 'db store \<Rightarrow> bool" where
  "same_db s t = (st_db t = st_db s)"

definition same_contents :: "'db engine \<Rightarrow> 'db store \<Rightarrow> 'db store \<Rightarrow> bool" where
  "same_contents E s t = (st_contents E t = st_contents E s)"

lemma same_db_preorder [frame]: "reflp same_db" "transp same_db"
  by (auto simp: same_db_def reflp_def transp_def)

lemma same_contents_preorder [frame]: "reflp (same_contents E)" "transp (same_contents E)"
  by (auto simp: same_contents_def reflp_def transp_def)

lemma stays_store_reads [frame]:
  "stays same_db (store_get E k)" "stays same_db (store_scan E lo hi)" "stays same_db (store_next E)"
  "stays same_db (store_snapshot E)" "stays same_db (snapshot_get E snap k)"
  by (auto simp: stays_def same_db_def store_get_def store_scan_def store_next_def store_snapshot_def
      snapshot_get_def)

lemma stays_same_contents: "stays same_db m \<Longrightarrow> stays (same_contents E) m"
  by (auto simp: stays_def same_db_def same_contents_def)

lemma errs_store_write: "engine_ok E \<Longrightarrow> errs (same_contents E) (store_write E ops)"
  by (auto simp: errs_def same_contents_def store_write_def split: prod.splits dest: engine_write_errD)

lemma store_write_Inr:
  assumes "engine_ok E" "store_write E ops s = (Inr u, t)" "apply_batch ops (st_contents E s) = Some m"
  shows "st_contents E t = m"
  using assms by (auto simp: store_write_def split: prod.splits dest: engine_writeD)

subsection \<open>Batches\<close>

lemma apply_batch_append:
  "apply_batch (xs @ ys) m = (case apply_batch xs m of None \<Rightarrow> None | Some m' \<Rightarrow> apply_batch ys m')"
  by (induction xs arbitrary: m) (auto split: option.splits)

lemma apply_batch_deletes:
  "apply_batch (map Delete ks) m = Some (\<lambda>k. if k \<in> set ks then None else m k)"
  by (induction ks arbitrary: m) (auto simp: fun_eq_iff)

lemma apply_batch_puts:
  "apply_batch (map (\<lambda>(k, v). Put k v) kvs) m = Some (fold (\<lambda>(k, v) m. m(k \<mapsto> v)) kvs m)"
  by (induction kvs arbitrary: m) auto

lemma fold_puts:
  "distinct (map fst kvs) \<Longrightarrow>
   fold (\<lambda>(k, v) m. m(k \<mapsto> v)) kvs m k = (case map_of kvs k of None \<Rightarrow> m k | Some v \<Rightarrow> Some v)"
proof (induction kvs arbitrary: m)
  case (Cons kv kvs)
  then have "map_of kvs (fst kv) = None" by (simp add: map_of_eq_None_iff)
  with Cons show ?case by (cases kv) auto
qed simp

subsection \<open>The in-memory engine\<close>

lemma mem_apply_map_of: "mem_apply b db = Some db' \<Longrightarrow> apply_op b (map_of db) = Some (map_of db')"
  by (cases b) (auto simp: update_conv' delete_conv' split: sum.splits)

lemma mem_apply_all_map_of:
  "mem_apply_all ops db = Some db' \<Longrightarrow> apply_batch ops (map_of db) = Some (map_of db')"
proof (induction ops arbitrary: db)
  case (Cons b bs)
  then show ?case by (auto split: option.splits simp: mem_apply_map_of)
qed simp

lemma mem_scan_of:
  "scan_of (map_of db) lo hi (sort_key fst (filter (\<lambda>(k, v). lo \<le> k \<and> k < hi) (AList.clearjunk db)))"
proof -
  let ?kvs = "filter (\<lambda>(k, v). lo \<le> k \<and> k < hi) (AList.clearjunk db)"
  have "distinct (map fst ?kvs)" by (simp add: distinct_map_filter distinct_clearjunk)
  then have "distinct (map fst (sort_key fst ?kvs))" by (simp add: distinct_map)
  then have "sorted_wrt (<) (map fst (sort_key fst ?kvs))"
    by (simp add: strict_sorted_iff)
  moreover have "(k, v) \<in> set (AList.clearjunk db) \<longleftrightarrow> map_of db k = Some v" for k v
    using map_of_eq_Some_iff [OF distinct_clearjunk, of db k v] by (simp add: map_of_clearjunk)
  ultimately show ?thesis by (auto simp: scan_of_def)
qed

lemma mem_result_Inr: "mem_result fails t x = Inr y \<longleftrightarrow> fails t = None \<and> y = x"
  by (auto simp: mem_result_def split: option.splits)

text \<open>The laws the program relies on hold of a concrete engine, whatever calls it fails.\<close>

lemma mem_engine_ok: "engine_ok (mem_engine fails)"
proof (unfold engine_ok_def, intro conjI allI impI, goal_cases)
  case (1 db t k v)
  then show ?case by (simp add: mem_engine_def mem_result_Inr)
next
  case (2 db t lo hi kvs)
  then show ?case by (simp add: mem_engine_def mem_result_Inr mem_scan_of)
next
  case (3 db t ops u db' m)
  then show ?case by (auto simp: mem_engine_def split: option.splits dest: mem_apply_all_map_of)
next
  case (4 db t ops e db')
  then show ?case by (auto simp: mem_engine_def split: option.splits)
next
  case (5 db t r db')
  then show ?case by (simp add: mem_engine_def)
qed

end
