(* ===== verification/Data.thy ===== *)
theory Data
  imports Engine
begin

text \<open>
  The chunked content paths, \<^verbatim>\<open>crates/slatefs-core/src/data.rs\<close>. A file is a run of
  fixed-size chunks; an absent chunk reads as zeros and a short one is padded with
  zeros. \<open>file_bytes\<close> is the byte string the chunks stand for. Shown here: a read returns
  a segment of it.
\<close>

section \<open>Slices\<close>

definition segment :: "nat \<Rightarrow> nat \<Rightarrow> 'a list \<Rightarrow> 'a list" where
  "segment a b xs = take (b - a) (drop a xs)"

text \<open>\<open>xs[i..i + ys.len()].copy_from_segment(ys)\<close>.\<close>

definition overlay :: "'a list \<Rightarrow> nat \<Rightarrow> 'a list \<Rightarrow> 'a list" where
  "overlay xs i ys = take i xs @ ys @ drop (i + length ys) xs"

text \<open>\<open>buf.resize(n, 0)\<close> when the buffer is shorter.\<close>

definition pad_to :: "nat \<Rightarrow> bytes \<Rightarrow> bytes" where
  "pad_to n xs = xs @ replicate (n - length xs) 0"

section \<open>Reading\<close>

definition chunk_of :: "u64 \<Rightarrow> u64 \<Rightarrow> u32" where
  "chunk_of off cs = ucast (off div cs)"

definition copy_from_chunk :: "bytes \<Rightarrow> u64 \<Rightarrow> u32 \<Rightarrow> bytes \<Rightarrow> u64 \<Rightarrow> bytes" where
  "copy_from_chunk out read_offset idx chunk cs =
     (let chunk_start = ucast idx * cs;
          from = max read_offset chunk_start;
          to = min (read_offset + of_nat (length out)) (chunk_start + of_nat (length chunk))
      in if to \<le> from then out
         else overlay out (unat (from - read_offset))
                (segment (unat (from - chunk_start)) (unat (to - chunk_start)) chunk))"

fun read_chunks ::
  "'db engine \<Rightarrow> 'db \<Rightarrow> u64 \<Rightarrow> u64 \<Rightarrow> u64 \<Rightarrow> u32 list \<Rightarrow> bytes \<Rightarrow> ('db store, core_error, bytes) act" where
  "read_chunks E snap cs ino off [] out = returnE out"
| "read_chunks E snap cs ino off (idx # idxs) out =
     bindE (core (snapshot_get E snap (key_bytes (KChunk ino idx)))) (\<lambda>chunk.
       read_chunks E snap cs ino off idxs
         (case chunk of None \<Rightarrow> out | Some c \<Rightarrow> copy_from_chunk out off idx c cs))"

definition read_range ::
  "'db engine \<Rightarrow> u64 \<Rightarrow> u64 \<Rightarrow> u64 \<Rightarrow> u64 \<Rightarrow> u32 \<Rightarrow> ('db store, core_error, bytes) act" where
  "read_range E cs ino sz off len =
     (if sz \<le> off \<or> len = 0 then returnE []
      else
        let stop = min sz (off + ucast len);
            first = chunk_of off cs;
            final = chunk_of (stop - 1) cs;
            out = replicate (unat (stop - off)) 0
        in if first = final
           then bindE (core (store_get E (key_bytes (KChunk ino first)))) (\<lambda>chunk.
                  returnE (case chunk of None \<Rightarrow> out | Some c \<Rightarrow> copy_from_chunk out off first c cs))
           else bindE (core (store_snapshot E)) (\<lambda>snap.
                  read_chunks E snap cs ino off (range_incl first final) out))"

section \<open>Planning a write\<close>

record write_plan =
  wpl_puts :: "(u32 \<times> bytes) list"
  wpl_new_size :: u64
  wpl_billed_delta :: i64

text \<open>What the loop body makes of one chunk, given its old value.\<close>

definition write_chunk ::
  "u64 \<Rightarrow> u64 \<Rightarrow> u64 \<Rightarrow> bytes \<Rightarrow> u32 \<Rightarrow> bytes option \<Rightarrow> bytes \<times> i64" where
  "write_chunk cs old_size off dat idx old_chunk =
     (let stop = off + of_nat (length dat);
          new_size = max old_size stop;
          chunk_start = ucast idx * cs;
          chunk_end = chunk_start + cs;
          write_from = max off chunk_start;
          write_to = min stop chunk_end;
          old_len = (case old_chunk of None \<Rightarrow> 0 | Some c \<Rightarrow> length c);
          needed = unat (write_to - chunk_start);
          buf = overlay (pad_to needed (case old_chunk of None \<Rightarrow> [] | Some c \<Rightarrow> c))
                  (unat (write_from - chunk_start))
                  (segment (unat (write_from - off)) (unat (write_to - off)) dat);
          old_billed = (if old_chunk \<noteq> None then billed_chunk_bytes old_size chunk_start old_len else 0);
          new_billed = billed_chunk_bytes new_size chunk_start (length buf)
      in (buf, new_billed - old_billed))"

fun write_chunks ::
  "'db engine \<Rightarrow> u64 \<Rightarrow> u64 \<Rightarrow> u64 \<Rightarrow> u64 \<Rightarrow> bytes \<Rightarrow> u32 list \<Rightarrow> (u32 \<times> bytes) list \<Rightarrow> i64 \<Rightarrow>
   ('db store, core_error, (u32 \<times> bytes) list \<times> i64) act" where
  "write_chunks E cs ino old_size off dat [] puts delta = returnE (puts, delta)"
| "write_chunks E cs ino old_size off dat (idx # idxs) puts delta =
     bindE (if old_size \<le> ucast idx * cs then returnE None
            else core (store_get E (key_bytes (KChunk ino idx)))) (\<lambda>old_chunk.
       let w = write_chunk cs old_size off dat idx old_chunk
       in write_chunks E cs ino old_size off dat idxs (puts @ [(idx, fst w)]) (delta + snd w))"

definition plan_write ::
  "'db engine \<Rightarrow> u64 \<Rightarrow> u64 \<Rightarrow> u64 \<Rightarrow> u64 \<Rightarrow> bytes \<Rightarrow> ('db store, core_error, write_plan) act" where
  "plan_write E cs ino old_size off dat =
     (let stop = off + of_nat (length dat);
          new_size = max old_size stop;
          first = chunk_of off cs;
          final = chunk_of (stop - 1) cs
      in bindE (write_chunks E cs ino old_size off dat (range_incl first final) [] 0) (\<lambda>(puts, delta).
           returnE \<lparr>wpl_puts = puts, wpl_new_size = new_size, wpl_billed_delta = delta\<rparr>))"

section \<open>Planning a truncate\<close>

record truncate_plan =
  tp_tail_put :: "(u32 \<times> bytes) option"
  tp_deletes :: "u32 list"
  tp_billed_delta :: i64

text \<open>What the loop body adds to the plan for one chunk found.\<close>

definition truncate_chunk :: "u64 \<Rightarrow> u64 \<Rightarrow> u64 \<Rightarrow> u32 \<Rightarrow> bytes \<Rightarrow> truncate_plan \<Rightarrow> truncate_plan" where
  "truncate_chunk cs old_size new_size idx val plan =
     (let chunk_start = ucast idx * cs;
          old_billed = billed_chunk_bytes old_size chunk_start (length val)
      in if new_size \<le> chunk_start
         then plan\<lparr>tp_deletes := tp_deletes plan @ [idx],
                   tp_billed_delta := tp_billed_delta plan + (0 - old_billed)\<rparr>
         else
           let keep = unat (new_size - chunk_start)
           in if keep < length val
              then plan\<lparr>tp_tail_put := Some (idx, take keep val),
                        tp_billed_delta := tp_billed_delta plan + (of_nat (length (take keep val)) - old_billed)\<rparr>
              else plan\<lparr>tp_billed_delta := tp_billed_delta plan + (of_nat (length val) - old_billed)\<rparr>)"

fun truncate_scan ::
  "'db engine \<Rightarrow> u64 \<Rightarrow> u64 \<Rightarrow> u64 \<Rightarrow> (bytes \<times> bytes) list \<Rightarrow> truncate_plan \<Rightarrow>
   ('db store, core_error, truncate_plan) act" where
  "truncate_scan E cs old_size new_size [] plan =
     bindE (core (store_next E)) (\<lambda>_. returnE plan)"
| "truncate_scan E cs old_size new_size ((k, v) # kvs) plan =
     bindE (core (store_next E)) (\<lambda>_.
       case parse_chunk k of
         None \<Rightarrow> returnE plan
       | Some (_, idx) \<Rightarrow>
           truncate_scan E cs old_size new_size kvs (truncate_chunk cs old_size new_size idx v plan))"

definition plan_truncate ::
  "'db engine \<Rightarrow> u64 \<Rightarrow> u64 \<Rightarrow> u64 \<Rightarrow> u64 \<Rightarrow> ('db store, core_error, truncate_plan) act" where
  "plan_truncate E cs ino old_size new_size =
     (let none = \<lparr>tp_tail_put = None, tp_deletes = [], tp_billed_delta = 0\<rparr>
      in if old_size \<le> new_size then returnE none
         else bindE (core (store_scan E (key_bytes (KChunk ino (chunk_of new_size cs))) (chunk_prefix (ino + 1))))
                (\<lambda>kvs. truncate_scan E cs old_size new_size kvs none))"

section \<open>The content the chunks stand for\<close>

definition cs_ok :: "u64 \<Rightarrow> bool" where
  "cs_ok cs = (0 < unat cs \<and> unat cs < 2 ^ 32)"

abbreviation chunk_at :: "kv \<Rightarrow> u64 \<Rightarrow> u32 \<Rightarrow> bytes option" where
  "chunk_at m ino idx \<equiv> m (key_bytes (KChunk ino idx))"

definition byte_of :: "bytes option \<Rightarrow> nat \<Rightarrow> u8" where
  "byte_of c j = (case c of None \<Rightarrow> 0 | Some c \<Rightarrow> if j < length c then c ! j else 0)"

definition byte_at :: "kv \<Rightarrow> u64 \<Rightarrow> u64 \<Rightarrow> nat \<Rightarrow> u8" where
  "byte_at m cs ino i = byte_of (chunk_at m ino (of_nat (i div unat cs))) (i mod unat cs)"

definition file_bytes :: "kv \<Rightarrow> u64 \<Rightarrow> u64 \<Rightarrow> u64 \<Rightarrow> bytes" where
  "file_bytes m cs ino sz = map (byte_at m cs ino) [0 ..< unat sz]"

text \<open>Every chunk fits its slot, and no stored byte lies at or beyond the file's end.\<close>

definition chunks_wf :: "kv \<Rightarrow> u64 \<Rightarrow> u64 \<Rightarrow> u64 \<Rightarrow> bool" where
  "chunks_wf m cs ino sz =
     (\<forall>idx c. chunk_at m ino idx = Some c \<longrightarrow>
        length c \<le> unat cs \<and> unat idx * unat cs + length c \<le> unat sz)"

section \<open>Chunk arithmetic\<close>

lemma chunk_start_lt:
  assumes "cs_ok cs" shows "unat (idx::u32) * unat cs + unat cs < 2 ^ 64"
proof -
  have "unat idx * unat cs + unat cs = (unat idx + 1) * unat cs" by simp
  also have "\<dots> \<le> 2 ^ 32 * unat cs" using unat_lt32 [of idx] by (intro mult_right_mono) (simp_all del: unat_lt32)
  also have "\<dots> < 2 ^ 32 * 2 ^ 32" using assms by (simp add: cs_ok_def)
  finally show ?thesis by simp
qed

lemma unat_chunk_start:
  assumes "cs_ok cs" shows "unat (ucast (idx::u32) * cs) = unat idx * unat cs"
proof -
  have "unat idx * unat cs < 2 ^ 64" using chunk_start_lt [OF assms, of idx] by simp
  then show ?thesis by (simp add: unat_mult_lt unat_ucast_u32)
qed

lemma unat_chunk_of:
  assumes "cs_ok cs" "unat off < unat cs * 2 ^ 32"
  shows "unat (chunk_of off cs) = unat off div unat cs"
proof -
  have "unat off div unat cs < 2 ^ 32"
    using assms by (simp add: less_mult_imp_div_less mult.commute)
  then show ?thesis by (simp add: chunk_of_def unat_ucast_u64 unat_div)
qed

lemma unat_of_nat_chunk:
  assumes "i < unat cs * 2 ^ 32"
  shows "unat (of_nat (i div unat cs) :: u32) = i div unat cs"
proof -
  have "i div unat cs < 2 ^ 32" using assms by (simp add: less_mult_imp_div_less mult.commute)
  then show ?thesis by (simp add: unat_of_nat_lt)
qed

lemma div_eq_iff_range: "0 < (c::nat) \<Longrightarrow> i div c = d \<longleftrightarrow> d * c \<le> i \<and> i < d * c + c"
  by (metis div_nat_eqI dividend_less_div_times less_mult_imp_div_less mult.commute mult_Suc_right
      add.commute times_div_less_eq_dividend)

lemma nth_overlay:
  "j < length xs \<Longrightarrow> i + length ys \<le> length xs \<Longrightarrow>
   overlay xs i ys ! j = (if i \<le> j \<and> j < i + length ys then ys ! (j - i) else xs ! j)"
  by (auto simp: overlay_def nth_append min_def)

lemma length_overlay: "i + length ys \<le> length xs \<Longrightarrow> length (overlay xs i ys) = length xs"
  by (simp add: overlay_def)

lemma length_segment: "b \<le> length xs \<Longrightarrow> length (segment a b xs) = b - a"
  by (simp add: segment_def)

lemma nth_segment: "j < b - a \<Longrightarrow> b \<le> length xs \<Longrightarrow> segment a b xs ! j = xs ! (a + j)"
  by (simp add: segment_def)

lemma length_pad_to: "length (pad_to n xs) = max n (length xs)"
  by (simp add: pad_to_def)

lemma nth_pad_to: "j < max n (length xs) \<Longrightarrow> pad_to n xs ! j = (if j < length xs then xs ! j else 0)"
  by (auto simp: pad_to_def nth_append)

section \<open>Reading\<close>

lemma copy_from_chunk_nth:
  fixes idx :: u32
  assumes cs: "cs_ok cs" and o: "unat off + length out < 2 ^ 64" and c: "length c \<le> unat cs"
  defines "start \<equiv> unat idx * unat cs"
  shows "length (copy_from_chunk out off idx c cs) = length out"
    and "j < length out \<Longrightarrow> copy_from_chunk out off idx c cs ! j =
      (if start \<le> unat off + j \<and> unat off + j < start + length c then c ! (unat off + j - start) else out ! j)"
proof -
  let ?from = "max off (ucast idx * cs)"
  let ?to = "min (off + of_nat (length out)) (ucast idx * cs + of_nat (length c))"
  have s: "unat (ucast idx * cs) = start" by (simp add: unat_chunk_start [OF cs] start_def)
  have lt: "start + length c < 2 ^ 64" using chunk_start_lt [OF cs, of idx] c by (simp add: start_def)
  have fr: "unat ?from = max (unat off) start" by (simp add: unat_max s)
  have "length out < 2 ^ 64" "length c < 2 ^ 64" using o lt by simp_all
  then have "unat (off + of_nat (length out)) = unat off + length out"
    "unat (ucast idx * cs + of_nat (length c)) = start + length c"
    using o lt by (simp_all add: unat_add_lt unat_of_nat_lt s)
  then have to: "unat ?to = min (unat off + length out) (start + length c)" by (simp add: unat_min)
  have le: "?to \<le> ?from \<longleftrightarrow> unat ?to \<le> unat ?from" by (simp add: word_le_nat_alt)
  have "length (copy_from_chunk out off idx c cs) = length out \<and>
    (j < length out \<longrightarrow> copy_from_chunk out off idx c cs ! j =
      (if start \<le> unat off + j \<and> unat off + j < start + length c then c ! (unat off + j - start) else out ! j))"
  proof (cases "?to \<le> ?from")
    case True
    then have "\<not> (start \<le> unat off + j \<and> unat off + j < start + length c)" if "j < length out"
      using that unfolding le fr to by auto
    with True show ?thesis by (auto simp: copy_from_chunk_def Let_def)
  next
    case False
    then have lt': "max (unat off) start < min (unat off + length out) (start + length c)"
      unfolding le fr to by linarith
    have d: "unat (?from - off) = max (unat off) start - unat off"
      "unat (?from - ucast idx * cs) = max (unat off) start - start"
      "unat (?to - ucast idx * cs) = min (unat off + length out) (start + length c) - start"
      using lt' by (simp_all add: unat_diff_le fr to s)
    from False have eq: "copy_from_chunk out off idx c cs =
      overlay out (max (unat off) start - unat off)
        (segment (max (unat off) start - start) (min (unat off + length out) (start + length c) - start) c)"
      by (simp add: copy_from_chunk_def Let_def d)
    have len: "length (segment (max (unat off) start - start) (min (unat off + length out) (start + length c) - start) c)
       = min (unat off + length out) (start + length c) - max (unat off) start"
      using lt' by (subst length_segment) auto
    show ?thesis
      unfolding eq using lt' by (auto simp: length_overlay nth_overlay len nth_segment add.commute [of j])
  qed
  then show "length (copy_from_chunk out off idx c cs) = length out"
    and "j < length out \<Longrightarrow> copy_from_chunk out off idx c cs ! j =
      (if start \<le> unat off + j \<and> unat off + j < start + length c then c ! (unat off + j - start) else out ! j)"
    by blast+
qed

text \<open>The output buffer after the chunks with index in \<open>P\<close> were copied.\<close>

definition read_done :: "kv \<Rightarrow> u64 \<Rightarrow> u64 \<Rightarrow> u64 \<Rightarrow> u32 set \<Rightarrow> bytes \<Rightarrow> bool" where
  "read_done m cs ino off P out =
     (\<forall>j < length out. out ! j =
        (if of_nat ((unat off + j) div unat cs) \<in> P then byte_at m cs ino (unat off + j) else 0))"

lemma read_done_step:
  assumes cs: "cs_ok cs" and o: "unat off + length out < 2 ^ 64"
    and lim: "unat off + length out \<le> unat cs * 2 ^ 32"
    and wf: "\<And>c. chunk_at m ino idx = Some c \<Longrightarrow> length c \<le> unat cs"
    and dn: "read_done m cs ino off P out"
  defines "out' \<equiv> (case chunk_at m ino idx of None \<Rightarrow> out | Some c \<Rightarrow> copy_from_chunk out off idx c cs)"
  shows "length out' = length out \<and> read_done m cs ino off (insert idx P) out'"
proof -
  have len: "length out' = length out"
    using copy_from_chunk_nth(1) [OF cs o wf] by (auto simp: out'_def split: option.splits)
  have "out' ! j = (if of_nat ((unat off + j) div unat cs) \<in> insert idx P
          then byte_at m cs ino (unat off + j) else 0)" if j: "j < length out" for j
  proof -
    let ?i = "unat off + j"
    have idx: "of_nat (?i div unat cs) = idx \<longleftrightarrow> ?i div unat cs = unat idx"
      using unat_of_nat_chunk [of ?i cs] j lim by (simp add: word_unat_eq_iff)
    have rng: "?i div unat cs = unat idx \<longleftrightarrow> unat idx * unat cs \<le> ?i \<and> ?i < unat idx * unat cs + unat cs"
      using cs by (simp add: div_eq_iff_range cs_ok_def)
    have old: "out ! j = (if of_nat (?i div unat cs) \<in> P then byte_at m cs ino ?i else 0)"
      using dn j by (simp add: read_done_def)
    have md: "?i mod unat cs = ?i - unat idx * unat cs" if "?i div unat cs = unat idx"
      using that by (metis minus_div_mult_eq_mod)
    show ?thesis
    proof (cases "chunk_at m ino idx")
      case None
      with old idx show ?thesis by (auto simp: out'_def byte_at_def byte_of_def)
    next
      case (Some c)
      have "out' ! j = (if unat idx * unat cs \<le> ?i \<and> ?i < unat idx * unat cs + length c
          then c ! (?i - unat idx * unat cs) else out ! j)"
        using copy_from_chunk_nth(2) [OF cs o wf [OF Some] j, of idx] Some by (simp add: out'_def)
      with Some old idx rng md wf [OF Some] show ?thesis
        by (auto simp: byte_at_def byte_of_def split: if_splits)
    qed
  qed
  with len show ?thesis by (simp add: read_done_def)
qed

lemma read_chunks_done:
  assumes E: "engine_ok E" and cs: "cs_ok cs"
    and wf: "\<And>idx c. chunk_at (eg_contents E snap) ino idx = Some c \<Longrightarrow> length c \<le> unat cs"
  shows "read_chunks E snap cs ino off idxs out s = (Inr out', t) \<Longrightarrow>
    unat off + length out < 2 ^ 64 \<Longrightarrow> unat off + length out \<le> unat cs * 2 ^ 32 \<Longrightarrow>
    read_done (eg_contents E snap) cs ino off P out \<Longrightarrow>
    length out' = length out \<and> read_done (eg_contents E snap) cs ino off (P \<union> set idxs) out'"
proof (induction idxs arbitrary: out s P)
  case Nil
  then show ?case by (simp add: run_simps)
next
  case (Cons idx idxs)
  let ?m = "eg_contents E snap"
  let ?o = "case chunk_at ?m ino idx of None \<Rightarrow> out | Some c \<Rightarrow> copy_from_chunk out off idx c cs"
  from Cons.prems(1) have run: "read_chunks E snap cs ino off idxs ?o (tick s) = (Inr out', t)"
    by (auto simp: run_simps dest!: sym [of "Inr _"] engine_getD [OF E])
  have step: "length ?o = length out \<and> read_done ?m cs ino off (insert idx P) ?o"
    using read_done_step [OF cs Cons.prems(2,3) wf Cons.prems(4)] .
  with Cons.prems Cons.IH [OF run, of "insert idx P"] show ?case by simp
qed

lemma nth_file_bytes: "i < unat sz \<Longrightarrow> file_bytes m cs ino sz ! i = byte_at m cs ino i"
  by (simp add: file_bytes_def)

lemma length_file_bytes [simp]: "length (file_bytes m cs ino sz) = unat sz"
  by (simp add: file_bytes_def)

text \<open>A buffer whose chunks were all copied is the segment of the content.\<close>

lemma read_done_segment:
  assumes "read_done m cs ino off P out" and "unat off + length out = stop" and "stop \<le> unat sz"
    and "\<And>j. j < length out \<Longrightarrow> of_nat ((unat off + j) div unat cs) \<in> P"
  shows "out = segment (unat off) stop (file_bytes m cs ino sz)"
  using assms by (intro nth_equalityI) (auto simp: read_done_def length_segment nth_segment nth_file_bytes)

lemma read_window:
  assumes cs: "cs_ok cs" and lim: "unat sz \<le> unat cs * 2 ^ 32" and ov: "unat off + unat len < 2 ^ 64"
    and "off < sz" "len \<noteq> 0"
  defines "stop \<equiv> min sz (off + ucast (len::u32))"
  shows "unat stop = min (unat sz) (unat off + unat len)" "unat off < unat stop"
    "unat (stop - off) = unat stop - unat off"
    "unat (chunk_of off cs) = unat off div unat cs"
    "unat (chunk_of (stop - 1) cs) = (unat stop - 1) div unat cs"
proof -
  have lt: "unat off < unat sz" using assms by (simp add: word_less_nat_alt)
  have len: "0 < unat len" using assms by (simp add: unat_gt_0)
  show 1: "unat stop = min (unat sz) (unat off + unat len)"
    using ov by (simp add: stop_def unat_min unat_add_lt unat_ucast_u32)
  show 2: "unat off < unat stop" using lt len by (simp add: 1)
  then show "unat (stop - off) = unat stop - unat off" by (simp add: unat_diff_le)
  show "unat (chunk_of off cs) = unat off div unat cs"
    using lim lt by (intro unat_chunk_of [OF cs]) simp
  have "unat (stop - 1) = unat stop - 1" using 2 by (subst unat_diff_le) simp_all
  moreover have "unat stop - 1 < unat cs * 2 ^ 32" using 1 2 lim lt by linarith
  ultimately show "unat (chunk_of (stop - 1) cs) = (unat stop - 1) div unat cs"
    by (simp add: unat_chunk_of [OF cs])
qed

lemma read_range_segment:
  assumes E: "engine_ok E" and cs: "cs_ok cs"
    and wf: "\<And>idx c. chunk_at (st_contents E s) ino idx = Some c \<Longrightarrow> length c \<le> unat cs"
    and lim: "unat sz \<le> unat cs * 2 ^ 32" and ov: "unat off + unat len < 2 ^ 64"
    and run: "read_range E cs ino sz off len s = (Inr bs, t)"
  shows "bs = segment (unat off) (unat off + unat len) (file_bytes (st_contents E s) cs ino sz)"
proof (cases "sz \<le> off \<or> len = 0")
  case True
  with run show ?thesis
    by (auto simp: read_range_def run_simps segment_def word_le_nat_alt)
next
  case False
  let ?m = "st_contents E s"
  let ?stop = "min sz (off + ucast len)"
  let ?first = "chunk_of off cs" let ?final = "chunk_of (?stop - 1) cs"
  let ?out = "replicate (unat (?stop - off)) (0::u8)"
  from False have "off < sz" "len \<noteq> 0" by auto
  note w = read_window [OF cs lim ov this]
  have len: "unat off + length ?out = unat ?stop" using w(2,3) by simp
  have ov': "unat off + length ?out < 2 ^ 64" "unat off + length ?out \<le> unat cs * 2 ^ 32"
    using len w(1) lim unat_lt64 [of ?stop] by (simp_all del: unat_lt64)
  have init: "read_done ?m cs ino off {} ?out" by (simp add: read_done_def)
  have "length bs = length ?out \<and> read_done ?m cs ino off {i. ?first \<le> i \<and> i \<le> ?final} bs"
  proof (cases "?first = ?final")
    case True
    then have "{i. ?first \<le> i \<and> i \<le> ?final} = {?final}" by auto
    moreover have "bs = (case chunk_at ?m ino ?final of None \<Rightarrow> ?out | Some c \<Rightarrow> copy_from_chunk ?out off ?final c cs)"
      using run True False
      by (auto simp: read_range_def run_simps Let_def dest!: sym [of "Inr _"] engine_getD [OF E])
    ultimately show ?thesis using read_done_step [OF cs ov' wf init, of ?final] by simp
  next
    case ne: False
    then obtain s' where "read_chunks E (st_db s) cs ino off (range_incl ?first ?final) ?out s' = (Inr bs, t)"
      using run False
      by (auto simp: read_range_def run_simps Let_def store_snapshot_def split: sum.splits)
    from read_chunks_done [OF E cs wf this ov' init] show ?thesis by (simp add: set_range_incl)
  qed
  moreover have "of_nat ((unat off + j) div unat cs) \<in> {i. ?first \<le> i \<and> i \<le> ?final}" if "j < length ?out" for j
  proof -
    have "unat off + j \<le> unat ?stop - 1" "unat off + j < unat cs * 2 ^ 32" using that len ov' by simp_all
    then show ?thesis
      by (simp add: word_le_nat_alt unat_of_nat_chunk w(4,5) div_le_mono)
  qed
  ultimately have "bs = segment (unat off) (unat ?stop) (file_bytes ?m cs ino sz)"
    using len w(1) by (intro read_done_segment) auto
  also have "\<dots> = segment (unat off) (unat off + unat len) (file_bytes ?m cs ino sz)"
    unfolding w(1) by (cases "unat sz \<le> unat off + unat len") (simp_all add: segment_def)
  finally show ?thesis .
qed

end
