(* ===== verification/Data_Plans.thy ===== *)
theory Data_Plans
  imports Data
begin

text \<open>
  What the plans of \<^verbatim>\<open>data.rs\<close> do when their puts and deletes are applied: a write plan
  overwrites the file's content, a truncate plan cuts it, and the billed delta of
  either is the change of the sum of the chunks' billed bytes.
\<close>

section \<open>Writing\<close>

definition chunk_billed :: "u64 \<Rightarrow> u64 \<Rightarrow> u32 \<Rightarrow> bytes option \<Rightarrow> u64" where
  "chunk_billed cs sz idx c =
     (case c of None \<Rightarrow> 0 | Some c \<Rightarrow> billed_chunk_bytes sz (ucast idx * cs) (length c))"

text \<open>The billed bytes of a file: the accounting rule of the quota, summed over its chunks.\<close>

definition file_billed :: "kv \<Rightarrow> u64 \<Rightarrow> u64 \<Rightarrow> u64 \<Rightarrow> u64" where
  "file_billed m cs ino sz = (\<Sum>idx \<in> UNIV. chunk_billed cs sz idx (chunk_at m ino idx))"

lemma word_less_nat: "(a::u64) \<le> b \<longleftrightarrow> unat a \<le> unat b"
  by (simp add: word_le_nat_alt)

lemma write_chunk_spec:
  fixes idx :: u32
  assumes cs: "cs_ok cs" and ov: "unat off + length dat < 2 ^ 64"
    and old: "\<And>c. old = Some c \<Longrightarrow> length c \<le> unat cs"
    and ne: "dat \<noteq> []"
    and hit: "unat idx * unat cs < unat off + length dat" "unat off < unat idx * unat cs + unat cs"
    and res: "write_chunk cs old_size off dat idx old = (buf, d)"
  defines "start \<equiv> unat idx * unat cs" and "new_size \<equiv> max old_size (off + of_nat (length dat))"
  shows "length buf = max (min (unat off + length dat) (start + unat cs) - start) (case old of None \<Rightarrow> 0 | Some c \<Rightarrow> length c)"
    and "j < unat cs \<Longrightarrow> byte_of (Some buf) j =
      (if unat off \<le> start + j \<and> start + j < unat off + length dat then dat ! (start + j - unat off) else byte_of old j)"
    and "d = chunk_billed cs new_size idx (Some buf) - chunk_billed cs old_size idx old"
proof -
  let ?s = "ucast idx * cs :: u64" let ?L = "length dat"
  let ?stop = "off + of_nat ?L" let ?from = "max off ?s" let ?to = "min ?stop (?s + cs)"
  let ?o = "case old of None \<Rightarrow> [] | Some c \<Rightarrow> c"
  have s: "unat ?s = start" by (simp add: unat_chunk_start [OF cs] start_def)
  have e: "unat (?s + cs) = start + unat cs"
    using chunk_start_lt [OF cs, of idx] by (subst unat_add_lt) (simp_all add: s start_def)
  have stop: "unat ?stop = unat off + ?L" using ov by (simp add: unat_add_lt unat_of_nat_lt)
  have fr: "unat ?from = max (unat off) start" by (simp add: unat_max s)
  have to: "unat ?to = min (unat off + ?L) (start + unat cs)" by (simp add: unat_min stop e)
  have le: "max (unat off) start < min (unat off + ?L) (start + unat cs)"
    using hit cs ne by (auto simp: start_def cs_ok_def)
  have d1: "unat (?to - ?s) = min (unat off + ?L) (start + unat cs) - start"
    "unat (?from - ?s) = max (unat off) start - start"
    "unat (?from - off) = max (unat off) start - unat off"
    "unat (?to - off) = min (unat off + ?L) (start + unat cs) - unat off"
    using le by (simp_all add: unat_diff_le fr to s)
  define need where "need = min (unat off + ?L) (start + unat cs) - start"
  define src where "src = segment (max (unat off) start - unat off) (min (unat off + ?L) (start + unat cs) - unat off) dat"
  have lsrc: "length src = need - (max (unat off) start - start)"
    using le unfolding src_def need_def by (subst length_segment) auto
  have buf: "buf = overlay (pad_to need ?o) (max (unat off) start - start) src"
    using res by (auto simp: write_chunk_def Let_def d1 need_def src_def)
  have fit: "max (unat off) start - start + length src \<le> length (pad_to need ?o)"
    using le lsrc by (simp add: length_pad_to need_def)
  have lo: "length ?o = (case old of None \<Rightarrow> 0 | Some c \<Rightarrow> length c)" by (simp split: option.split)
  show lb: "length buf = max (min (unat off + ?L) (start + unat cs) - start) (case old of None \<Rightarrow> 0 | Some c \<Rightarrow> length c)"
    using length_overlay [OF fit] by (simp add: buf length_pad_to lo need_def)
  show "d = chunk_billed cs new_size idx (Some buf) - chunk_billed cs old_size idx old"
    using res by (auto simp: write_chunk_def Let_def chunk_billed_def new_size_def split: option.splits)
  show "byte_of (Some buf) j =
      (if unat off \<le> start + j \<and> start + j < unat off + ?L then dat ! (start + j - unat off) else byte_of old j)"
    if j: "j < unat cs"
  proof (cases "j < length buf")
    case True
    then have jp: "j < length (pad_to need ?o)" by (simp add: buf length_overlay [OF fit])
    have "src ! (j - (max (unat off) start - start)) = dat ! (start + j - unat off)"
      if "max (unat off) start - start \<le> j" "j < need"
      unfolding src_def using that le
      by (subst nth_segment) (auto simp: need_def intro!: arg_cong [of _ _ "nth dat"])
    moreover have "max (unat off) start - start + length src = need" using lsrc le by (auto simp: need_def)
    ultimately have "buf ! j = (if max (unat off) start - start \<le> j \<and> j < need then dat ! (start + j - unat off)
        else if j < length ?o then ?o ! j else 0)"
      using jp by (simp add: buf nth_overlay [OF jp fit] nth_pad_to length_pad_to)
    moreover have "max (unat off) start - start \<le> j \<and> j < need \<longleftrightarrow> unat off \<le> start + j \<and> start + j < unat off + ?L"
      using j le by (auto simp: need_def)
    ultimately show ?thesis using True by (auto simp: byte_of_def split: option.splits)
  next
    case False
    then have "\<not> (unat off \<le> start + j \<and> start + j < unat off + ?L)" and "length ?o \<le> j"
      using j le lb lo by auto
    with False show ?thesis by (auto simp: byte_of_def split: option.splits)
  qed
qed

text \<open>The plan, chunk by chunk.\<close>

definition old_chunk_of :: "kv \<Rightarrow> u64 \<Rightarrow> u64 \<Rightarrow> u64 \<Rightarrow> u32 \<Rightarrow> bytes option" where
  "old_chunk_of m cs ino old_size idx = (if old_size \<le> ucast idx * cs then None else chunk_at m ino idx)"

lemma write_chunks_run:
  assumes E: "engine_ok E"
  shows "write_chunks E cs ino old_size off dat idxs puts delta s = (Inr (puts', delta'), t) \<Longrightarrow>
    puts' = puts @ map (\<lambda>idx. (idx, fst (write_chunk cs old_size off dat idx (old_chunk_of (st_contents E s) cs ino old_size idx)))) idxs \<and>
    delta' = delta + sum_list (map (\<lambda>idx. snd (write_chunk cs old_size off dat idx (old_chunk_of (st_contents E s) cs ino old_size idx))) idxs) \<and>
    st_db t = st_db s"
proof (induction idxs arbitrary: puts delta s)
  case Nil
  then show ?case by (simp add: run_simps)
next
  case (Cons idx idxs)
  let ?old = "old_chunk_of (st_contents E s) cs ino old_size idx"
  let ?w = "write_chunk cs old_size off dat idx ?old"
  define u where "u = (if old_size \<le> ucast idx * cs then s else tick s)"
  have u: "st_db u = st_db s" by (simp add: u_def)
  from Cons.prems have run: "write_chunks E cs ino old_size off dat idxs (puts @ [(idx, fst ?w)]) (delta + snd ?w) u = (Inr (puts', delta'), t)"
    by (auto simp: run_simps Let_def old_chunk_of_def u_def split: if_splits dest!: sym [of "Inr _"] engine_getD [OF E])
  from Cons.IH [OF run] u show ?case by (simp add: add.assoc)
qed

lemma plan_write_run:
  assumes E: "engine_ok E" and run: "plan_write E cs ino old_size off dat s = (Inr plan, t)"
  defines "idxs \<equiv> range_incl (chunk_of off cs) (chunk_of (off + of_nat (length dat) - 1) cs)"
    and "w \<equiv> \<lambda>idx. write_chunk cs old_size off dat idx (old_chunk_of (st_contents E s) cs ino old_size idx)"
  shows "wpl_puts plan = map (\<lambda>idx. (idx, fst (w idx))) idxs"
    and "wpl_billed_delta plan = sum_list (map (\<lambda>idx. snd (w idx)) idxs)"
    and "wpl_new_size plan = max old_size (off + of_nat (length dat))"
    and "st_db t = st_db s"
  using run unfolding idxs_def w_def
  by (auto simp: plan_write_def Let_def run_simps split: prod.splits dest!: write_chunks_run [OF E])

text \<open>The puts a plan stands for, applied to the database.\<close>

definition chunk_puts :: "u64 \<Rightarrow> (u32 \<times> bytes) list \<Rightarrow> batch_op list" where
  "chunk_puts ino puts = map (\<lambda>(idx, b). Put (key_bytes (KChunk ino idx)) b) puts"

definition put_chunks :: "u64 \<Rightarrow> (u32 \<times> bytes) list \<Rightarrow> kv \<Rightarrow> kv" where
  "put_chunks ino puts m = fold (\<lambda>(idx, b) m. m(key_bytes (KChunk ino idx) \<mapsto> b)) puts m"

lemma apply_chunk_puts: "apply_batch (chunk_puts ino puts) m = Some (put_chunks ino puts m)"
  unfolding chunk_puts_def put_chunks_def by (induction puts arbitrary: m) auto

lemma put_chunks_other: "(\<And>idx. k \<noteq> key_bytes (KChunk ino idx)) \<Longrightarrow> put_chunks ino puts m k = m k"
  unfolding put_chunks_def by (induction puts arbitrary: m) auto

lemma put_chunks_map:
  "chunk_at (put_chunks ino (map (\<lambda>idx. (idx, f idx)) idxs) m) ino idx =
     (if idx \<in> set idxs then Some (f idx) else chunk_at m ino idx)"
  unfolding put_chunks_def by (induction idxs arbitrary: m) auto

lemma chunks_wf_byte_beyond:
  assumes "chunks_wf m cs ino sz" "cs_ok cs" "unat sz \<le> i" "i < unat cs * 2 ^ 32"
  shows "byte_at m cs ino i = 0"
proof (cases "chunk_at m ino (of_nat (i div unat cs))")
  case (Some c)
  with assms(1) have "unat (of_nat (i div unat cs) :: u32) * unat cs + length c \<le> unat sz"
    by (simp add: chunks_wf_def)
  then have "i div unat cs * unat cs + length c \<le> unat sz"
    by (simp only: unat_of_nat_chunk [OF assms(4)])
  then have "length c \<le> i mod unat cs" using assms(3) div_mult_mod_eq [of i "unat cs"] by linarith
  with Some show ?thesis by (simp add: byte_at_def byte_of_def)
qed (simp add: byte_at_def byte_of_def)

text \<open>A write that fits the chunk index space, and its window in whole numbers.\<close>

definition write_fits :: "u64 \<Rightarrow> u64 \<Rightarrow> bytes \<Rightarrow> bool" where
  "write_fits cs off dat = (cs_ok cs \<and> dat \<noteq> [] \<and> unat off + length dat < 2 ^ 64 \<and>
     unat off + length dat \<le> unat cs * 2 ^ 32)"

definition write_idxs :: "u64 \<Rightarrow> u64 \<Rightarrow> bytes \<Rightarrow> u32 list" where
  "write_idxs cs off dat = range_incl (chunk_of off cs) (chunk_of (off + of_nat (length dat) - 1) cs)"

lemma write_window:
  assumes "write_fits cs off dat"
  shows "unat (chunk_of off cs) = unat off div unat cs"
    "unat (chunk_of (off + of_nat (length dat) - 1) cs) = (unat off + length dat - 1) div unat cs"
    "unat (off + of_nat (length dat)) = unat off + length dat"
proof -
  from assms have cs: "cs_ok cs" and pos: "0 < length dat" and ov: "unat off + length dat < 2 ^ 64"
    and lim: "unat off + length dat \<le> unat cs * 2 ^ 32" by (auto simp: write_fits_def)
  show stop: "unat (off + of_nat (length dat)) = unat off + length dat"
    using ov by (simp add: unat_add_lt unat_of_nat_lt)
  show "unat (chunk_of off cs) = unat off div unat cs"
    using lim pos by (intro unat_chunk_of [OF cs]) linarith
  have "unat (1::u64) \<le> unat (off + of_nat (length dat))" using stop pos by (simp del: length_greater_0_conv)
  then have one: "unat (off + of_nat (length dat) - 1) = unat off + length dat - 1"
    using stop by (subst unat_diff_le) simp_all
  then have "unat (off + of_nat (length dat) - 1) < unat cs * 2 ^ 32" using lim pos by linarith
  then show "unat (chunk_of (off + of_nat (length dat) - 1) cs) = (unat off + length dat - 1) div unat cs"
    by (simp add: unat_chunk_of [OF cs] one)
qed

lemma in_window_iff:
  assumes "0 < (c::nat)" "0 < n"
  shows "o' div c \<le> a \<and> a \<le> (n - 1) div c \<longleftrightarrow> a * c < n \<and> o' < a * c + c"
proof -
  have "o' div c < Suc a \<longleftrightarrow> o' < Suc a * c" using assms by (rule_tac div_less_iff_less_mult)
  moreover have "a \<le> (n - 1) div c \<longleftrightarrow> a * c \<le> n - 1" using assms by (rule_tac less_eq_div_iff_mult_less_eq)
  ultimately show ?thesis using assms by (auto simp: less_Suc_eq_le add.commute)
qed

lemma write_idxs_iff:
  assumes "write_fits cs off dat"
  shows "idx \<in> set (write_idxs cs off dat) \<longleftrightarrow>
    unat idx * unat cs < unat off + length dat \<and> unat off < unat idx * unat cs + unat cs"
proof -
  have "0 < unat cs" "0 < unat off + length dat" using assms by (auto simp: write_fits_def cs_ok_def)
  from in_window_iff [OF this, of "unat off" "unat idx"] show ?thesis
    by (simp add: write_idxs_def set_range_incl word_le_nat_alt write_window [OF assms])
qed

text \<open>
  One chunk of the window against the old content. A chunk at or past the old end is not
  read; there the well-formed old content has no byte and no bill.
\<close>

lemma chunks_wfD:
  assumes "chunks_wf m cs ino sz" "chunk_at m ino idx = Some c"
  shows "length c \<le> unat cs" "unat idx * unat cs + length c \<le> unat sz"
  using assms by (auto simp: chunks_wf_def)

lemma old_chunk_agrees:
  assumes wf: "chunks_wf m cs ino sz" and cs: "cs_ok cs"
  shows "byte_of (old_chunk_of m cs ino sz idx) j = byte_of (chunk_at m ino idx) j"
    "chunk_billed cs sz idx (old_chunk_of m cs ino sz idx) = chunk_billed cs sz idx (chunk_at m ino idx)"
    "(case old_chunk_of m cs ino sz idx of None \<Rightarrow> 0 | Some c \<Rightarrow> length c) = (case chunk_at m ino idx of None \<Rightarrow> 0 | Some c \<Rightarrow> length c)"
proof -
  have "c = []" if "sz \<le> ucast idx * cs" "chunk_at m ino idx = Some c" for c
  proof -
    from that(1) have "unat sz \<le> unat idx * unat cs" by (simp add: word_le_nat_alt unat_chunk_start [OF cs])
    with chunks_wfD(2) [OF wf that(2)] have "length c = 0" by linarith
    then show ?thesis by simp
  qed
  then show "byte_of (old_chunk_of m cs ino sz idx) j = byte_of (chunk_at m ino idx) j"
    "chunk_billed cs sz idx (old_chunk_of m cs ino sz idx) = chunk_billed cs sz idx (chunk_at m ino idx)"
    "(case old_chunk_of m cs ino sz idx of None \<Rightarrow> 0 | Some c \<Rightarrow> length c) = (case chunk_at m ino idx of None \<Rightarrow> 0 | Some c \<Rightarrow> length c)"
    by (auto simp: old_chunk_of_def byte_of_def chunk_billed_def billed_chunk_bytes_def split: option.splits)
qed

definition new_chunk :: "kv \<Rightarrow> u64 \<Rightarrow> u64 \<Rightarrow> u64 \<Rightarrow> u64 \<Rightarrow> bytes \<Rightarrow> u32 \<Rightarrow> bytes \<times> i64" where
  "new_chunk m cs ino old_size off dat idx =
     write_chunk cs old_size off dat idx (old_chunk_of m cs ino old_size idx)"

lemma new_chunk_spec:
  assumes fits: "write_fits cs off dat" and wf: "chunks_wf m cs ino old_size"
    and idx: "idx \<in> set (write_idxs cs off dat)"
  defines "start \<equiv> unat idx * unat cs" and "new_size \<equiv> max old_size (off + of_nat (length dat))"
    and "buf \<equiv> fst (new_chunk m cs ino old_size off dat idx)"
  shows "length buf \<le> unat cs" "start + length buf \<le> unat new_size"
    "j < unat cs \<Longrightarrow> byte_of (Some buf) j =
      (if unat off \<le> start + j \<and> start + j < unat off + length dat then dat ! (start + j - unat off)
       else byte_of (chunk_at m ino idx) j)"
    "snd (new_chunk m cs ino old_size off dat idx) =
      chunk_billed cs new_size idx (Some buf) - chunk_billed cs old_size idx (chunk_at m ino idx)"
proof -
  have cs: "cs_ok cs" and ov: "unat off + length dat < 2 ^ 64" and ne: "dat \<noteq> []"
    using fits by (auto simp: write_fits_def)
  have old: "length c \<le> unat cs" if "old_chunk_of m cs ino old_size idx = Some c" for c
    using that chunks_wfD(1) [OF wf] by (auto simp: old_chunk_of_def split: if_splits)
  have hit: "unat idx * unat cs < unat off + length dat" "unat off < unat idx * unat cs + unat cs"
    using idx by (simp_all add: write_idxs_iff [OF fits])
  have res: "write_chunk cs old_size off dat idx (old_chunk_of m cs ino old_size idx)
      = (buf, snd (new_chunk m cs ino old_size off dat idx))"
    by (simp add: buf_def new_chunk_def)
  note spec = write_chunk_spec [OF cs ov old ne hit res]
  have new: "unat new_size = max (unat old_size) (unat off + length dat)"
    by (simp add: new_size_def unat_max write_window [OF fits])
  have len: "length buf = max (min (unat off + length dat) (start + unat cs) - start)
      (case chunk_at m ino idx of None \<Rightarrow> 0 | Some c \<Rightarrow> length c)"
    using spec(1) by (simp add: start_def old_chunk_agrees [OF wf cs])
  show "length buf \<le> unat cs"
    using len chunks_wfD(1) [OF wf, of idx] by (auto split: option.splits)
  show "start + length buf \<le> unat new_size"
    using len chunks_wfD(2) [OF wf, of idx] hit by (auto simp: new start_def split: option.splits)
  show "byte_of (Some buf) j =
      (if unat off \<le> start + j \<and> start + j < unat off + length dat then dat ! (start + j - unat off)
       else byte_of (chunk_at m ino idx) j)" if "j < unat cs"
    using spec(2) [OF _ that] by (simp add: start_def old_chunk_agrees [OF wf cs])
  show "snd (new_chunk m cs ino old_size off dat idx) =
      chunk_billed cs new_size idx (Some buf) - chunk_billed cs old_size idx (chunk_at m ino idx)"
    using spec(3) by (simp add: new_size_def old_chunk_agrees [OF wf cs])
qed

subsection \<open>The plan as a whole\<close>

lemma plan_write_puts:
  assumes "engine_ok E" "plan_write E cs ino old_size off dat s = (Inr plan, t)"
  shows "wpl_puts plan = map (\<lambda>idx. (idx, fst (new_chunk (st_contents E s) cs ino old_size off dat idx))) (write_idxs cs off dat)"
    "wpl_billed_delta plan = (\<Sum>idx \<in> set (write_idxs cs off dat). snd (new_chunk (st_contents E s) cs ino old_size off dat idx))"
    "wpl_new_size plan = max old_size (off + of_nat (length dat))"
  using plan_write_run [OF assms] distinct_range_incl
  by (simp_all add: new_chunk_def write_idxs_def sum_list_distinct_conv_sum_set)

lemma chunk_at_plan_write:
  assumes "engine_ok E" "plan_write E cs ino old_size off dat s = (Inr plan, t)"
  shows "chunk_at (put_chunks ino (wpl_puts plan) (st_contents E s)) ino idx =
    (if idx \<in> set (write_idxs cs off dat) then Some (fst (new_chunk (st_contents E s) cs ino old_size off dat idx))
     else chunk_at (st_contents E s) ino idx)"
  by (simp add: plan_write_puts [OF assms] put_chunks_map)

lemma plan_write_wf:
  assumes E: "engine_ok E" and fits: "write_fits cs off dat"
    and wf: "chunks_wf (st_contents E s) cs ino old_size"
    and run: "plan_write E cs ino old_size off dat s = (Inr plan, t)"
  shows "chunks_wf (put_chunks ino (wpl_puts plan) (st_contents E s)) cs ino (wpl_new_size plan)"
proof -
  have "unat old_size \<le> unat (wpl_new_size plan)" by (simp add: plan_write_puts [OF E run] unat_max)
  then show ?thesis
    unfolding chunks_wf_def
    using new_chunk_spec(1,2) [OF fits wf] chunks_wfD [OF wf]
    by (auto simp: chunk_at_plan_write [OF E run] plan_write_puts(3) [OF E run] split: if_splits)
       (meson le_trans)
qed

lemma byte_at_plan_write:
  assumes E: "engine_ok E" and fits: "write_fits cs off dat"
    and wf: "chunks_wf (st_contents E s) cs ino old_size"
    and run: "plan_write E cs ino old_size off dat s = (Inr plan, t)" and i: "i < unat cs * 2 ^ 32"
  shows "byte_at (put_chunks ino (wpl_puts plan) (st_contents E s)) cs ino i =
    (if unat off \<le> i \<and> i < unat off + length dat then dat ! (i - unat off)
     else byte_at (st_contents E s) cs ino i)"
proof -
  let ?idx = "of_nat (i div unat cs) :: u32"
  have c: "0 < unat cs" using fits by (simp add: write_fits_def cs_ok_def)
  have idx: "unat ?idx = i div unat cs" by (rule unat_of_nat_chunk [OF i])
  have split: "i div unat cs * unat cs + i mod unat cs = i" by simp
  show ?thesis
  proof (cases "?idx \<in> set (write_idxs cs off dat)")
    case True
    with new_chunk_spec(3) [OF fits wf True, of "i mod unat cs"] c show ?thesis
      by (simp add: byte_at_def chunk_at_plan_write [OF E run] idx split)
  next
    case False
    then have "\<not> (unat off \<le> i \<and> i < unat off + length dat)"
      unfolding write_idxs_iff [OF fits] idx using split mod_less_divisor [OF c, of i] by linarith
    with False show ?thesis by (auto simp: byte_at_def chunk_at_plan_write [OF E run])
  qed
qed

lemma plan_write_content:
  assumes E: "engine_ok E" and fits: "write_fits cs off dat"
    and wf: "chunks_wf (st_contents E s) cs ino old_size" and lim: "unat old_size \<le> unat cs * 2 ^ 32"
    and run: "plan_write E cs ino old_size off dat s = (Inr plan, t)"
  shows "file_bytes (put_chunks ino (wpl_puts plan) (st_contents E s)) cs ino (wpl_new_size plan) =
    overlay (pad_to (unat off + length dat) (file_bytes (st_contents E s) cs ino old_size)) (unat off) dat"
proof -
  have cs: "cs_ok cs" and lim': "unat off + length dat \<le> unat cs * 2 ^ 32" using fits by (auto simp: write_fits_def)
  have new: "unat (wpl_new_size plan) = max (unat old_size) (unat off + length dat)"
    by (simp add: plan_write_puts [OF E run] unat_max write_window [OF fits])
  let ?xs = "pad_to (unat off + length dat) (file_bytes (st_contents E s) cs ino old_size)"
  have len: "length ?xs = unat (wpl_new_size plan)" by (simp add: length_pad_to new max.commute)
  have fit: "unat off + length dat \<le> length ?xs" by (simp add: length_pad_to)
  show ?thesis
  proof (rule nth_equalityI)
    show "length (file_bytes (put_chunks ino (wpl_puts plan) (st_contents E s)) cs ino (wpl_new_size plan)) =
        length (overlay ?xs (unat off) dat)"
      by (simp add: length_overlay [OF fit] len)
  next
    fix i assume "i < length (file_bytes (put_chunks ino (wpl_puts plan) (st_contents E s)) cs ino (wpl_new_size plan))"
    then have i: "i < unat (wpl_new_size plan)" by simp
    then have il: "i < unat cs * 2 ^ 32" using new lim lim' by auto
    have "i < length ?xs" using i len by simp
    then show "file_bytes (put_chunks ino (wpl_puts plan) (st_contents E s)) cs ino (wpl_new_size plan) ! i =
        overlay ?xs (unat off) dat ! i"
      using i chunks_wf_byte_beyond [OF wf cs _ il]
      by (auto simp: nth_file_bytes byte_at_plan_write [OF E fits wf run il] nth_overlay [OF _ fit]
          nth_pad_to length_pad_to)
  qed
qed

lemma chunk_billed_grow:
  assumes wf: "chunks_wf m cs ino sz" and cs: "cs_ok cs" and le: "unat sz \<le> unat sz'"
  shows "chunk_billed cs sz' idx (chunk_at m ino idx) = chunk_billed cs sz idx (chunk_at m ino idx)"
proof (cases "chunk_at m ino idx")
  case (Some c)
  have "length c < 2 ^ 64" "unat idx * unat cs + length c \<le> unat sz"
    using chunks_wfD [OF wf Some] cs by (auto simp: cs_ok_def)
  with Some le show ?thesis
    by (simp add: chunk_billed_def word_unat_eq_iff unat_billed_chunk_bytes unat_chunk_start [OF cs])
qed (simp add: chunk_billed_def)

lemma plan_write_billed:
  assumes E: "engine_ok E" and fits: "write_fits cs off dat"
    and wf: "chunks_wf (st_contents E s) cs ino old_size"
    and run: "plan_write E cs ino old_size off dat s = (Inr plan, t)"
  shows "wpl_billed_delta plan =
    file_billed (put_chunks ino (wpl_puts plan) (st_contents E s)) cs ino (wpl_new_size plan) -
    file_billed (st_contents E s) cs ino old_size"
proof -
  let ?m = "st_contents E s" let ?m' = "put_chunks ino (wpl_puts plan) ?m"
  let ?W = "set (write_idxs cs off dat)" let ?n = "wpl_new_size plan"
  let ?d = "\<lambda>idx. chunk_billed cs ?n idx (chunk_at ?m' ino idx) - chunk_billed cs old_size idx (chunk_at ?m ino idx)"
  have cs: "cs_ok cs" using fits by (simp add: write_fits_def)
  have le: "unat old_size \<le> unat ?n" by (simp add: plan_write_puts [OF E run] unat_max)
  have out: "?d idx = 0" if "idx \<notin> ?W" for idx
    using that by (simp add: chunk_at_plan_write [OF E run] chunk_billed_grow [OF wf cs le])
  have "wpl_billed_delta plan = (\<Sum>idx \<in> ?W. ?d idx)"
    unfolding plan_write_puts(2) [OF E run]
    using new_chunk_spec(4) [OF fits wf]
    by (intro sum.cong refl) (simp add: chunk_at_plan_write [OF E run] plan_write_puts(3) [OF E run])
  also have "\<dots> = (\<Sum>idx \<in> UNIV. ?d idx)"
    using out by (intro sum.mono_neutral_left) auto
  finally show ?thesis by (simp add: file_billed_def sum_subtractf)
qed

end
