(* ===== verification/Data_Truncate.thy ===== *)
theory Data_Truncate
  imports Data_Plans
begin

text \<open>
  What a truncate plan of \<^verbatim>\<open>data.rs\<close> does when it is applied: every chunk past the new
  end is gone, the one that straddles it is cut there, and the billed delta is the
  change of the file's bill. The scan it is made from is that of a database that
  holds no keys but those of the schema.
\<close>

definition schema_keys :: "kv \<Rightarrow> bool" where
  "schema_keys m = (dom m \<subseteq> range key_bytes)"

lemma schema_keysD: "schema_keys m \<Longrightarrow> m k = Some v \<Longrightarrow> \<exists>k'. k = key_bytes k'"
  unfolding schema_keys_def by blast

section \<open>The scan\<close>

lemma sorted_wrt_less_distinct: "sorted_wrt (<) (xs::'a::linorder list) \<Longrightarrow> distinct xs"
  by (simp add: strict_sorted_iff)

text \<open>A scan of an inode's chunks from a given one on, as chunk indices and values.\<close>

lemma chunk_scan:
  assumes sc: "scan_of m (key_bytes (KChunk ino first)) (chunk_prefix (ino + 1)) kvs"
    and ino: "ino \<noteq> - 1" and sk: "schema_keys m"
  obtains ics where "kvs = map (\<lambda>(i, c). (key_bytes (KChunk ino i), c)) ics" "distinct (map fst ics)"
    "\<And>i c. (i, c) \<in> set ics \<longleftrightarrow> first \<le> i \<and> chunk_at m ino i = Some c"
proof
  define ics where "ics = map (\<lambda>(k, c). (snd (the (parse_chunk k)), c)) kvs"
  have key: "\<exists>i \<ge> first. k = key_bytes (KChunk ino i) \<and> m k = Some c" if "(k, c) \<in> set kvs" for k c
  proof -
    from that sc have m: "m k = Some c" "key_bytes (KChunk ino first) \<le> k" "k < chunk_prefix (ino + 1)"
      by (auto simp: scan_of_def)
    obtain k' where k': "k = key_bytes k'" using schema_keysD [OF sk m(1)] by blast
    with m in_chunk_scan_iff [OF ino, of first k'] show ?thesis by auto
  qed
  then have inv: "(\<lambda>(i, c). (key_bytes (KChunk ino i), c)) ((\<lambda>(k, c). (snd (the (parse_chunk k)), c)) kc) = kc"
    if "kc \<in> set kvs" for kc
    using that by (cases kc) fastforce
  show kvs: "kvs = map (\<lambda>(i, c). (key_bytes (KChunk ino i), c)) ics"
    unfolding ics_def map_map using inv by (intro map_idI [symmetric]) simp
  have "distinct (map fst kvs)" using sc by (simp add: scan_of_def sorted_wrt_less_distinct)
  then have "distinct (map (\<lambda>i. key_bytes (KChunk ino i)) (map fst ics))"
    unfolding kvs by (simp add: comp_def case_prod_beta)
  then show "distinct (map fst ics)" unfolding distinct_map by blast
  show "(i, c) \<in> set ics \<longleftrightarrow> first \<le> i \<and> chunk_at m ino i = Some c" for i c
  proof
    assume "(i, c) \<in> set ics"
    then have "(key_bytes (KChunk ino i), c) \<in> set kvs" unfolding kvs by force
    from key [OF this] show "first \<le> i \<and> chunk_at m ino i = Some c" by auto
  next
    assume a: "first \<le> i \<and> chunk_at m ino i = Some c"
    then have "key_bytes (KChunk ino first) \<le> key_bytes (KChunk ino i) \<and> key_bytes (KChunk ino i) < chunk_prefix (ino + 1)"
      using in_chunk_scan_iff [OF ino, of first "KChunk ino i"] by auto
    with a sc have "(key_bytes (KChunk ino i), c) \<in> set kvs" by (auto simp: scan_of_def)
    then show "(i, c) \<in> set ics" unfolding ics_def by force
  qed
qed

lemma truncate_scan_run:
  "truncate_scan E cs old_size new_size (map (\<lambda>(i, c). (key_bytes (KChunk ino i), c)) ics) plan s = (Inr plan', t) \<Longrightarrow>
   plan' = fold (\<lambda>(i, c). truncate_chunk cs old_size new_size i c) ics plan \<and> st_db t = st_db s"
proof (induction ics arbitrary: plan s)
  case Nil
  then show ?case by (simp add: run_simps)
next
  case (Cons ic ics)
  then show ?case by (cases ic) (auto simp: run_simps)
qed

text \<open>What the loop has collected after a list of chunks.\<close>

definition cut_chunk :: "u64 \<Rightarrow> u64 \<Rightarrow> u32 \<Rightarrow> bytes \<Rightarrow> bytes option" where
  "cut_chunk cs new_size i c =
     (if new_size \<le> ucast i * cs then None else Some (take (unat (new_size - ucast i * cs)) c))"

definition is_cut :: "u64 \<Rightarrow> u64 \<Rightarrow> u32 \<times> bytes \<Rightarrow> bool" where
  "is_cut cs new_size ic = (case ic of (i, c) \<Rightarrow>
     \<not> new_size \<le> ucast i * cs \<and> unat (new_size - ucast i * cs) < length c)"

definition cut_delta :: "u64 \<Rightarrow> u64 \<Rightarrow> u64 \<Rightarrow> u32 \<Rightarrow> bytes \<Rightarrow> i64" where
  "cut_delta cs old_size new_size i c =
     (case cut_chunk cs new_size i c of None \<Rightarrow> 0 | Some c' \<Rightarrow> of_nat (length c')) -
     billed_chunk_bytes old_size (ucast i * cs) (length c)"

lemma truncate_chunk_eq:
  "truncate_chunk cs old_size new_size i c plan =
   \<lparr>tp_tail_put = (if is_cut cs new_size (i, c) then Some (i, take (unat (new_size - ucast i * cs)) c) else tp_tail_put plan),
    tp_deletes = tp_deletes plan @ (if new_size \<le> ucast i * cs then [i] else []),
    tp_billed_delta = tp_billed_delta plan + cut_delta cs old_size new_size i c\<rparr>"
  by (simp add: truncate_chunk_def cut_delta_def cut_chunk_def is_cut_def Let_def)

lemma fold_truncate_chunk:
  "fold (\<lambda>(i, c). truncate_chunk cs old_size new_size i c) ics plan =
   \<lparr>tp_tail_put = (case filter (is_cut cs new_size) ics of [] \<Rightarrow> tp_tail_put plan
       | _ \<Rightarrow> Some (case last (filter (is_cut cs new_size) ics) of (i, c) \<Rightarrow> (i, take (unat (new_size - ucast i * cs)) c))),
    tp_deletes = tp_deletes plan @ map fst (filter (\<lambda>(i, c). new_size \<le> ucast i * cs) ics),
    tp_billed_delta = tp_billed_delta plan + sum_list (map (\<lambda>(i, c). cut_delta cs old_size new_size i c) ics)\<rparr>"
proof (induction ics arbitrary: plan)
  case Nil
  then show ?case by simp
next
  case (Cons ic ics)
  obtain i c where ic: "ic = (i, c)" by (cases ic)
  show ?case
    by (simp add: ic Cons.IH truncate_chunk_eq [of _ _ _ i c] split: list.split)
qed

section \<open>The plan\<close>

definition put_tail :: "u64 \<Rightarrow> (u32 \<times> bytes) option \<Rightarrow> kv \<Rightarrow> kv" where
  "put_tail ino tail m = (case tail of None \<Rightarrow> m | Some (i, b) \<Rightarrow> m(key_bytes (KChunk ino i) \<mapsto> b))"

definition drop_chunks :: "u64 \<Rightarrow> u32 list \<Rightarrow> kv \<Rightarrow> kv" where
  "drop_chunks ino is m = (\<lambda>k. if k \<in> (\<lambda>i. key_bytes (KChunk ino i)) ` set is then None else m k)"

lemma chunk_at_put_tail:
  "chunk_at (put_tail ino tail m) ino i = (case tail of Some (j, b) \<Rightarrow> if i = j then Some b else chunk_at m ino i
     | None \<Rightarrow> chunk_at m ino i)"
  by (auto simp: put_tail_def split: option.splits)

lemma chunk_at_drop_chunks: "chunk_at (drop_chunks ino is m) ino i = (if i \<in> set is then None else chunk_at m ino i)"
  by (auto simp: drop_chunks_def)

lemma plan_truncate_run:
  assumes E: "engine_ok E" and ino: "ino \<noteq> - 1" and sk: "schema_keys (st_contents E s)"
    and lt: "\<not> old_size \<le> new_size"
    and run: "plan_truncate E cs ino old_size new_size s = (Inr plan, t)"
  obtains ics where "distinct (map fst ics)"
    "\<And>i c. (i, c) \<in> set ics \<longleftrightarrow> chunk_of new_size cs \<le> i \<and> chunk_at (st_contents E s) ino i = Some c"
    "plan = fold (\<lambda>(i, c). truncate_chunk cs old_size new_size i c) ics
       \<lparr>tp_tail_put = None, tp_deletes = [], tp_billed_delta = 0\<rparr>"
    "st_db t = st_db s"
proof -
  from run lt obtain kvs where
    sc: "scan_of (st_contents E s) (key_bytes (KChunk ino (chunk_of new_size cs))) (chunk_prefix (ino + 1)) kvs"
    and tr: "truncate_scan E cs old_size new_size kvs \<lparr>tp_tail_put = None, tp_deletes = [], tp_billed_delta = 0\<rparr>
        (tick s) = (Inr plan, t)"
    by (auto simp: plan_truncate_def run_simps Let_def dest!: sym [of "Inr _"] engine_scanD [OF E])
  from chunk_scan [OF sc ino sk] obtain ics where
    ics: "kvs = map (\<lambda>(i, c). (key_bytes (KChunk ino i), c)) ics" "distinct (map fst ics)"
      "\<And>i c. (i, c) \<in> set ics \<longleftrightarrow> chunk_of new_size cs \<le> i \<and> chunk_at (st_contents E s) ino i = Some c"
    by blast
  from truncate_scan_run [OF tr [unfolded ics(1)]] that [OF ics(2,3)] show ?thesis by simp
qed

text \<open>Only the chunk that contains the new end can be cut.\<close>

lemma is_cut_index:
  assumes cs: "cs_ok cs" and lim: "unat new_size < unat cs * 2 ^ 32" and ge: "chunk_of new_size cs \<le> i"
    and lt: "\<not> new_size \<le> ucast i * cs"
  shows "i = chunk_of new_size cs"
proof -
  have "unat new_size div unat cs \<le> unat i"
    using ge by (simp add: word_le_nat_alt unat_chunk_of [OF cs lim])
  moreover have "unat i * unat cs < unat new_size"
    using lt by (simp add: word_le_nat_alt unat_chunk_start [OF cs])
  then have "unat i \<le> unat new_size div unat cs"
    using cs by (simp add: less_eq_div_iff_mult_less_eq cs_ok_def)
  ultimately show ?thesis by (simp add: word_unat_eq_iff unat_chunk_of [OF cs lim])
qed

lemma filter_le_one:
  assumes "distinct (map fst xs)" "\<And>x. x \<in> set xs \<Longrightarrow> P x \<Longrightarrow> fst x = a"
  shows "filter P xs = [] \<or> (\<exists>x \<in> set xs. P x \<and> filter P xs = [x])"
proof -
  have d: "distinct (map fst (filter P xs))" using assms(1) by (rule distinct_map_filter)
  have all: "fst x = a" if "x \<in> set (filter P xs)" for x using that assms(2) by auto
  show ?thesis
  proof (cases "filter P xs")
    case (Cons x ys)
    have "ys = []"
    proof (cases ys)
      case (Cons y zs)
      with d all \<open>filter P xs = x # ys\<close> show ?thesis by auto
    qed simp
    moreover have "x \<in> set (filter P xs)" unfolding Cons by simp
    then have "x \<in> set xs" "P x" by auto
    ultimately show ?thesis using Cons by auto
  qed simp
qed

text \<open>The chunks after the plan, each cut at the new end.\<close>

definition cut_file :: "u64 \<Rightarrow> truncate_plan \<Rightarrow> kv \<Rightarrow> kv" where
  "cut_file ino plan m = drop_chunks ino (tp_deletes plan) (put_tail ino (tp_tail_put plan) m)"

definition cut_at :: "u64 \<Rightarrow> u64 \<Rightarrow> u32 \<Rightarrow> bytes option \<Rightarrow> bytes option" where
  "cut_at cs new_size i c = (case c of None \<Rightarrow> None | Some c \<Rightarrow> cut_chunk cs new_size i c)"

lemma cut_at_below:
  assumes cs: "cs_ok cs" and c: "length c \<le> unat cs" and lim: "unat new_size < unat cs * 2 ^ 32"
    and lt: "\<not> chunk_of new_size cs \<le> i"
  shows "cut_chunk cs new_size i c = Some c"
proof -
  have "unat i < unat new_size div unat cs" using lt by (simp add: word_le_nat_alt unat_chunk_of [OF cs lim])
  then have "Suc (unat i) \<le> unat new_size div unat cs" by simp
  then have "Suc (unat i) * unat cs \<le> unat new_size"
    using cs by (simp only: less_eq_div_iff_mult_less_eq cs_ok_def)
  then have le: "unat i * unat cs + unat cs \<le> unat new_size" by (simp add: add.commute)
  have "0 < unat cs" using cs by (simp add: cs_ok_def)
  with le have "\<not> new_size \<le> ucast i * cs" by (simp add: word_le_nat_alt unat_chunk_start [OF cs])
  moreover have "length c \<le> unat (new_size - ucast i * cs)"
    using le c by (subst unat_diff_le) (simp_all add: unat_chunk_start [OF cs])
  ultimately show ?thesis by (simp add: cut_chunk_def)
qed

lemma chunk_at_cut_file:
  assumes E: "engine_ok E" and cs: "cs_ok cs" and ino: "ino \<noteq> - 1" and sk: "schema_keys (st_contents E s)"
    and wf: "\<And>i c. chunk_at (st_contents E s) ino i = Some c \<Longrightarrow> length c \<le> unat cs"
    and lt: "\<not> old_size \<le> new_size" and lim: "unat new_size < unat cs * 2 ^ 32"
    and run: "plan_truncate E cs ino old_size new_size s = (Inr plan, t)"
  shows "chunk_at (cut_file ino plan (st_contents E s)) ino i = cut_at cs new_size i (chunk_at (st_contents E s) ino i)"
proof -
  let ?m = "st_contents E s"
  from plan_truncate_run [OF E ino sk lt run] obtain ics where d: "distinct (map fst ics)"
    and ics: "\<And>i c. (i, c) \<in> set ics \<longleftrightarrow> chunk_of new_size cs \<le> i \<and> chunk_at ?m ino i = Some c"
    and plan: "plan = fold (\<lambda>(i, c). truncate_chunk cs old_size new_size i c) ics
       \<lparr>tp_tail_put = None, tp_deletes = [], tp_billed_delta = 0\<rparr>" by blast
  have one: "fst ic = chunk_of new_size cs" if "ic \<in> set ics" "is_cut cs new_size ic" for ic
    using that is_cut_index [OF cs lim, of "fst ic"] ics [of "fst ic" "snd ic"]
    by (simp add: is_cut_def case_prod_beta)
  have del: "i \<in> set (tp_deletes plan) \<longleftrightarrow> (\<exists>c. (i, c) \<in> set ics \<and> new_size \<le> ucast i * cs)" for i
    by (force simp: plan fold_truncate_chunk)
  have le1: "filter (is_cut cs new_size) ics = [] \<or>
      (\<exists>ic \<in> set ics. is_cut cs new_size ic \<and> filter (is_cut cs new_size) ics = [ic])"
    by (rule filter_le_one [OF d]) (rule one)
  have tail: "tp_tail_put plan = (case filter (is_cut cs new_size) ics of [] \<Rightarrow> None
      | (i, c) # _ \<Rightarrow> Some (i, take (unat (new_size - ucast i * cs)) c))"
    using le1 by (auto simp: plan fold_truncate_chunk split: list.splits)
  show ?thesis
  proof (cases "chunk_at ?m ino i")
    case None
    have "tp_tail_put plan \<noteq> Some (i, b)" for b
      using le1 None ics by (auto simp: tail split: list.splits)
    moreover have "i \<notin> set (tp_deletes plan)" using None ics del by auto
    ultimately show ?thesis
      using None by (auto simp: cut_file_def chunk_at_drop_chunks chunk_at_put_tail cut_at_def split: option.splits)
  next
    case (Some c)
    show ?thesis
    proof (cases "chunk_of new_size cs \<le> i")
      case True
      with Some ics have mem: "(i, c) \<in> set ics" by simp
      show ?thesis
      proof (cases "is_cut cs new_size (i, c)")
        case cut: True
        with mem have "(i, c) \<in> set (filter (is_cut cs new_size) ics)" by simp
        with le1 have "filter (is_cut cs new_size) ics = [(i, c)]"
          by (elim disjE bexE conjE) (simp_all del: set_filter)
        with cut del [of i] Some show ?thesis
          by (simp add: tail cut_file_def chunk_at_drop_chunks chunk_at_put_tail cut_at_def cut_chunk_def is_cut_def)
      next
        case uncut: False
        have "tp_tail_put plan \<noteq> Some (i, b)" for b
          using le1 uncut ics mem by (auto simp: tail split: list.splits)
        then have "chunk_at (cut_file ino plan ?m) ino i = (if new_size \<le> ucast i * cs then None else Some c)"
          using Some del [of i] mem
          by (auto simp: cut_file_def chunk_at_drop_chunks chunk_at_put_tail split: option.splits)
        with uncut Some show ?thesis by (auto simp: cut_at_def cut_chunk_def is_cut_def)
      qed
    next
      case False
      then have "i \<notin> set (tp_deletes plan)" using ics del by auto
      moreover have "tp_tail_put plan \<noteq> Some (i, b)" for b
        using le1 False ics by (auto simp: tail split: list.splits)
      ultimately show ?thesis
        using Some cut_at_below [OF cs wf [OF Some] lim False]
        by (auto simp: cut_file_def chunk_at_drop_chunks chunk_at_put_tail cut_at_def split: option.splits)
    qed
  qed
qed

section \<open>Content and bill after a truncate\<close>

lemma cut_chunk_Some:
  assumes "cs_ok cs" "cut_chunk cs new_size i c = Some c'"
  shows "unat i * unat cs < unat new_size" "c' = take (unat new_size - unat i * unat cs) c"
  using assms by (auto simp: cut_chunk_def word_le_nat_alt unat_chunk_start unat_diff_le split: if_splits)

lemma truncate_wf:
  assumes E: "engine_ok E" and cs: "cs_ok cs" and ino: "ino \<noteq> - 1" and sk: "schema_keys (st_contents E s)"
    and wf: "chunks_wf (st_contents E s) cs ino old_size"
    and lt: "\<not> old_size \<le> new_size" and lim: "unat new_size < unat cs * 2 ^ 32"
    and run: "plan_truncate E cs ino old_size new_size s = (Inr plan, t)"
  shows "chunks_wf (cut_file ino plan (st_contents E s)) cs ino new_size"
proof -
  note at = chunk_at_cut_file [OF E cs ino sk chunks_wfD(1) [OF wf] lt lim run]
  have "length c' \<le> unat cs \<and> unat i * unat cs + length c' \<le> unat new_size"
    if "cut_at cs new_size i (chunk_at (st_contents E s) ino i) = Some c'" for i c'
  proof -
    from that obtain c where c: "chunk_at (st_contents E s) ino i = Some c" "cut_chunk cs new_size i c = Some c'"
      by (auto simp: cut_at_def split: option.splits)
    from cut_chunk_Some [OF cs c(2)] chunks_wfD(1) [OF wf c(1)] show ?thesis by auto
  qed
  then show ?thesis by (auto simp: chunks_wf_def at)
qed

lemma truncate_content:
  assumes E: "engine_ok E" and cs: "cs_ok cs" and ino: "ino \<noteq> - 1" and sk: "schema_keys (st_contents E s)"
    and wf: "\<And>i c. chunk_at (st_contents E s) ino i = Some c \<Longrightarrow> length c \<le> unat cs"
    and lt: "\<not> old_size \<le> new_size" and lim: "unat new_size < unat cs * 2 ^ 32"
    and run: "plan_truncate E cs ino old_size new_size s = (Inr plan, t)"
  shows "file_bytes (cut_file ino plan (st_contents E s)) cs ino new_size =
    take (unat new_size) (file_bytes (st_contents E s) cs ino old_size)"
proof (rule nth_equalityI)
  let ?m = "st_contents E s"
  have le: "unat new_size < unat old_size" using lt by (simp add: word_le_nat_alt)
  then show "length (file_bytes (cut_file ino plan ?m) cs ino new_size) =
      length (take (unat new_size) (file_bytes ?m cs ino old_size))" by simp
  fix j assume "j < length (file_bytes (cut_file ino plan ?m) cs ino new_size)"
  then have j: "j < unat new_size" by simp
  let ?i = "of_nat (j div unat cs) :: u32"
  have i: "unat ?i * unat cs + j mod unat cs = j"
    using unat_of_nat_chunk [of j cs] j lim by simp
  have "byte_of (cut_at cs new_size ?i c) (j mod unat cs) = byte_of c (j mod unat cs)" for c
  proof (cases c)
    case (Some b)
    have "cut_chunk cs new_size ?i b = Some (take (unat new_size - unat ?i * unat cs) b)"
      using i j by (simp add: cut_chunk_def word_le_nat_alt unat_chunk_start [OF cs] unat_diff_le)
    moreover have "j mod unat cs < unat new_size - unat ?i * unat cs" using i j by linarith
    ultimately show ?thesis using Some by (simp add: cut_at_def byte_of_def)
  qed (simp add: cut_at_def)
  then show "file_bytes (cut_file ino plan ?m) cs ino new_size ! j = take (unat new_size) (file_bytes ?m cs ino old_size) ! j"
    using j le by (simp add: nth_file_bytes byte_at_def chunk_at_cut_file [OF E cs ino sk wf lt lim run])
qed

lemma cut_delta_billed:
  assumes cs: "cs_ok cs" and c: "length c \<le> unat cs"
  shows "cut_delta cs old_size new_size i c =
    chunk_billed cs new_size i (cut_at cs new_size i (Some c)) - chunk_billed cs old_size i (Some c)"
proof (cases "cut_chunk cs new_size i c")
  case (Some c')
  note cut = cut_chunk_Some [OF cs Some]
  have "length c' \<le> length c" using cut by simp
  with c cs have "length c' < 2 ^ 64" by (simp add: cs_ok_def)
  then have "billed_chunk_bytes new_size (ucast i * cs) (length c') = of_nat (length c')"
    using cut by (simp add: word_unat_eq_iff unat_billed_chunk_bytes unat_chunk_start [OF cs] unat_of_nat_lt)
  with Some show ?thesis by (simp add: cut_delta_def chunk_billed_def cut_at_def)
qed (simp add: cut_delta_def chunk_billed_def cut_at_def)

lemma chunk_billed_cut_same:
  assumes cs: "cs_ok cs" and c: "length c \<le> unat cs" and lim: "unat new_size < unat cs * 2 ^ 32"
    and lt: "\<not> chunk_of new_size cs \<le> i" and le: "unat new_size \<le> unat old_size"
  shows "chunk_billed cs new_size i (cut_at cs new_size i (Some c)) = chunk_billed cs old_size i (Some c)"
proof -
  have cut: "cut_chunk cs new_size i c = Some c" by (rule cut_at_below [OF cs c lim lt])
  from cut_chunk_Some [OF cs cut] have "length c \<le> unat new_size - unat i * unat cs" by (metis nat_le_linear take_all_iff)
  moreover have "length c < 2 ^ 64" using c cs by (simp add: cs_ok_def)
  ultimately show ?thesis
    using cut le by (simp add: cut_at_def chunk_billed_def word_unat_eq_iff unat_billed_chunk_bytes unat_chunk_start [OF cs])
qed

lemma truncate_billed:
  assumes E: "engine_ok E" and cs: "cs_ok cs" and ino: "ino \<noteq> - 1" and sk: "schema_keys (st_contents E s)"
    and wf: "\<And>i c. chunk_at (st_contents E s) ino i = Some c \<Longrightarrow> length c \<le> unat cs"
    and lt: "\<not> old_size \<le> new_size" and lim: "unat new_size < unat cs * 2 ^ 32"
    and run: "plan_truncate E cs ino old_size new_size s = (Inr plan, t)"
  shows "tp_billed_delta plan =
    file_billed (cut_file ino plan (st_contents E s)) cs ino new_size - file_billed (st_contents E s) cs ino old_size"
proof -
  let ?m = "st_contents E s"
  let ?d = "\<lambda>i. chunk_billed cs new_size i (cut_at cs new_size i (chunk_at ?m ino i)) - chunk_billed cs old_size i (chunk_at ?m ino i)"
  from plan_truncate_run [OF E ino sk lt run] obtain ics where d: "distinct (map fst ics)"
    and ics: "\<And>i c. (i, c) \<in> set ics \<longleftrightarrow> chunk_of new_size cs \<le> i \<and> chunk_at ?m ino i = Some c"
    and plan: "plan = fold (\<lambda>(i, c). truncate_chunk cs old_size new_size i c) ics
       \<lparr>tp_tail_put = None, tp_deletes = [], tp_billed_delta = 0\<rparr>" by blast
  have "tp_billed_delta plan = sum_list (map (\<lambda>(i, c). cut_delta cs old_size new_size i c) ics)"
    by (simp add: plan fold_truncate_chunk)
  also have "map (\<lambda>(i, c). cut_delta cs old_size new_size i c) ics = map ?d (map fst ics)"
    using ics wf by (auto simp: cut_delta_billed [OF cs])
  also have "sum_list \<dots> = (\<Sum>i \<in> set (map fst ics). ?d i)"
    using d by (rule sum_list_distinct_conv_sum_set)
  also have "\<dots> = (\<Sum>i \<in> UNIV. ?d i)"
  proof (rule sum.mono_neutral_left)
    show "\<forall>i \<in> UNIV - set (map fst ics). ?d i = 0"
    proof
      fix i assume "i \<in> UNIV - set (map fst ics)"
      then have "(i, c) \<notin> set ics" for c by (metis DiffE fst_conv image_eqI set_map)
      then have out: "chunk_at ?m ino i = None \<or> \<not> chunk_of new_size cs \<le> i"
        unfolding ics by (cases "chunk_at ?m ino i") auto
      have le: "unat new_size \<le> unat old_size" using lt by (simp add: word_le_nat_alt)
      show "?d i = 0"
      proof (cases "chunk_at ?m ino i")
        case None
        then show ?thesis by (simp add: cut_at_def chunk_billed_def)
      next
        case (Some c)
        with out have "\<not> chunk_of new_size cs \<le> i" by simp
        from chunk_billed_cut_same [OF cs wf [OF Some] lim this le] Some show ?thesis by simp
      qed
    qed
  qed auto
  finally show ?thesis
    by (simp add: file_billed_def sum_subtractf chunk_at_cut_file [OF E cs ino sk wf lt lim run])
qed

text \<open>Growing is metadata only: the new part reads as zeros.\<close>

lemma grow_content:
  assumes wf: "chunks_wf m cs ino old_size" and cs: "cs_ok cs" and le: "unat old_size \<le> unat new_size"
    and lim: "unat new_size \<le> unat cs * 2 ^ 32"
  shows "file_bytes m cs ino new_size = pad_to (unat new_size) (file_bytes m cs ino old_size)"
proof (rule nth_equalityI)
  show "length (file_bytes m cs ino new_size) = length (pad_to (unat new_size) (file_bytes m cs ino old_size))"
    using le by (simp add: length_pad_to)
  fix j assume "j < length (file_bytes m cs ino new_size)"
  then show "file_bytes m cs ino new_size ! j = pad_to (unat new_size) (file_bytes m cs ino old_size) ! j"
    using chunks_wf_byte_beyond [OF wf cs, of j] lim by (simp add: nth_pad_to nth_file_bytes)
qed

lemma grow_wf: "chunks_wf m cs ino old_size \<Longrightarrow> unat old_size \<le> unat new_size \<Longrightarrow> chunks_wf m cs ino new_size"
  unfolding chunks_wf_def by (meson le_trans)

lemma grow_billed:
  assumes "chunks_wf m cs ino old_size" "cs_ok cs" "unat old_size \<le> unat new_size"
  shows "file_billed m cs ino new_size = file_billed m cs ino old_size"
  unfolding file_billed_def using chunk_billed_grow [OF assms] by simp

section \<open>Interrupted truncates\<close>

text \<open>
  The deletes of a long truncate follow the batch that shrinks the inode. If they
  never happen, the chunks left past the end bill nothing, but growing the file
  again brings their bytes back.
\<close>

theorem stale_chunk_resurfaces:
  "\<exists>m. file_billed m 4 7 1 = file_billed (m(key_bytes (KChunk 7 1) := None)) 4 7 1 \<and>
       file_bytes m 4 7 1 = [1] \<and> file_bytes m 4 7 6 = [1, 0, 0, 0, 9, 9]"
proof -
  let ?m = "[key_bytes (KChunk 7 0) \<mapsto> [1], key_bytes (KChunk 7 1) \<mapsto> [9, 9]] :: kv"
  have "chunk_billed 4 1 idx (chunk_at ?m 7 idx) = chunk_billed 4 1 idx (chunk_at (?m(key_bytes (KChunk 7 1) := None)) 7 idx)" for idx
    by (cases "idx = 1") (simp_all add: chunk_billed_def billed_chunk_bytes_def saturating_sub_def)
  then have "file_billed ?m 4 7 1 = file_billed (?m(key_bytes (KChunk 7 1) := None)) 4 7 1"
    unfolding file_billed_def by (intro sum.cong refl)
  moreover have "[0 ..< 6] = [0, 1, 2, 3, 4, 5::nat]" by (simp add: upt_rec)
  then have "file_bytes ?m 4 7 6 = [1, 0, 0, 0, 9, 9]"
    by (simp add: file_bytes_def byte_at_def byte_of_def)
  moreover have "file_bytes ?m 4 7 1 = [1]"
    by (simp add: file_bytes_def byte_at_def byte_of_def)
  ultimately show ?thesis by blast
qed

end
