(* ===== verification/Health.thy ===== *)
theory Health
  imports Records
begin

text \<open>
  The health of a mounted volume, \<^verbatim>\<open>crates/slatefs-core/src/health.rs\<close>: dead after the
  writer was fenced, degraded after any other storage error. Log lines and the
  notification of waiters are left out; the flags and counters are what the rest of
  the program reads. Shown here: death is permanent and counted once, and a dead volume
  answers every mapped call with \<open>EIO\<close>.
\<close>

record health =
  h_fsid :: "u64 option"
  h_dead :: bool
  h_fencing_events :: u64
  h_degraded :: bool
  h_storage_errors :: u64

definition health_new :: "u64 option \<Rightarrow> health" where
  "health_new fsid = \<lparr>h_fsid = fsid, h_dead = False, h_fencing_events = 0, h_degraded = False, h_storage_errors = 0\<rparr>"

definition health_ensure_live :: "health \<Rightarrow> fs_error + unit" where
  "health_ensure_live h = (if h_dead h then Inl Io else Inr ())"

definition mark_fenced :: "health \<Rightarrow> health" where
  "mark_fenced h =
     (if h_dead h then h else h\<lparr>h_dead := True, h_fencing_events := h_fencing_events h + 1\<rparr>)"

definition mark_degraded :: "health \<Rightarrow> health" where
  "mark_degraded h = h\<lparr>h_storage_errors := h_storage_errors h + 1, h_degraded := True\<rparr>"

definition note_storage_error :: "slatedb_error \<Rightarrow> health \<Rightarrow> health" where
  "note_storage_error e h = (if is_fenced_slatedb_error e then mark_fenced h else mark_degraded h)"

fun note_core_error :: "core_error \<Rightarrow> health \<Rightarrow> health" where
  "note_core_error (E_SlateDb e) h = note_storage_error e h"
| "note_core_error E_ObjectStore h = mark_degraded h"
| "note_core_error E_Crypto h = mark_degraded h"
| "note_core_error E_Codec h = mark_degraded h"
| "note_core_error E_Io h = mark_degraded h"
| "note_core_error (E_NotFound k) h = h"
| "note_core_error (E_AlreadyExists k) h = h"
| "note_core_error (E_Invalid k) h = h"
| "note_core_error E_Config h = h"
| "note_core_error E_Versioning h = h"

definition health_map_storage :: "slatedb_error + 'a \<Rightarrow> (health, fs_error, 'a) act" where
  "health_map_storage r h =
     (if h_dead h then (Inl Io, h)
      else case r of
             Inr x \<Rightarrow> (case health_ensure_live h of Inl e \<Rightarrow> (Inl e, h) | Inr _ \<Rightarrow> (Inr x, h))
           | Inl e \<Rightarrow> (Inl (fs_error_of_slatedb e), note_storage_error e h))"

definition health_map_core :: "core_error + 'a \<Rightarrow> (health, fs_error, 'a) act" where
  "health_map_core r h =
     (if h_dead h then (Inl Io, h)
      else case r of
             Inr x \<Rightarrow> (case health_ensure_live h of Inl e \<Rightarrow> (Inl e, h) | Inr _ \<Rightarrow> (Inr x, h))
           | Inl e \<Rightarrow> (Inl (fs_error_of_core e), note_core_error e h))"

section \<open>Monotonicity\<close>

text \<open>What an event may do to the flags: they only ever go up, and dying is counted once.\<close>

definition health_le :: "health \<Rightarrow> health \<Rightarrow> bool" where
  "health_le h h' = ((h_dead h \<longrightarrow> h_dead h') \<and> (h_degraded h \<longrightarrow> h_degraded h') \<and> h_fsid h' = h_fsid h \<and>
     h_fencing_events h' = h_fencing_events h + (if h_dead h' \<and> \<not> h_dead h then 1 else 0))"

lemma health_le_refl [simp]: "health_le h h"
  by (simp add: health_le_def)

lemma health_le_trans: "health_le a b \<Longrightarrow> health_le b c \<Longrightarrow> health_le a c"
  by (cases "h_dead a"; cases "h_dead b"; cases "h_dead c") (simp_all add: health_le_def)

lemma health_le_marks [simp]:
  "health_le h (mark_fenced h)" "health_le h (mark_degraded h)"
  by (simp_all add: health_le_def mark_fenced_def mark_degraded_def)

lemma health_le_note [simp]: "health_le h (note_storage_error e h)" "health_le h (note_core_error e' h)"
  by (simp_all add: note_storage_error_def) (cases e'; simp add: note_storage_error_def)

lemma run_health_map_storage [run_simps]:
  "health_map_storage r h = (Inr x, h') \<longleftrightarrow> \<not> h_dead h \<and> r = Inr x \<and> h' = h"
  by (auto simp: health_map_storage_def health_ensure_live_def split: sum.splits)

lemma run_health_map_core [run_simps]:
  "health_map_core r h = (Inr x, h') \<longleftrightarrow> \<not> h_dead h \<and> r = Inr x \<and> h' = h"
  by (auto simp: health_map_core_def health_ensure_live_def split: sum.splits)

lemma dead_note_storage: "h_dead (note_storage_error e h) \<longleftrightarrow> h_dead h \<or> e = Fenced"
  by (simp add: note_storage_error_def is_fenced_slatedb_error_def mark_fenced_def mark_degraded_def)

lemma dead_note_core: "h_dead (note_core_error e h) \<longleftrightarrow> h_dead h \<or> e = E_SlateDb Fenced"
  by (cases e) (simp_all add: dead_note_storage mark_degraded_def)

datatype health_event = EvStorage slatedb_error | EvCore core_error

fun health_step :: "health_event \<Rightarrow> health \<Rightarrow> health" where
  "health_step (EvStorage e) h = note_storage_error e h"
| "health_step (EvCore e) h = note_core_error e h"

text \<open>
  C29. Death is permanent and counted once. Over any sequence of reported errors a dead
  volume stays dead, the fencing counter moves by one exactly when the volume dies, and
  a dead volume answers \<open>EIO\<close> whatever the engine answered.
\<close>

theorem health_death:
  "health_le h (fold health_step evs h) \<and>
   (h_dead (fold health_step evs h) \<longleftrightarrow> h_dead h \<or> EvStorage Fenced \<in> set evs \<or> EvCore (E_SlateDb Fenced) \<in> set evs) \<and>
   (h_dead h \<longrightarrow> health_map_storage r h = (Inl Io, h) \<and> health_map_core r' h = (Inl Io, h))"
proof -
  have step: "health_le h (health_step ev h)" for ev h by (cases ev) simp_all
  have "health_le h (fold health_step evs h)"
  proof (induction evs arbitrary: h)
    case (Cons ev evs)
    show ?case using health_le_trans [OF step Cons.IH] by simp
  qed simp
  moreover have dead: "h_dead (health_step ev h) \<longleftrightarrow> h_dead h \<or> ev = EvStorage Fenced \<or> ev = EvCore (E_SlateDb Fenced)"
    for ev h by (cases ev) (simp_all add: dead_note_storage dead_note_core)
  have "h_dead (fold health_step evs h) \<longleftrightarrow> h_dead h \<or> EvStorage Fenced \<in> set evs \<or> EvCore (E_SlateDb Fenced) \<in> set evs"
    by (induction evs arbitrary: h) (auto simp: dead)
  moreover have "h_dead h \<longrightarrow> health_map_storage r h = (Inl Io, h) \<and> health_map_core r' h = (Inl Io, h)"
    by (simp add: health_map_storage_def health_map_core_def)
  ultimately show ?thesis by blast
qed

theorem health_death_witness:
  "h_dead (fold health_step [EvCore E_Crypto, EvStorage Fenced] (health_new None)) \<and>
   health_map_storage (Inr (5::nat)) (mark_fenced (health_new None)) = (Inl Io, mark_fenced (health_new None))"
  using health_death [of "health_new None" "[EvCore E_Crypto, EvStorage Fenced]" "Inr (5::nat)" "Inr (5::nat)"]
    health_death [of "mark_fenced (health_new None)" "[]" "Inr (5::nat)" "Inr (5::nat)"]
  by (simp add: mark_fenced_def)

end
