(* ===== verification/Handles.thy ===== *)
theory Handles
  imports Records
begin

text \<open>
  The table of open handles, \<open>HandleTable\<close> of \<^verbatim>\<open>crates/slatefs-core/src/volume.rs\<close>. Shown
  here: the count kept per inode is the number of its open handles, so closing reports
  \<open>last\<close> exactly for the last one, and no handle number is given out twice.
\<close>

record handle_table =
  ht_next :: u64
  ht_by_handle :: "u64 \<rightharpoonup> (u64 \<times> open_mode)"
  ht_open_count :: "u64 \<rightharpoonup> u32"

definition handles_empty :: handle_table where
  "handles_empty = \<lparr>ht_next = 0, ht_by_handle = Map.empty, ht_open_count = Map.empty\<rparr>"

definition handle_open :: "u64 \<Rightarrow> open_mode \<Rightarrow> handle_table \<Rightarrow> u64 \<times> handle_table" where
  "handle_open ino mode t =
     (let next = ht_next t + 1
      in (next, \<lparr>ht_next = next,
                 ht_by_handle = (ht_by_handle t)(next \<mapsto> (ino, mode)),
                 ht_open_count = (ht_open_count t)
                   (ino \<mapsto> (case ht_open_count t ino of None \<Rightarrow> 0 | Some n \<Rightarrow> n) + 1)\<rparr>))"

text \<open>\<open>None\<close> is the early return of \<open>?\<close>; the second one leaves the handle removed.\<close>

definition handle_close ::
  "u64 \<Rightarrow> handle_table \<Rightarrow> (u64 \<times> open_mode \<times> bool) option \<times> handle_table" where
  "handle_close h t =
     (case ht_by_handle t h of
        None \<Rightarrow> (None, t)
      | Some (ino, mode) \<Rightarrow>
          let t1 = t\<lparr>ht_by_handle := (ht_by_handle t)(h := None)\<rparr>
          in case ht_open_count t1 ino of
               None \<Rightarrow> (None, t1)
             | Some n \<Rightarrow>
                 let count = n - 1; final = (count = 0)
                 in (Some (ino, mode, final),
                     t1\<lparr>ht_open_count := (ht_open_count t1)(ino := (if final then None else Some count))\<rparr>))"

definition is_open :: "u64 \<Rightarrow> handle_table \<Rightarrow> bool" where
  "is_open ino t = (ht_open_count t ino \<noteq> None)"

definition handle_get :: "u64 \<Rightarrow> handle_table \<Rightarrow> (u64 \<times> open_mode) option" where
  "handle_get h t = ht_by_handle t h"

section \<open>The invariant\<close>

definition handles_of :: "u64 \<Rightarrow> handle_table \<Rightarrow> u64 set" where
  "handles_of ino t = {h. \<exists>mode. ht_by_handle t h = Some (ino, mode)}"

text \<open>The count of an inode is the number of its handles; all handles were given out.\<close>

definition count_ok :: "u32 option \<Rightarrow> u64 set \<Rightarrow> bool" where
  "count_ok n hs = (finite hs \<and> (case n of None \<Rightarrow> hs = {} | Some n \<Rightarrow> unat n = card hs \<and> n \<noteq> 0))"

definition handles_inv :: "handle_table \<Rightarrow> bool" where
  "handles_inv t =
     ((\<forall>ino. count_ok (ht_open_count t ino) (handles_of ino t)) \<and>
      (\<forall>h. ht_by_handle t h \<noteq> None \<longrightarrow> 0 < unat h \<and> unat h \<le> unat (ht_next t)))"

lemma handles_inv_empty: "handles_inv handles_empty"
  by (simp add: handles_inv_def handles_empty_def handles_of_def count_ok_def)

lemma handles_of_open:
  "handles_of i (snd (handle_open ino mode t)) =
     (if i = ino then insert (ht_next t + 1) (handles_of ino t) else handles_of i t - {ht_next t + 1})"
  by (auto simp: handles_of_def handle_open_def Let_def)

lemma open_count_open:
  "ht_open_count (snd (handle_open ino mode t)) i =
     (if i = ino then Some ((case ht_open_count t ino of None \<Rightarrow> 0 | Some n \<Rightarrow> n) + 1) else ht_open_count t i)"
  by (simp add: handle_open_def Let_def)

text \<open>Room for another handle: the counters are far from wrapping.\<close>

definition handles_room :: "u64 \<Rightarrow> handle_table \<Rightarrow> bool" where
  "handles_room ino t = (unat (ht_next t) + 1 < 2 ^ 64 \<and> card (handles_of ino t) + 1 < 2 ^ 32)"

lemma handle_open_fresh:
  assumes "handles_inv t" "handles_room ino t"
  shows "ht_by_handle t (ht_next t + 1) = None" "unat (ht_next t + 1) = unat (ht_next t) + 1"
proof -
  show u: "unat (ht_next t + 1) = unat (ht_next t) + 1"
    using assms(2) by (simp add: handles_room_def unat_add_lt)
  show "ht_by_handle t (ht_next t + 1) = None"
    using assms(1) u unfolding handles_inv_def by (metis Suc_eq_plus1 not_less_eq_eq order_refl)
qed

lemma handles_inv_open:
  assumes inv: "handles_inv t" and room: "handles_room ino t"
  shows "handles_inv (snd (handle_open ino mode t))"
proof -
  note fresh = handle_open_fresh [OF inv room]
  let ?t = "snd (handle_open ino mode t)"
  have notin: "ht_next t + 1 \<notin> handles_of i t" for i using fresh(1) by (simp add: handles_of_def)
  have cnt: "count_ok (ht_open_count t i) (handles_of i t)" for i
    using inv by (simp add: handles_inv_def)
  have "count_ok (ht_open_count ?t i) (handles_of i ?t)" for i
  proof (cases "i = ino")
    case True
    let ?n = "case ht_open_count t ino of None \<Rightarrow> 0 | Some n \<Rightarrow> n"
    have n: "unat ?n = card (handles_of ino t)" using cnt [of ino] by (auto simp: count_ok_def split: option.splits)
    then have u: "unat (?n + 1) = card (handles_of ino t) + 1"
      using room by (simp add: handles_room_def unat_add_lt)
    then have "?n + 1 \<noteq> 0" by (metis add_is_0 unsigned_0 zero_neq_one)
    with u cnt [of ino] show ?thesis
      using True notin by (simp add: handles_of_open open_count_open count_ok_def)
  next
    case False
    with cnt [of i] notin show ?thesis by (simp add: handles_of_open open_count_open)
  qed
  moreover have "0 < unat h \<and> unat h \<le> unat (ht_next ?t)" if "ht_by_handle ?t h \<noteq> None" for h
    using that inv fresh by (auto simp: handle_open_def Let_def handles_inv_def split: if_splits) (metis le_SucI option.simps(3))+
  ultimately show ?thesis by (simp add: handles_inv_def)
qed

lemma handle_close_known:
  assumes inv: "handles_inv t" and h: "ht_by_handle t h = Some (ino, mode)"
  defines "t' \<equiv> snd (handle_close h t)"
  shows "fst (handle_close h t) = Some (ino, mode, handles_of ino t = {h})"
    and "handles_inv t'" and "ht_by_handle t' = (ht_by_handle t)(h := None)" and "ht_next t' = ht_next t"
    and "is_open ino t' \<longleftrightarrow> handles_of ino t \<noteq> {h}"
proof -
  have mem: "h \<in> handles_of ino t" using h by (auto simp: handles_of_def)
  have cnt: "count_ok (ht_open_count t i) (handles_of i t)" for i
    using inv by (simp add: handles_inv_def)
  then have fin: "finite (handles_of i t)" for i by (simp add: count_ok_def)
  obtain n where n: "ht_open_count t ino = Some n" "unat n = card (handles_of ino t)" "n \<noteq> 0"
    using cnt [of ino] mem by (auto simp: count_ok_def split: option.splits)
  have un: "unat (n - 1) = card (handles_of ino t) - 1"
    using n by (simp add: unat_minus_one)
  have pos: "0 < card (handles_of ino t)" using mem fin card_gt_0_iff by blast
  have "n - 1 = 0 \<longleftrightarrow> unat (n - 1) = 0" by (simp add: unat_eq_0)
  then have "n - 1 = 0 \<longleftrightarrow> card (handles_of ino t) = 1" using un pos by auto
  then have last: "n - 1 = 0 \<longleftrightarrow> handles_of ino t = {h}"
    using mem by (auto simp: card_1_singleton_iff)
  then have one: "n = 1 \<longleftrightarrow> handles_of ino t = {h}" by simp
  have close: "handle_close h t = (Some (ino, mode, handles_of ino t = {h}),
      t\<lparr>ht_by_handle := (ht_by_handle t)(h := None),
        ht_open_count := (ht_open_count t)(ino := (if n - 1 = 0 then None else Some (n - 1)))\<rparr>)"
    using h n(1) by (simp add: handle_close_def Let_def one)
  have hs: "handles_of i t' = (if i = ino then handles_of ino t - {h} else handles_of i t)" for i
    using h by (auto simp: t'_def close handles_of_def)
  show "fst (handle_close h t) = Some (ino, mode, handles_of ino t = {h})"
    and "ht_by_handle t' = (ht_by_handle t)(h := None)" and "ht_next t' = ht_next t"
    by (simp_all add: t'_def close)
  show "is_open ino t' \<longleftrightarrow> handles_of ino t \<noteq> {h}" by (simp add: t'_def close is_open_def one)
  have "count_ok (ht_open_count t' i) (handles_of i t')" for i
  proof (cases "i = ino")
    case True
    have "count_ok (if n - 1 = 0 then None else Some (n - 1)) (handles_of ino t - {h})"
    proof (cases "n = 1")
      case False
      then have "n - 1 \<noteq> 0" by simp
      with un mem fin show ?thesis by (simp add: count_ok_def)
    qed (use one in \<open>simp add: count_ok_def\<close>)
    with True show ?thesis by (simp add: hs) (simp add: t'_def close)
  next
    case False
    then show ?thesis using cnt [of i] by (simp add: hs) (simp add: t'_def close)
  qed
  moreover have "0 < unat k \<and> unat k \<le> unat (ht_next t')" if "ht_by_handle t' k \<noteq> None" for k
    using that inv by (auto simp: t'_def close handles_inv_def split: if_splits)
  ultimately show "handles_inv t'" by (simp add: handles_inv_def)
qed

lemma is_open_iff: "handles_inv t \<Longrightarrow> is_open ino t \<longleftrightarrow> handles_of ino t \<noteq> {}"
  unfolding handles_inv_def is_open_def
  by (drule conjunct1, drule spec [of _ ino]) (auto simp: count_ok_def unat_eq_0 split: option.splits)

section \<open>Histories\<close>

inductive handle_reach :: "handle_table \<Rightarrow> bool" where
  reach_empty: "handle_reach handles_empty"
| reach_open: "handle_reach t \<Longrightarrow> handles_room ino t \<Longrightarrow> handle_reach (snd (handle_open ino mode t))"
| reach_close: "handle_reach t \<Longrightarrow> handle_reach (snd (handle_close h t))"

lemma handle_close_unknown: "ht_by_handle t h = None \<Longrightarrow> handle_close h t = (None, t)"
  by (simp add: handle_close_def)

lemma handle_reach_inv: "handle_reach t \<Longrightarrow> handles_inv t"
proof (induction rule: handle_reach.induct)
  case (reach_close t h)
  then show ?case
    by (cases "ht_by_handle t h") (auto simp: handle_close_unknown intro: handle_close_known(2))
qed (simp_all add: handles_inv_empty handles_inv_open)



end
