(* ===== verification/Locks.thy ===== *)
theory Locks
  imports Records
begin

text \<open>
  Concurrency control, \<^verbatim>\<open>crates/slatefs-core/src/locks.rs\<close>: which lock stripes an
  operation takes and in which order, and the table of advisory byte-range locks.
  Shown here: every multi-lock plan of the program is strictly ascending, so tasks
  that follow such plans never deadlock; and the range-lock table never grants two
  owners conflicting locks, while unlocking gives back exactly the requested range.
\<close>

section \<open>Stripes\<close>

definition STRIPES :: nat where "STRIPES = 1024"

definition stripe_of :: "u64 \<Rightarrow> nat" where
  "stripe_of ino = unat (drop_bit 52 (ino * 0x9E3779B97F4A7C15)) mod STRIPES"

text \<open>The stripes each call takes, in the order it takes them.\<close>

definition lock_write :: "u64 \<Rightarrow> nat list" where
  "lock_write ino = [stripe_of ino]"

definition lock_write_many :: "u64 list \<Rightarrow> nat list" where
  "lock_write_many inos = remdups_adj (sort (map stripe_of inos))"

definition lock_write_range :: "u64 \<Rightarrow> u64 \<Rightarrow> nat list" where
  "lock_write_range first last_ino =
     (if last_ino < first then []
      else
        let count = last_ino - first + 1;
            stripes = (if of_nat STRIPES \<le> count then [0 ..< STRIPES]
                       else map (\<lambda>n. stripe_of (of_nat n)) [unat first ..< Suc (unat last_ino)])
        in remdups_adj (sort stripes))"

text \<open>
  A rename takes the volume's rename mutex first and its stripes under it; in one
  order of lock identities, the mutex is 0 and stripe \<open>n\<close> is \<open>n + 1\<close>.
\<close>

definition stripe_plan :: "nat list \<Rightarrow> nat list" where
  "stripe_plan stripes = map Suc stripes"

definition rename_plan :: "u64 list \<Rightarrow> nat list" where
  "rename_plan inos = 0 # stripe_plan (lock_write_many inos)"

section \<open>Advisory byte-range locks\<close>

record lock_range =
  lr_start :: u64
  lr_end :: u64

definition overlaps :: "lock_range \<Rightarrow> lock_range \<Rightarrow> bool" where
  "overlaps a b = (lr_start a < lr_end b \<and> lr_start b < lr_end a)"

record range_lock =
  rl_owner :: u64
  rl_range :: lock_range
  rl_exclusive :: bool

type_synonym range_lock_table = "u64 \<rightharpoonup> range_lock list"

text \<open>The test \<open>try_lock\<close> and \<open>test\<close> share: does a held lock block this request?\<close>

definition blocks :: "range_lock \<Rightarrow> range_lock \<Rightarrow> bool" where
  "blocks lock l = (rl_owner l \<noteq> rl_owner lock \<and> overlaps (rl_range l) (rl_range lock) \<and>
                    (rl_exclusive l \<or> rl_exclusive lock))"

text \<open>What \<open>carve\<close> keeps of one lock, and the pieces of it that survive.\<close>

definition carve_keeps :: "u64 \<Rightarrow> lock_range \<Rightarrow> range_lock \<Rightarrow> bool" where
  "carve_keeps owner rng l = (rl_owner l \<noteq> owner \<or> \<not> overlaps (rl_range l) rng)"

definition carve_pieces :: "lock_range \<Rightarrow> range_lock \<Rightarrow> range_lock list" where
  "carve_pieces rng l =
     (if lr_start (rl_range l) < lr_start rng
      then [l\<lparr>rl_range := \<lparr>lr_start = lr_start (rl_range l), lr_end = lr_start rng\<rparr>\<rparr>] else []) @
     (if lr_end rng < lr_end (rl_range l)
      then [l\<lparr>rl_range := \<lparr>lr_start = lr_end rng, lr_end = lr_end (rl_range l)\<rparr>\<rparr>] else [])"

definition carve :: "range_lock list \<Rightarrow> u64 \<Rightarrow> lock_range \<Rightarrow> range_lock list" where
  "carve locks owner rng =
     filter (carve_keeps owner rng) locks @
     concat (map (carve_pieces rng) (filter (\<lambda>l. \<not> carve_keeps owner rng l) locks))"

definition try_lock ::
  "u64 \<Rightarrow> range_lock \<Rightarrow> range_lock_table \<Rightarrow> (range_lock + unit) \<times> range_lock_table" where
  "try_lock ino lock tab =
     (let locks = (case tab ino of None \<Rightarrow> [] | Some ls \<Rightarrow> ls)
      in case find (blocks lock) locks of
           Some conflict \<Rightarrow> (Inl conflict, tab(ino \<mapsto> locks))
         | None \<Rightarrow> (Inr (), tab(ino \<mapsto> carve locks (rl_owner lock) (rl_range lock) @ [lock])))"

definition lock_test :: "u64 \<Rightarrow> range_lock \<Rightarrow> range_lock_table \<Rightarrow> range_lock option" where
  "lock_test ino probe tab =
     (case tab ino of None \<Rightarrow> None | Some locks \<Rightarrow> find (blocks probe) locks)"

definition range_unlock :: "u64 \<Rightarrow> u64 \<Rightarrow> lock_range \<Rightarrow> range_lock_table \<Rightarrow> range_lock_table" where
  "range_unlock ino owner rng tab =
     (case tab ino of
        None \<Rightarrow> tab
      | Some locks \<Rightarrow>
          (let locks' = carve locks owner rng
           in if locks' = [] then tab(ino := None) else tab(ino \<mapsto> locks')))"

definition unlock_owner :: "u64 \<Rightarrow> range_lock_table \<Rightarrow> range_lock_table" where
  "unlock_owner owner tab =
     (\<lambda>ino. case tab ino of
              None \<Rightarrow> None
            | Some locks \<Rightarrow>
                (let locks' = filter (\<lambda>l. rl_owner l \<noteq> owner) locks
                 in if locks' = [] then None else Some locks'))"

section \<open>Lock plans\<close>

lemma stripe_of_less: "stripe_of ino < STRIPES"
  by (simp add: stripe_of_def STRIPES_def)

lemma sorted_remdups_adj_strict: "sorted xs \<Longrightarrow> sorted_wrt (<) (remdups_adj (xs::nat list))"
proof (induction xs rule: remdups_adj.induct)
  case (3 x y xs)
  show ?case
  proof (cases "x = y")
    case False
    with 3 have "sorted_wrt (<) (remdups_adj (y # xs))" by simp
    moreover from False 3 have "\<forall>z \<in> set (y # xs). x < z" by fastforce
    ultimately show ?thesis
      using False by (simp del: remdups_adj.simps(3) add: remdups_adj.simps(3) [of x y])
  qed (use 3 in simp)
qed simp_all

lemma strict_stripe_plan: "sorted_wrt (<) xs \<Longrightarrow> sorted_wrt (<) (stripe_plan xs)"
  by (simp add: stripe_plan_def sorted_wrt_map)

lemma strict_lock_write_many: "sorted_wrt (<) (lock_write_many inos)"
  by (simp add: lock_write_many_def sorted_remdups_adj_strict)

lemma strict_lock_write_range: "sorted_wrt (<) (lock_write_range a b)"
  by (simp add: lock_write_range_def Let_def sorted_remdups_adj_strict)

lemma strict_rename_plan: "sorted_wrt (<) (rename_plan inos)"
  using strict_stripe_plan [OF strict_lock_write_many]
  by (auto simp: rename_plan_def stripe_plan_def)

section \<open>Deadlock freedom\<close>

text \<open>
  Tasks that take locks: what each still has to take and what it holds. A task
  takes its next lock when nobody holds it, drops its guards when its operation is
  over, and may then start another operation with one of the program's plans.
\<close>

definition program_plan :: "nat list \<Rightarrow> bool" where
  "program_plan p = ((\<exists>ino. p = stripe_plan (lock_write ino)) \<or> (\<exists>inos. p = stripe_plan (lock_write_many inos)) \<or>
     (\<exists>a b. p = stripe_plan (lock_write_range a b)) \<or> (\<exists>inos. p = rename_plan inos))"

record lock_sys =
  pending :: "nat \<Rightarrow> nat list"
  held :: "nat \<Rightarrow> nat list"

definition lock_sys_init :: lock_sys where
  "lock_sys_init = \<lparr>pending = (\<lambda>_. []), held = (\<lambda>_. [])\<rparr>"

inductive lock_step :: "lock_sys \<Rightarrow> nat \<Rightarrow> lock_sys \<Rightarrow> bool" where
  acquire: "pending s t = l # ls \<Longrightarrow> (\<And>u. l \<notin> set (held s u)) \<Longrightarrow>
     lock_step s t (s\<lparr>pending := (pending s)(t := ls), held := (held s)(t := held s t @ [l])\<rparr>)"
| finish: "pending s t = [] \<Longrightarrow> held s t \<noteq> [] \<Longrightarrow> lock_step s t (s\<lparr>held := (held s)(t := [])\<rparr>)"
| start: "pending s t = [] \<Longrightarrow> held s t = [] \<Longrightarrow> program_plan p \<Longrightarrow>
     lock_step s t (s\<lparr>pending := (pending s)(t := p)\<rparr>)"

inductive lock_reach :: "lock_sys \<Rightarrow> bool" where
  init: "lock_reach lock_sys_init"
| step: "lock_reach s \<Longrightarrow> lock_step s t s' \<Longrightarrow> lock_reach s'"

lemma program_plan_strict: "program_plan p \<Longrightarrow> sorted_wrt (<) p"
  using strict_stripe_plan strict_lock_write_many strict_lock_write_range strict_rename_plan
  by (auto simp: program_plan_def lock_write_def)

definition lock_inv :: "lock_sys \<Rightarrow> bool" where
  "lock_inv s = ((\<forall>t. sorted_wrt (<) (held s t @ pending s t)) \<and> finite {t. pending s t \<noteq> []} \<and>
     (\<forall>t u. set (held s t) \<inter> set (held s u) \<noteq> {} \<longrightarrow> t = u))"

lemma lock_step_inv: "lock_step s t s' \<Longrightarrow> lock_inv s \<Longrightarrow> lock_inv s'"
proof (induction rule: lock_step.induct)
  case (acquire s t l ls)
  have "finite {u. ((pending s)(t := ls)) u \<noteq> []}"
    using acquire.prems by (rule_tac finite_subset [of _ "insert t {u. pending s u \<noteq> []}"])
      (auto simp: lock_inv_def)
  moreover have "sorted_wrt (<) (held s t @ l # ls)"
    using acquire by (metis lock_inv_def)
  ultimately show ?case
    using acquire by (fastforce simp: lock_inv_def)
next
  case (finish s t)
  then show ?case by (fastforce simp: lock_inv_def)
next
  case (start s t p)
  have "finite {u. ((pending s)(t := p)) u \<noteq> []}"
    using start.prems by (rule_tac finite_subset [of _ "insert t {u. pending s u \<noteq> []}"])
      (auto simp: lock_inv_def)
  with start show ?case
    by (auto simp: lock_inv_def program_plan_strict)
qed

lemma lock_reach_inv: "lock_reach s \<Longrightarrow> lock_inv s"
proof (induction rule: lock_reach.induct)
  case init
  then show ?case by (simp add: lock_sys_init_def lock_inv_def)
next
  case (step s t s')
  then show ?case by (blast intro: lock_step_inv)
qed

text \<open>
  C24: no deadlock. In every reachable state in which some task waits for a lock,
  some task can take its next lock or finish; starting new work is not needed for it.
\<close>

theorem locks_no_deadlock:
  assumes "lock_reach s" and "pending s t \<noteq> []"
  shows "\<exists>u. (\<exists>l ls. pending s u = l # ls \<and> (\<forall>v. l \<notin> set (held s v))) \<or>
             pending s u = [] \<and> held s u \<noteq> []"
proof (rule ccontr)
  assume stuck: "\<not> ?thesis"
  let ?W = "{u. pending s u \<noteq> []}"
  from assms(1) have inv: "lock_inv s" by (rule lock_reach_inv)
  then have "finite ?W" by (simp add: lock_inv_def)
  have "t \<in> ?W" using assms(2) by simp
  let ?h = "\<lambda>u. hd (pending s u)"
  have "Max (?h ` ?W) \<in> ?h ` ?W"
    using \<open>finite ?W\<close> \<open>t \<in> ?W\<close> by (intro Max_in) auto
  then obtain u where u: "u \<in> ?W" "Max (?h ` ?W) = ?h u" by blast
  have top: "?h v \<le> ?h u" if "v \<in> ?W" for v
    using that \<open>finite ?W\<close> Max_ge [of "?h ` ?W" "?h v"] u(2) by simp
  obtain l ls where l: "pending s u = l # ls" using u(1) by (cases "pending s u") auto
  with stuck obtain v where v: "l \<in> set (held s v)" by blast
  then have "held s v \<noteq> []" by auto
  with stuck obtain m ms where m: "pending s v = m # ms" by (cases "pending s v") auto
  from inv have "sorted_wrt (<) (held s v @ pending s v)" by (simp add: lock_inv_def)
  with v m have "l < m" by (simp add: sorted_wrt_append)
  moreover have "m \<le> l" using top [of v] m l by simp
  ultimately show False by simp
qed

lemma lock_reach_example:
  "lock_reach (lock_sys_init\<lparr>pending := (pending lock_sys_init)(0 := stripe_plan (lock_write 5))\<rparr>)"
proof (rule lock_reach.step [OF lock_reach.init])
  show "lock_step lock_sys_init 0
      (lock_sys_init\<lparr>pending := (pending lock_sys_init)(0 := stripe_plan (lock_write 5))\<rparr>)"
    by (rule lock_step.start) (auto simp: lock_sys_init_def program_plan_def)
qed

theorem locks_no_deadlock_witness:
  "\<exists>u. (\<exists>l ls. pending (lock_sys_init\<lparr>pending := (pending lock_sys_init)(0 := stripe_plan (lock_write 5))\<rparr>) u = l # ls \<and>
            (\<forall>v. l \<notin> set (held (lock_sys_init\<lparr>pending := (pending lock_sys_init)(0 := stripe_plan (lock_write 5))\<rparr>) v))) \<or>
       pending (lock_sys_init\<lparr>pending := (pending lock_sys_init)(0 := stripe_plan (lock_write 5))\<rparr>) u = [] \<and>
       held (lock_sys_init\<lparr>pending := (pending lock_sys_init)(0 := stripe_plan (lock_write 5))\<rparr>) u \<noteq> []"
  by (rule locks_no_deadlock [OF lock_reach_example, of 0])
     (simp add: lock_sys_init_def stripe_plan_def lock_write_def)

section \<open>Range locks\<close>

definition in_range :: "lock_range \<Rightarrow> u64 \<Rightarrow> bool" where
  "in_range r p = (lr_start r \<le> p \<and> p < lr_end r)"

text \<open>Owner \<open>o\<close> holds offset \<open>p\<close> of the inode, exclusively or shared.\<close>

definition holds :: "range_lock list \<Rightarrow> u64 \<Rightarrow> u64 \<Rightarrow> bool \<Rightarrow> bool" where
  "holds locks owner p excl =
     (\<exists>l \<in> set locks. rl_owner l = owner \<and> rl_exclusive l = excl \<and> in_range (rl_range l) p)"

definition locks_of :: "range_lock_table \<Rightarrow> u64 \<Rightarrow> range_lock list" where
  "locks_of tab ino = (case tab ino of None \<Rightarrow> [] | Some ls \<Rightarrow> ls)"

text \<open>Two locks may stand side by side.\<close>

definition lock_compat :: "range_lock \<Rightarrow> range_lock \<Rightarrow> bool" where
  "lock_compat a b = (overlaps (rl_range a) (rl_range b) \<longrightarrow>
     rl_owner a \<noteq> rl_owner b \<and> \<not> rl_exclusive a \<and> \<not> rl_exclusive b)"

definition table_ok :: "range_lock_table \<Rightarrow> bool" where
  "table_ok tab = (\<forall>ino. sorted_wrt lock_compat (locks_of tab ino))"

lemma compat_sym: "lock_compat a b \<Longrightarrow> lock_compat b a"
  by (auto simp: lock_compat_def overlaps_def)

lemma sorted_compatD:
  "sorted_wrt lock_compat xs \<Longrightarrow> x \<in> set xs \<Longrightarrow> y \<in> set xs \<Longrightarrow> x \<noteq> y \<Longrightarrow> lock_compat x y"
  by (induction xs) (auto simp: compat_sym)

definition sublock :: "range_lock \<Rightarrow> range_lock \<Rightarrow> bool" where
  "sublock a b = (rl_owner a = rl_owner b \<and> rl_exclusive a = rl_exclusive b \<and>
     lr_start (rl_range b) \<le> lr_start (rl_range a) \<and> lr_end (rl_range a) \<le> lr_end (rl_range b))"

lemma sublock_refl [simp]: "sublock a a"
  by (simp add: sublock_def)

lemma compat_sublock: "lock_compat a b \<Longrightarrow> sublock a' a \<Longrightarrow> sublock b' b \<Longrightarrow> lock_compat a' b'"
  unfolding lock_compat_def sublock_def overlaps_def by auto

lemma carve_pieces_sublock:
  assumes "p \<in> set (carve_pieces rng l)" and "overlaps (rl_range l) rng"
  shows "sublock p l" "\<not> overlaps (rl_range p) rng"
  using assms by (auto simp: carve_pieces_def sublock_def overlaps_def split: if_splits)

lemma sorted_carve_pieces:
  "lr_start rng \<le> lr_end rng \<Longrightarrow> sorted_wrt lock_compat (carve_pieces rng l)"
  by (auto simp: carve_pieces_def lock_compat_def overlaps_def)

lemma sorted_concat_pieces:
  assumes "sorted_wrt lock_compat xs" "lr_start rng \<le> lr_end rng"
    and "\<forall>l \<in> set xs. overlaps (rl_range l) rng"
  shows "sorted_wrt lock_compat (concat (map (carve_pieces rng) xs))"
  using assms
proof (induction xs)
  case Nil
  then show ?case by simp
next
  case (Cons x xs)
  have "lock_compat a b" if "a \<in> set (carve_pieces rng x)" "y \<in> set xs" "b \<in> set (carve_pieces rng y)" for a b y
  proof (rule compat_sublock)
    show "lock_compat x y" using Cons.prems(1) that(2) by simp
    show "sublock a x" "sublock b y"
      using that Cons.prems(3) by (auto intro: carve_pieces_sublock(1))
  qed
  with Cons.IH Cons.prems show ?case by (simp add: sorted_wrt_append sorted_carve_pieces)
qed

lemma set_carve:
  "set (carve ls owner rng) =
     {l \<in> set ls. carve_keeps owner rng l} \<union>
     (\<Union>l \<in> {l \<in> set ls. \<not> carve_keeps owner rng l}. set (carve_pieces rng l))"
  by (auto simp: carve_def)

lemma sorted_carve:
  assumes "sorted_wrt lock_compat ls" "lr_start rng \<le> lr_end rng"
  shows "sorted_wrt lock_compat (carve ls owner rng)"
proof -
  have 1: "sorted_wrt lock_compat (concat (map (carve_pieces rng) (filter (\<lambda>l. \<not> carve_keeps owner rng l) ls)))"
    using assms by (intro sorted_concat_pieces sorted_wrt_filter) (simp_all add: carve_keeps_def)
  have "lock_compat a b" if "a \<in> set ls" "carve_keeps owner rng a" "l \<in> set ls" "\<not> carve_keeps owner rng l"
    "b \<in> set (carve_pieces rng l)" for a l b
  proof (rule compat_sublock [of a l])
    from that have "a \<noteq> l" by auto
    with that show "lock_compat a l" by (intro sorted_compatD [OF assms(1)])
    show "sublock b l" using that by (auto simp: carve_keeps_def intro: carve_pieces_sublock(1))
  qed simp
  then have "\<forall>a \<in> set (filter (carve_keeps owner rng) ls).
      \<forall>b \<in> set (concat (map (carve_pieces rng) (filter (\<lambda>l. \<not> carve_keeps owner rng l) ls))). lock_compat a b"
    by auto
  with 1 sorted_wrt_filter [OF assms(1)] show ?thesis
    unfolding carve_def sorted_wrt_append by blast
qed

lemma carve_no_overlap:
  "l \<in> set (carve ls owner rng) \<Longrightarrow> rl_owner l = owner \<Longrightarrow> \<not> overlaps (rl_range l) rng"
  by (auto simp: set_carve carve_keeps_def dest: carve_pieces_sublock(2))

lemma carve_other_owner:
  "l \<in> set (carve ls owner rng) \<Longrightarrow> rl_owner l \<noteq> owner \<Longrightarrow> l \<in> set ls"
  by (auto simp: set_carve carve_keeps_def carve_pieces_def split: if_splits)

lemma pieces_holds:
  assumes "overlaps (rl_range l) rng"
  shows "(\<exists>b \<in> set (carve_pieces rng l). in_range (rl_range b) p) \<longleftrightarrow>
         in_range (rl_range l) p \<and> \<not> in_range rng p"
  using assms
  by (cases "lr_start (rl_range l) < lr_start rng"; cases "lr_end rng < lr_end (rl_range l)")
     (auto simp: carve_pieces_def in_range_def overlaps_def)

lemma carve_pieces_fields:
  "b \<in> set (carve_pieces rng l) \<Longrightarrow> rl_owner b = rl_owner l \<and> rl_exclusive b = rl_exclusive l"
  by (auto simp: carve_pieces_def split: if_splits)

lemma holds_Nil [simp]: "\<not> holds [] q p x"
  by (simp add: holds_def)

lemma holds_Cons: "holds (l # ls) q p x \<longleftrightarrow> holds [l] q p x \<or> holds ls q p x"
  by (auto simp: holds_def)

lemma holds_append: "holds (ls @ ks) q p x \<longleftrightarrow> holds ls q p x \<or> holds ks q p x"
  by (auto simp: holds_def)

lemma holds_pieces:
  assumes "overlaps (rl_range l) rng"
  shows "holds (carve_pieces rng l) q p x \<longleftrightarrow> holds [l] q p x \<and> \<not> in_range rng p"
  using pieces_holds [OF assms, of p] carve_pieces_fields [of _ rng l] by (auto simp: holds_def)

text \<open>Carving takes exactly the range from exactly the owner.\<close>

lemma holds_carve_one:
  "holds (carve [l] owner rng) q p x \<longleftrightarrow> holds [l] q p x \<and> \<not> (q = owner \<and> in_range rng p)"
proof (cases "carve_keeps owner rng l")
  case True
  then have "rl_owner l = owner \<Longrightarrow> in_range (rl_range l) p \<Longrightarrow> \<not> in_range rng p"
    by (auto simp: carve_keeps_def overlaps_def in_range_def)
  with True show ?thesis by (auto simp: carve_def holds_def)
next
  case False
  then show ?thesis by (auto simp: carve_def carve_keeps_def holds_pieces) (simp add: holds_def)
qed

lemma holds_carve:
  "holds (carve ls owner rng) q p x \<longleftrightarrow> holds ls q p x \<and> \<not> (q = owner \<and> in_range rng p)"
proof (induction ls)
  case Nil
  show ?case by (simp add: carve_def)
next
  case (Cons l ls)
  have "holds (carve (l # ls) owner rng) q p x \<longleftrightarrow>
      holds (carve [l] owner rng) q p x \<or> holds (carve ls owner rng) q p x"
    by (simp add: carve_def holds_append holds_Cons [of l "filter _ _"] disj_ac)
  then show ?case unfolding Cons.IH holds_carve_one holds_Cons [of l ls] by blast
qed

lemma try_lock_cases:
  obtains (Denied) c where "try_lock ino lock tab = (Inl c, tab(ino \<mapsto> locks_of tab ino))"
      "c \<in> set (locks_of tab ino)" "blocks lock c"
  | (Granted) "try_lock ino lock tab =
      (Inr (), tab(ino \<mapsto> carve (locks_of tab ino) (rl_owner lock) (rl_range lock) @ [lock]))"
      "\<And>l. l \<in> set (locks_of tab ino) \<Longrightarrow> \<not> blocks lock l"
proof -
  have eq: "try_lock ino lock tab = (case find (blocks lock) (locks_of tab ino) of
      Some c \<Rightarrow> (Inl c, tab(ino \<mapsto> locks_of tab ino))
    | None \<Rightarrow> (Inr (), tab(ino \<mapsto> carve (locks_of tab ino) (rl_owner lock) (rl_range lock) @ [lock])))"
    unfolding try_lock_def locks_of_def Let_def by (rule refl)
  show ?thesis
  proof (cases "find (blocks lock) (locks_of tab ino)")
    case None
    then have "\<And>l. l \<in> set (locks_of tab ino) \<Longrightarrow> \<not> blocks lock l" by (auto simp: find_None_iff)
    with eq None show ?thesis by (intro Granted) simp_all
  next
    case (Some c)
    then have "blocks lock c" "c \<in> set (locks_of tab ino)" by (auto simp: find_Some_iff)
    with eq Some show ?thesis by (intro Denied) simp_all
  qed
qed

lemma locks_of_upd [simp]: "locks_of (tab(ino \<mapsto> ls)) i = (if i = ino then ls else locks_of tab i)"
  by (simp add: locks_of_def)

lemma locks_of_upd_same [simp]: "locks_of (tab(ino \<mapsto> locks_of tab ino)) = locks_of tab"
  by (simp add: locks_of_def fun_eq_iff)

lemma locks_of_range_unlock:
  "locks_of (range_unlock ino owner rng tab) i =
     (if i = ino then carve (locks_of tab ino) owner rng else locks_of tab i)"
  by (auto simp: range_unlock_def locks_of_def Let_def carve_def split: option.splits)

lemma locks_of_unlock_owner:
  "locks_of (unlock_owner owner tab) i = filter (\<lambda>l. rl_owner l \<noteq> owner) (locks_of tab i)"
  by (auto simp: unlock_owner_def locks_of_def Let_def split: option.splits)

lemma lock_test_None:
  "lock_test ino lock tab = None \<longleftrightarrow> (\<forall>l \<in> set (locks_of tab ino). \<not> blocks lock l)"
  by (auto simp: lock_test_def locks_of_def find_None_iff split: option.splits)

subsection \<open>The contract of a lock table\<close>

text \<open>
  What the volume's \<open>lock\<close>, \<open>unlock\<close> and \<open>close\<close> rely on, stated per owner and
  per offset. A denied request changes nobody's locks and names a conflicting one; a
  granted request gives its owner exactly the requested mode over exactly the
  requested range, and only when no other owner's lock conflicts there.
\<close>

locale advisory_locks =
  fixes acquire :: "u64 \<Rightarrow> range_lock \<Rightarrow> 't \<Rightarrow> (range_lock + unit) \<times> 't"
    and release :: "u64 \<Rightarrow> u64 \<Rightarrow> lock_range \<Rightarrow> 't \<Rightarrow> 't"
    and release_all :: "u64 \<Rightarrow> 't \<Rightarrow> 't"
    and holder :: "'t \<Rightarrow> u64 \<Rightarrow> u64 \<Rightarrow> u64 \<Rightarrow> bool \<Rightarrow> bool"
    and empty_table :: 't
  assumes holder_empty: "\<not> holder empty_table ino q p x"
    and denied: "acquire ino lock t = (Inl c, t') \<Longrightarrow>
        blocks lock c \<and> (\<forall>i q p x. holder t' i q p x = holder t i q p x)"
    and granted: "acquire ino lock t = (Inr (), t') \<Longrightarrow>
        holder t' i q p x = (if i = ino \<and> q = rl_owner lock \<and> in_range (rl_range lock) p
                             then x = rl_exclusive lock else holder t i q p x)"
    and granted_free: "acquire ino lock t = (Inr (), t') \<Longrightarrow> holder t ino q p x \<Longrightarrow>
        q \<noteq> rl_owner lock \<Longrightarrow> in_range (rl_range lock) p \<Longrightarrow> \<not> x \<and> \<not> rl_exclusive lock"
    and released: "holder (release ino owner rng t) i q p x \<longleftrightarrow>
        holder t i q p x \<and> \<not> (i = ino \<and> q = owner \<and> in_range rng p)"
    and released_all: "holder (release_all owner t) i q p x \<longleftrightarrow> holder t i q p x \<and> q \<noteq> owner"
begin

inductive table_reach :: "'t \<Rightarrow> bool" where
  start: "table_reach empty_table"
| lock: "table_reach t \<Longrightarrow> table_reach (snd (acquire ino lock t))"
| unlock: "table_reach t \<Longrightarrow> table_reach (release ino owner rng t)"
| close: "table_reach t \<Longrightarrow> table_reach (release_all owner t)"

definition conflict_free :: "'t \<Rightarrow> bool" where
  "conflict_free t = (\<forall>i q q' p x x'. holder t i q p x \<longrightarrow> holder t i q' p x' \<longrightarrow>
     (if q = q' then x = x' else \<not> x \<and> \<not> x'))"

lemma conflict_freeD:
  "conflict_free t \<Longrightarrow> holder t i q p x \<Longrightarrow> holder t i q' p x' \<Longrightarrow> if q = q' then x = x' else \<not> x \<and> \<not> x'"
  unfolding conflict_free_def by blast

lemma acquire_granted_conflict_free:
  assumes cf: "conflict_free t" and acq: "acquire ino lock t = (Inr (), t')"
  shows "conflict_free t'"
  unfolding conflict_free_def
proof (intro allI impI)
  fix i q q' p x x' assume h: "holder t' i q p x" "holder t' i q' p x'"
  define new where "new q = (i = ino \<and> q = rl_owner lock \<and> in_range (rl_range lock) p)" for q
  from h have x: "if new q then x = rl_exclusive lock else holder t i q p x"
    and x': "if new q' then x' = rl_exclusive lock else holder t i q' p x'"
    unfolding granted [OF acq] new_def by simp_all
  consider "new q" "new q'" | "new q" "\<not> new q'" | "\<not> new q" "new q'" | "\<not> new q" "\<not> new q'" by blast
  then show "if q = q' then x = x' else \<not> x \<and> \<not> x'"
  proof cases
    case 2
    with x x' granted_free [OF acq, of q' p x'] show ?thesis by (auto simp: new_def)
  next
    case 3
    with x x' granted_free [OF acq, of q p x] show ?thesis by (auto simp: new_def)
  next
    case 4
    with x x' conflict_freeD [OF cf, of i q p x q' x'] show ?thesis by simp
  qed (use x x' in \<open>simp add: new_def\<close>)
qed

lemma conflict_free_mono:
  assumes "conflict_free t" "\<And>i q p x. holder t' i q p x \<Longrightarrow> holder t i q p x"
  shows "conflict_free t'"
  using assms unfolding conflict_free_def by meson

lemma acquire_conflict_free:
  assumes "conflict_free t"
  shows "conflict_free (snd (acquire ino lock t))"
proof (cases "fst (acquire ino lock t)")
  case (Inl c)
  then have "acquire ino lock t = (Inl c, snd (acquire ino lock t))" by (metis prod.collapse)
  from denied [OF this] assms show ?thesis unfolding conflict_free_def by simp
next
  case (Inr u)
  then have "acquire ino lock t = (Inr (), snd (acquire ino lock t))" by (metis prod.collapse old.unit.exhaust)
  from acquire_granted_conflict_free [OF assms this] show ?thesis .
qed

lemma reach_conflict_free: "table_reach t \<Longrightarrow> conflict_free t"
proof (induction rule: table_reach.induct)
  case start
  then show ?case by (simp add: conflict_free_def holder_empty)
next
  case (lock t ino lock)
  then show ?case by (simp add: acquire_conflict_free)
next
  case (unlock t ino owner rng)
  then show ?case by (auto intro: conflict_free_mono simp: released)
next
  case (close t owner)
  then show ?case by (auto intro: conflict_free_mono simp: released_all)
qed

end

lemma try_lock_denied:
  assumes "try_lock ino lock tab = (Inl c, tab')"
  shows "blocks lock c \<and> (\<forall>i q p x. holds (locks_of tab' i) q p x = holds (locks_of tab i) q p x)"
proof (cases rule: try_lock_cases [of ino lock tab])
  case (Denied c')
  with assms have "tab' = tab(ino \<mapsto> locks_of tab ino)" "blocks lock c" by simp_all
  then show ?thesis by (simp only: locks_of_upd_same) simp
qed (use assms in simp)

lemma try_lock_granted:
  assumes "try_lock ino lock tab = (Inr (), tab')"
  shows "holds (locks_of tab' i) q p x = (if i = ino \<and> q = rl_owner lock \<and> in_range (rl_range lock) p
      then x = rl_exclusive lock else holds (locks_of tab i) q p x)"
proof (cases rule: try_lock_cases [of ino lock tab])
  case Granted
  with assms have t: "tab' = tab(ino \<mapsto> carve (locks_of tab ino) (rl_owner lock) (rl_range lock) @ [lock])"
    by simp
  have "holds [lock] q p x \<longleftrightarrow> q = rl_owner lock \<and> x = rl_exclusive lock \<and> in_range (rl_range lock) p"
    by (auto simp: holds_def)
  then show ?thesis unfolding t by (auto simp: holds_append holds_carve)
qed (use assms in simp)

lemma try_lock_granted_free:
  assumes "try_lock ino lock tab = (Inr (), tab')" and "holds (locks_of tab ino) q p x"
    and "q \<noteq> rl_owner lock" and "in_range (rl_range lock) p"
  shows "\<not> x \<and> \<not> rl_exclusive lock"
proof (cases rule: try_lock_cases [of ino lock tab])
  case Granted
  from assms(2) obtain l where l: "l \<in> set (locks_of tab ino)" "rl_owner l = q" "rl_exclusive l = x"
      "in_range (rl_range l) p" by (auto simp: holds_def)
  with assms(4) have "overlaps (rl_range l) (rl_range lock)" by (auto simp: in_range_def overlaps_def)
  with Granted(2) [OF l(1)] l assms(3) show ?thesis by (auto simp: blocks_def)
qed (use assms in simp)

interpretation range_locks: advisory_locks try_lock range_unlock unlock_owner
  "\<lambda>tab ino. holds (locks_of tab ino)" Map.empty
proof (unfold_locales, goal_cases)
  case (1 ino q p x)
  show ?case by (simp add: locks_of_def)
next
  case (2 ino lock t c t')
  then show ?case by (rule try_lock_denied)
next
  case (3 ino lock t t' i q p x)
  then show ?case by (rule try_lock_granted)
next
  case (4 ino lock t t' q p x)
  then show ?case by (rule try_lock_granted_free)
next
  case (5 ino owner rng t i q p x)
  show ?case by (simp add: locks_of_range_unlock holds_carve)
next
  case (6 owner t i q p x)
  show ?case by (auto simp: locks_of_unlock_owner holds_def)
qed

subsection \<open>Histories of a table\<close>

datatype range_op =
    TryLock u64 range_lock
  | Unlock u64 u64 lock_range
  | UnlockOwner u64

fun range_apply :: "range_op \<Rightarrow> range_lock_table \<Rightarrow> range_lock_table" where
  "range_apply (TryLock ino lock) tab = snd (try_lock ino lock tab)"
| "range_apply (Unlock ino owner rng) tab = range_unlock ino owner rng tab"
| "range_apply (UnlockOwner owner) tab = unlock_owner owner tab"

fun op_nonempty :: "range_op \<Rightarrow> bool" where
  "op_nonempty (TryLock ino lock) = (lr_start (rl_range lock) < lr_end (rl_range lock))"
| "op_nonempty (Unlock ino owner rng) = (lr_start rng < lr_end rng)"
| "op_nonempty (UnlockOwner owner) = True"

abbreviation range_run :: "range_op list \<Rightarrow> range_lock_table" where
  "range_run ops \<equiv> fold range_apply ops Map.empty"

lemma range_run_reach: "range_locks.table_reach (range_run ops)"
proof (induction ops rule: rev_induct)
  case Nil
  then show ?case by (simp add: range_locks.table_reach.start)
next
  case (snoc a ops)
  then show ?case by (cases a) (auto intro: range_locks.table_reach.intros)
qed

lemma table_ok_range_apply:
  assumes "table_ok tab" "op_nonempty a"
  shows "table_ok (range_apply a tab)"
proof (cases a)
  case (TryLock ino lock)
  let ?ls = "locks_of tab ino" let ?c = "carve ?ls (rl_owner lock) (rl_range lock)"
  have "sorted_wrt lock_compat ?c" using assms TryLock by (auto simp: table_ok_def intro!: sorted_carve)
  moreover have "lock_compat l lock" if "l \<in> set ?c" "\<And>l. l \<in> set ?ls \<Longrightarrow> \<not> blocks lock l" for l
    using that carve_no_overlap [of l ?ls "rl_owner lock" "rl_range lock"]
      carve_other_owner [of l ?ls "rl_owner lock" "rl_range lock"]
    by (auto simp: lock_compat_def blocks_def)
  ultimately show ?thesis
    using assms TryLock
    by (rule_tac try_lock_cases [of ino lock tab]) (auto simp: table_ok_def sorted_wrt_append)
next
  case (Unlock ino owner rng)
  then show ?thesis using assms by (auto simp: table_ok_def locks_of_range_unlock intro!: sorted_carve)
next
  case (UnlockOwner owner)
  then show ?thesis using assms by (auto simp: table_ok_def locks_of_unlock_owner intro!: sorted_wrt_filter)
qed

text \<open>C25. After any history of lock, unlock and close calls no offset is held
  exclusively by one owner and, in any mode, by another.\<close>

theorem range_locks_exclusive:
  "\<not> (holds (locks_of (range_run ops) ino) q p True \<and> holds (locks_of (range_run ops) ino) q' p x \<and> q \<noteq> q')"
  using range_locks.conflict_freeD [OF range_locks.reach_conflict_free [OF range_run_reach]] by metis

text \<open>C26. After any history of requests with non-empty ranges the locks of an inode are
  pairwise compatible: two that overlap have different owners and are both shared, so
  one owner's locks are disjoint.\<close>

theorem range_locks_disjoint:
  assumes "\<forall>a \<in> set ops. op_nonempty a"
  shows "table_ok (range_run ops)"
  using assms
proof (induction ops rule: rev_induct)
  case Nil
  then show ?case by (simp add: table_ok_def locks_of_def)
next
  case (snoc a ops)
  then show ?case by (simp add: table_ok_range_apply)
qed

theorem range_locks_disjoint_witness:
  "table_ok (range_run [TryLock 7 \<lparr>rl_owner = 1, rl_range = \<lparr>lr_start = 0, lr_end = 10\<rparr>, rl_exclusive = True\<rparr>,
     Unlock 7 1 \<lparr>lr_start = 3, lr_end = 5\<rparr>])"
  using range_locks_disjoint
    [of "[TryLock 7 \<lparr>rl_owner = 1, rl_range = \<lparr>lr_start = 0, lr_end = 10\<rparr>, rl_exclusive = True\<rparr>,
          Unlock 7 1 \<lparr>lr_start = 3, lr_end = 5\<rparr>]"]
  by simp

text \<open>C27. What one request does to every owner's locks at every offset, on both outcomes.\<close>

theorem try_lock_effect:
  "case try_lock ino lock tab of
     (Inl c, tab') \<Rightarrow> c \<in> set (locks_of tab ino) \<and> blocks lock c \<and> lock_test ino lock tab \<noteq> None \<and>
        (\<forall>i. locks_of tab' i = locks_of tab i)
   | (Inr _, tab') \<Rightarrow> lock_test ino lock tab = None \<and>
        (\<forall>i q p x. holds (locks_of tab' i) q p x =
          (if i = ino \<and> q = rl_owner lock \<and> in_range (rl_range lock) p then x = rl_exclusive lock
           else holds (locks_of tab i) q p x))"
proof (cases rule: try_lock_cases [of ino lock tab])
  case (Denied c)
  then show ?thesis by (auto simp: lock_test_None simp del: not_None_eq)
next
  case Granted
  then have "lock_test ino lock tab = None" by (simp add: lock_test_None)
  with Granted range_locks.granted [OF Granted(1)] show ?thesis by simp
qed

end
