(* ===== verification/Volume.thy ===== *)
theory Volume
  imports Names Data_Truncate Health Handles Alloc Locks
begin

text \<open>
  The mounted volume, \<^verbatim>\<open>crates/slatefs-core/src/volume.rs\<close> and
  \<^verbatim>\<open>crates/slatefs-core/src/attrcache.rs\<close>: the state of a \<open>Volume\<close>, formatting, opening,
  and the reaper of orphaned data. The parameters of the model are gathered in the
  record \<open>env\<close>: the storage engine, the serializers, the name cipher, the clocks and the
  cache's evictions. A call that reads one of them advances the call counter of the store,
  so the parameters may answer differently each time.
\<close>

section \<open>The environment\<close>

record 'db env =
  en_engine :: "'db engine"
  en_codecs :: codecs
  en_siv :: siv
  en_now :: "nat \<Rightarrow> timespec"
  en_unix :: "nat \<Rightarrow> u64"
  en_evict_attr :: "nat \<Rightarrow> u64 \<Rightarrow> bool"
  en_evict_neg :: "nat \<Rightarrow> u64 \<Rightarrow> bytes \<Rightarrow> bool"

definition env_ok :: "'db env \<Rightarrow> bool" where
  "env_ok E = (engine_ok (en_engine E) \<and> codecs_ok (en_codecs E) \<and> siv_ok (en_siv E))"

definition store_now :: "'db env \<Rightarrow> ('db store, 'e, timespec) act" where
  "store_now E s = (Inr (en_now E (st_ticks s)), tick s)"

section \<open>The attribute cache\<close>

text \<open>
  The two caches (the \<open>moka\<close> crate) hold what was inserted and not invalidated, less what
  they evicted; which entries go, and when, is up to them.
\<close>

record attr_cache =
  ac_attrs :: "u64 \<rightharpoonup> inode"
  ac_negative :: "u64 \<Rightarrow> bytes \<Rightarrow> bool"

definition attr_cache_default :: attr_cache where
  "attr_cache_default = \<lparr>ac_attrs = Map.empty, ac_negative = (\<lambda>_ _. False)\<rparr>"

definition cache_get :: "(u64 \<Rightarrow> bool) \<Rightarrow> u64 \<Rightarrow> attr_cache \<Rightarrow> inode option \<times> attr_cache" where
  "cache_get evicted ino c =
     (let c' = c\<lparr>ac_attrs := (\<lambda>i. if evicted i then None else ac_attrs c i)\<rparr> in (ac_attrs c' ino, c'))"

definition cache_insert :: "u64 \<Rightarrow> inode \<Rightarrow> attr_cache \<Rightarrow> attr_cache" where
  "cache_insert ino i c = c\<lparr>ac_attrs := (ac_attrs c)(ino \<mapsto> i)\<rparr>"

definition cache_remove :: "u64 \<Rightarrow> attr_cache \<Rightarrow> attr_cache" where
  "cache_remove ino c = c\<lparr>ac_attrs := (ac_attrs c)(ino := None)\<rparr>"

definition cache_is_negative ::
  "(u64 \<Rightarrow> bytes \<Rightarrow> bool) \<Rightarrow> u64 \<Rightarrow> bytes \<Rightarrow> attr_cache \<Rightarrow> bool \<times> attr_cache" where
  "cache_is_negative evicted parent name c =
     (let c' = c\<lparr>ac_negative := (\<lambda>p n. ac_negative c p n \<and> \<not> evicted p n)\<rparr> in (ac_negative c' parent name, c'))"

definition cache_insert_negative :: "u64 \<Rightarrow> bytes \<Rightarrow> attr_cache \<Rightarrow> attr_cache" where
  "cache_insert_negative parent name c =
     c\<lparr>ac_negative := (\<lambda>p n. p = parent \<and> n = name \<or> ac_negative c p n)\<rparr>"

definition cache_remove_negative :: "u64 \<Rightarrow> bytes \<Rightarrow> attr_cache \<Rightarrow> attr_cache" where
  "cache_remove_negative parent name c =
     c\<lparr>ac_negative := (\<lambda>p n. ac_negative c p n \<and> \<not> (p = parent \<and> n = name))\<rparr>"

section \<open>The state of a volume\<close>

record readahead_state =
  ra_expected :: u64
  ra_prefetched_to :: u32

text \<open>
  The lock manager has no state of its own here: an operation runs while it holds its
  locks. \<open>v_dek\<close> is the key inside \<open>NameCodec\<close>.
\<close>

record 'db volume =
  v_store :: "'db store"
  v_superblock :: superblock
  v_health :: health
  v_dek :: bytes
  v_range_locks :: range_lock_table
  v_quota :: quota_tracker
  v_alloc :: alloc_state
  v_handles :: handle_table
  v_chunk_size :: u64
  v_attrs :: attr_cache
  v_readahead :: "(u64 \<times> readahead_state) list"

datatype volume_state = Creating | Active | Deleting

text \<open>The fields of the control record that formatting and opening read.\<close>

record volume_record =
  vr_state :: volume_state
  vr_fsid :: u64
  vr_cipher :: cipher
  vr_chunk_size :: u32
  vr_quota :: quota_limits
  vr_kind :: volume_kind
  vr_created_at :: u64

section \<open>Formatting\<close>

definition BLOCK_SECTOR_SIZE :: u64 where "BLOCK_SECTOR_SIZE = 512"

definition validate_block_size :: "u64 \<Rightarrow> u32 \<Rightarrow> core_error + unit" where
  "validate_block_size size_bytes chunk_size =
     (if size_bytes = 0 then Inl (E_Invalid ''block size'')
      else if size_bytes mod BLOCK_SECTOR_SIZE \<noteq> 0 then Inl (E_Invalid ''block size'')
      else if chunk_size = 0 then Inl (E_Invalid ''block chunk size'')
      else if unat chunk_size * (4294967295 + 1) < unat size_bytes then Inl (E_Invalid ''block size'')
      else Inr ())"

definition verify_superblock_matches_record ::
  "volume_record \<Rightarrow> superblock \<Rightarrow> string \<Rightarrow> core_error + unit" where
  "verify_superblock_matches_record record sb what =
     (if sb_fsid sb \<noteq> vr_fsid record then Inl (E_Invalid what)
      else if sb_cipher sb \<noteq> vr_cipher record then Inl (E_Invalid what)
      else if sb_chunk_size sb \<noteq> vr_chunk_size record then Inl (E_Invalid what)
      else if sb_kind sb \<noteq> vr_kind record then Inl (E_Invalid what)
      else case sb_kind sb of
             Block size_bytes \<Rightarrow> validate_block_size size_bytes (sb_chunk_size sb)
           | Filesystem \<Rightarrow> Inr ())"

definition mkfs_superblock :: "volume_record \<Rightarrow> superblock" where
  "mkfs_superblock record =
     \<lparr>sb_fsid = vr_fsid record, sb_cipher = vr_cipher record, sb_chunk_size = vr_chunk_size record,
      sb_name_enc = (vr_kind record = Filesystem), sb_created_at = vr_created_at record,
      sb_kind = vr_kind record\<rparr>"

text \<open>The filesystem's part of the batch: the root directory and the allocator's mark.\<close>

definition mkfs_root :: "'db env \<Rightarrow> volume_record \<Rightarrow> ('db store, core_error, batch_op list) act" where
  "mkfs_root E record =
     (if vr_kind record = Filesystem
      then bindE (store_now E) (\<lambda>now.
           let root = (inode_new Dir 0x1ED 0 0 now)\<lparr>i_parent_dir := ROOT_INO\<rparr>
           in bindE (liftE (inode_encode (en_codecs E) root)) (\<lambda>bs.
              returnE [Put (key_bytes (KInode ROOT_INO)) bs, Put (key_bytes KNextIno) (be64 (ROOT_INO + 1))]))
      else returnE [])"

definition mkfs :: "'db env \<Rightarrow> volume_record \<Rightarrow> ('db store, core_error, unit) act" where
  "mkfs E record =
     bindE (core (store_get (en_engine E) (key_bytes KSuper))) (\<lambda>v.
       case v of
         Some bs \<Rightarrow>
           bindE (liftE (superblock_decode (pc_superblock (en_codecs E)) (pc_superblock_v1 (en_codecs E)) bs)) (\<lambda>existing.
             liftE (verify_superblock_matches_record record existing ''superblock''))
       | None \<Rightarrow>
           bindE (liftE (superblock_encode (pc_superblock (en_codecs E)) (mkfs_superblock record))) (\<lambda>sb.
           bindE (mkfs_root E record) (\<lambda>root.
           bindE (core (store_write (en_engine E)
             ([Put (key_bytes KSuper) sb] @ root @ [Merge (key_bytes KQuotaInodes) (encode_delta 1)]))) (\<lambda>_.
             core (store_flush (en_engine E))))))"

section \<open>Reaping orphans\<close>

definition REAP_BATCH :: nat where "REAP_BATCH = 1024"

text \<open>The inner loop: keys from the iterator, at most a batch of them.\<close>

fun reap_collect ::
  "'db engine \<Rightarrow> (bytes \<times> bytes) list \<Rightarrow> bytes list \<Rightarrow> ('db store, core_error, bytes list) act" where
  "reap_collect E [] ks = bindE (core (store_next E)) (\<lambda>_. returnE ks)"
| "reap_collect E ((k, v) # kvs) ks =
     bindE (core (store_next E)) (\<lambda>_.
       let ks' = ks @ [k] in if length ks' = REAP_BATCH then returnE ks' else reap_collect E kvs ks')"

text \<open>
  The outer loop deletes a batch and scans again until a scan yields less than a batch.
  It is run with a bound on the number of rounds; an inode has at most \<open>2 ^ 32\<close> chunks, so
  \<open>reap_rounds\<close> rounds of a thousand deletes always suffice (\<open>reap_chunks_wp\<close> in the theory Reaper).
\<close>

definition reap_rounds :: nat where "reap_rounds = 4194305"

fun reap_chunks :: "'db engine \<Rightarrow> u64 \<Rightarrow> nat \<Rightarrow> ('db store, core_error, unit) act" where
  "reap_chunks E ino rounds =
     (if rounds = 0 then returnE ()
      else
        bindE (core (store_scan E (chunk_prefix ino) (chunk_prefix (ino + 1)))) (\<lambda>kvs.
        bindE (reap_collect E kvs []) (\<lambda>ks.
          if ks = [] then returnE ()
          else bindE (core (store_write E (map Delete ks))) (\<lambda>_.
            if length ks < REAP_BATCH then returnE () else reap_chunks E ino (rounds - 1)))))"

declare reap_chunks.simps [simp del]

fun drain_keys :: "'db engine \<Rightarrow> (bytes \<times> bytes) list \<Rightarrow> bytes list \<Rightarrow> ('db store, slatedb_error, bytes list) act" where
  "drain_keys E [] ks = bindE (store_next E) (\<lambda>_. returnE ks)"
| "drain_keys E ((k, v) # kvs) ks = bindE (store_next E) (\<lambda>_. drain_keys E kvs (ks @ [k]))"

definition reap_orphan_data :: "'db engine \<Rightarrow> u64 \<Rightarrow> ('db store, core_error, unit) act" where
  "reap_orphan_data E ino =
     bindE (reap_chunks E ino reap_rounds) (\<lambda>_.
     bindE (core (store_scan E (xattr_prefix ino) (xattr_prefix (ino + 1)))) (\<lambda>kvs.
     bindE (core (drain_keys E kvs [])) (\<lambda>ks.
       core (store_write E
         (map Delete ks @ [Delete (key_bytes (KSymlink ino)), Delete (key_bytes (KOrphan ino))])))))"

text \<open>
  The mount-time reaper. A scan by the prefix \<open>o\<close> is a scan from \<open>o\<close> to the next byte.
\<close>

fun collect_orphans ::
  "'db env \<Rightarrow> (bytes \<times> bytes) list \<Rightarrow> u64 list \<Rightarrow> ('db store, core_error, u64 list) act" where
  "collect_orphans E [] orphans = bindE (core (store_next (en_engine E))) (\<lambda>_. returnE orphans)"
| "collect_orphans E ((k, v) # kvs) orphans =
     bindE (core (store_next (en_engine E))) (\<lambda>_.
       case parse_ino k of
         Some ino \<Rightarrow> bindE (liftE (orphan_decode (en_codecs E) v)) (\<lambda>_.
           collect_orphans E kvs (orphans @ [ino]))
       | None \<Rightarrow> collect_orphans E kvs orphans)"

definition bury_batch :: "u64 \<Rightarrow> inode \<Rightarrow> batch_op list" where
  "bury_batch ino i =
     [Delete (key_bytes (KInode ino)),
      Merge (key_bytes KQuotaBytes) (encode_delta (- i_billed_bytes i)),
      Merge (key_bytes KQuotaInodes) (encode_delta (- 1))]"

definition reap_crashed_orphan :: "'db env \<Rightarrow> u64 \<Rightarrow> ('db store, core_error, unit) act" where
  "reap_crashed_orphan E ino =
     bindE (core (store_get (en_engine E) (key_bytes (KInode ino)))) (\<lambda>v.
     bindE (case v of
              Some bs \<Rightarrow> bindE (liftE (inode_decode (en_codecs E) bs)) (\<lambda>i.
                core (store_write (en_engine E) (bury_batch ino i)))
            | None \<Rightarrow> returnE ()) (\<lambda>_.
       reap_orphan_data (en_engine E) ino))"

fun reap_each :: "'db env \<Rightarrow> u64 list \<Rightarrow> ('db store, core_error, unit) act" where
  "reap_each E [] = returnE ()"
| "reap_each E (ino # inos) = bindE (reap_crashed_orphan E ino) (\<lambda>_. reap_each E inos)"

definition reap_crashed_orphans :: "'db env \<Rightarrow> ('db store, core_error, unit) act" where
  "reap_crashed_orphans E =
     bindE (core (store_scan (en_engine E) orphan_prefix [112])) (\<lambda>kvs.
     bindE (collect_orphans E kvs []) (\<lambda>orphans.
       reap_each E orphans))"

section \<open>Opening\<close>

definition volume_open ::
  "'db env \<Rightarrow> volume_record \<Rightarrow> bytes \<Rightarrow> ('db store, core_error, 'db store \<Rightarrow> 'db volume) act" where
  "volume_open E record dek =
     (if vr_state record \<noteq> Active then throwE (E_Invalid ''volume state'')
      else
        bindE (core (store_get (en_engine E) (key_bytes KSuper))) (\<lambda>v.
        bindE (case v of
                 Some bs \<Rightarrow> liftE (superblock_decode (pc_superblock (en_codecs E)) (pc_superblock_v1 (en_codecs E)) bs)
               | None \<Rightarrow> throwE (E_Invalid ''volume'')) (\<lambda>sb.
        bindE (liftE (verify_superblock_matches_record record sb ''superblock'')) (\<lambda>_.
        bindE (if sb_kind sb = Filesystem then returnE () else throwE (E_Invalid ''volume kind'')) (\<lambda>_.
        bindE (reap_crashed_orphans E) (\<lambda>_.
        bindE (core (store_get (en_engine E) (key_bytes KQuotaBytes))) (\<lambda>qb.
        bindE (core (store_get (en_engine E) (key_bytes KQuotaInodes))) (\<lambda>qi.
        bindE (alloc_load (en_engine E)) (\<lambda>alloc.
        returnE (\<lambda>st.
          \<lparr>v_store = st, v_superblock = sb, v_health = health_new (Some (sb_fsid sb)), v_dek = dek,
           v_range_locks = Map.empty, v_quota = quota_new (decode_counter qb) (decode_counter qi) (vr_quota record),
           v_alloc = alloc, v_handles = handles_empty, v_chunk_size = ucast (sb_chunk_size sb),
           v_attrs = attr_cache_default, v_readahead = []\<rparr>))))))))))"

section \<open>Calls on a mounted volume\<close>

definition in_store :: "('db store, 'e, 'a) act \<Rightarrow> ('db volume, 'e, 'a) act" where
  "in_store m s = (case m (v_store s) of (r, st) \<Rightarrow> (r, s\<lparr>v_store := st\<rparr>))"

definition in_health :: "(health, 'e, 'a) act \<Rightarrow> ('db volume, 'e, 'a) act" where
  "in_health m s = (case m (v_health s) of (r, h) \<Rightarrow> (r, s\<lparr>v_health := h\<rparr>))"

definition ensure_live :: "('db volume, fs_error, unit) act" where
  "ensure_live s = (health_ensure_live (v_health s), s)"

definition map_storage :: "slatedb_error + 'a \<Rightarrow> ('db volume, fs_error, 'a) act" where
  "map_storage r = in_health (health_map_storage r)"

definition map_core :: "core_error + 'a \<Rightarrow> ('db volume, fs_error, 'a) act" where
  "map_core r = in_health (health_map_core r)"

text \<open>An engine call through \<open>map_storage\<close>, a core operation through \<open>map_core\<close>.\<close>

definition storage :: "('db store, slatedb_error, 'a) act \<Rightarrow> ('db volume, fs_error, 'a) act" where
  "storage m = bindE (attemptE (in_store m)) map_storage"

definition storage_core :: "('db store, core_error, 'a) act \<Rightarrow> ('db volume, fs_error, 'a) act" where
  "storage_core m = bindE (attemptE (in_store m)) map_core"

definition vnow :: "'db env \<Rightarrow> ('db volume, 'e, timespec) act" where
  "vnow E = in_store (store_now E)"

definition v_reserve :: "'db env \<Rightarrow> i64 \<Rightarrow> i64 \<Rightarrow> ('db volume, fs_error, unit) act" where
  "v_reserve E db di s =
     (case quota_reserve (en_unix E (st_ticks (v_store s))) db di (v_quota s) of
        (r, q) \<Rightarrow> (r, s\<lparr>v_quota := q, v_store := tick (v_store s)\<rparr>))"

definition v_release :: "i64 \<Rightarrow> i64 \<Rightarrow> ('db volume, 'e, unit) act" where
  "v_release db di = modifyE (\<lambda>s. s\<lparr>v_quota := quota_release db di (v_quota s)\<rparr>)"

definition v_check_not_over :: "'db env \<Rightarrow> ('db volume, fs_error, unit) act" where
  "v_check_not_over E s =
     (case quota_check_not_over (en_unix E (st_ticks (v_store s))) (v_quota s) of
        (r, q) \<Rightarrow> (r, s\<lparr>v_quota := q, v_store := tick (v_store s)\<rparr>))"

definition on_attrs :: "(attr_cache \<Rightarrow> attr_cache) \<Rightarrow> ('db volume, 'e, unit) act" where
  "on_attrs f = modifyE (\<lambda>s. s\<lparr>v_attrs := f (v_attrs s)\<rparr>)"

text \<open>\<open>Volume::reap_orphan\<close>, with \<open>?\<close> from the core error.\<close>

definition reap_orphan :: "'db env \<Rightarrow> u64 \<Rightarrow> ('db volume, fs_error, unit) act" where
  "reap_orphan E ino = mapErrE fs_error_of_core (in_store (reap_orphan_data (en_engine E) ino))"

definition volume_flush :: "'db env \<Rightarrow> ('db volume, core_error, unit) act" where
  "volume_flush E =
     bindE (attemptE (in_store (store_flush (en_engine E)))) (\<lambda>r.
       case r of
         Inl e \<Rightarrow> bindE (modifyE (\<lambda>s. s\<lparr>v_health := note_storage_error e (v_health s)\<rparr>)) (\<lambda>_. throwE (E_SlateDb e))
       | Inr _ \<Rightarrow> returnE ())"

definition set_quota_limits :: "quota_limits \<Rightarrow> ('db volume, 'e, bool) act" where
  "set_quota_limits limits s =
     (case quota_set_limits limits (v_quota s) of (changed, q) \<Rightarrow> (Inr changed, s\<lparr>v_quota := q\<rparr>))"

end
