(* ===== verification/Vfs_Base.thy ===== *)
theory Vfs_Base
  imports Volume
begin

text \<open>
  The private helpers of \<^verbatim>\<open>crates/slatefs-core/src/vfs_impl.rs\<close>: permission checks, loading of
  records, the shared entry-creation path, the death of an inode, access times and
  the read-ahead detector.
\<close>

unbundle bit_operations_syntax

section \<open>Pure checks\<close>

definition ACCESS_R :: u32 where "ACCESS_R = 4"
definition ACCESS_W :: u32 where "ACCESS_W = 2"
definition ACCESS_X :: u32 where "ACCESS_X = 1"
definition NOMINAL_BYTES :: u64 where "NOMINAL_BYTES = 0x1000000000000000"
definition NOMINAL_INODES :: u64 where "NOMINAL_INODES = 0x100000000"
definition STATFS_BSIZE :: u32 where "STATFS_BSIZE = 4096"
definition MAX_XATTR_VALUE :: nat where "MAX_XATTR_VALUE = 64 * 1024"
definition READAHEAD_WINDOW_CHUNKS :: u32 where "READAHEAD_WINDOW_CHUNKS = 8"
definition RELATIME_SECS :: int where "RELATIME_SECS = 24 * 3600"
definition NANOS_PER_SEC :: int where "NANOS_PER_SEC = 1000000000"
definition RELATIME_NANOS :: int where "RELATIME_NANOS = RELATIME_SECS * NANOS_PER_SEC"

text \<open>In 128 bits nothing overflows: seconds are 64 bits and the factor is 30.\<close>

definition older_than :: "timespec \<Rightarrow> timespec \<Rightarrow> int \<Rightarrow> bool" where
  "older_than atime now age_nanos =
     (age_nanos < (sint (ts_secs now) - sint (ts_secs atime)) * NANOS_PER_SEC
        + int (unat (ts_nanos now)) - int (unat (ts_nanos atime)))"

fun atime_update_due :: "atime_mode \<Rightarrow> inode \<Rightarrow> timespec \<Rightarrow> bool" where
  "atime_update_due Strict i ts = True"
| "atime_update_due Relatime i ts =
     (i_atime i < i_mtime i \<or> i_atime i < i_ctime i \<or> older_than (i_atime i) ts RELATIME_NANOS)"
| "atime_update_due Noatime i ts = False"

definition validate_name :: "bytes \<Rightarrow> fs_error + unit" where
  "validate_name name =
     (if name = [] \<or> name = [46] \<or> name = [46, 46] then Inl Invalid
      else if MAX_NAME_LEN < length name then Inl NameTooLong
      else if 47 \<in> set name \<or> 0 \<in> set name then Inl Invalid
      else Inr ())"

definition access :: "credentials \<Rightarrow> inode \<Rightarrow> u32 \<Rightarrow> fs_error + unit" where
  "access creds i want =
     (if is_privileged creds then Inr ()
      else
        let bits = (if c_uid creds = i_uid i then drop_bit 6 (i_mode i) AND 7
                    else if in_group creds (i_gid i) then drop_bit 3 (i_mode i) AND 7
                    else i_mode i AND 7)
        in if bits AND want = want then Inr () else Inl AccessDenied)"

definition readahead_scan_bounds :: "u32 \<Rightarrow> u32 \<Rightarrow> u32 \<Rightarrow> (u32 \<times> u32) option" where
  "readahead_scan_bounds prefetched_to cur_chunk last_file_chunk =
     (let wanted = min (saturating_add cur_chunk READAHEAD_WINDOW_CHUNKS) last_file_chunk
      in if wanted \<le> prefetched_to \<or> saturating_add cur_chunk 2 < prefetched_to then None
         else let from = saturating_add (max prefetched_to cur_chunk) 1
              in if wanted < from then None else Some (from, saturating_add wanted 1))"

definition check_sticky :: "credentials \<Rightarrow> inode \<Rightarrow> inode \<Rightarrow> fs_error + unit" where
  "check_sticky creds parent child =
     (if i_mode parent AND 0x200 \<noteq> 0 \<and> \<not> is_privileged creds \<and>
         c_uid creds \<noteq> i_uid child \<and> c_uid creds \<noteq> i_uid parent
      then Inl NotPermitted else Inr ())"

definition div_ceil :: "u64 \<Rightarrow> u64 \<Rightarrow> u64" where
  "div_ceil a b = (if a mod b \<noteq> 0 then a div b + 1 else a div b)"

definition make_attr :: "u64 \<Rightarrow> inode \<Rightarrow> file_attr" where
  "make_attr ino i =
     \<lparr>a_ino = ino, a_kind = i_kind i, a_mode = i_mode i, a_nlink = i_nlink i, a_uid = i_uid i,
      a_gid = i_gid i, a_size = i_size i, a_atime = i_atime i, a_mtime = i_mtime i, a_ctime = i_ctime i,
      a_rdev = i_rdev i, a_generation = i_generation i, a_blocks = div_ceil (i_billed_bytes i) 512\<rparr>"

definition new_node_ids :: "credentials \<Rightarrow> inode \<Rightarrow> file_kind \<Rightarrow> u32 \<Rightarrow> u32 \<times> u32 \<times> u32" where
  "new_node_ids creds parent kind mode =
     (let uid = c_uid creds;
          gid = (if i_mode parent AND 0x400 \<noteq> 0 then i_gid parent else c_gid creds);
          mode' = (if is_dir kind \<and> i_mode parent AND 0x400 \<noteq> 0 then mode OR 0x400 else mode)
      in (uid, gid, mode'))"

section \<open>Storage access\<close>

definition db_get :: "'db env \<Rightarrow> bytes \<Rightarrow> ('db volume, fs_error, bytes option) act" where
  "db_get E k = bindE ensure_live (\<lambda>_. storage (store_get (en_engine E) k))"

definition db_scan ::
  "'db env \<Rightarrow> bytes \<Rightarrow> bytes \<Rightarrow> ('db volume, fs_error, (bytes \<times> bytes) list) act" where
  "db_scan E lo hi = bindE ensure_live (\<lambda>_. storage (store_scan (en_engine E) lo hi))"

definition iter_next :: "'db env \<Rightarrow> ('db volume, fs_error, unit) act" where
  "iter_next E = bindE ensure_live (\<lambda>_. storage (store_next (en_engine E)))"

definition commit :: "'db env \<Rightarrow> batch_op list \<Rightarrow> ('db volume, fs_error, unit) act" where
  "commit E batch = bindE ensure_live (\<lambda>_. storage (store_write (en_engine E) batch))"

text \<open>\<open>?\<close> on a codec or cipher result: the core error becomes \<open>EIO\<close>.\<close>

abbreviation coreR :: "core_error + 'a \<Rightarrow> ('db volume, fs_error, 'a) act" where
  "coreR r \<equiv> mapErrE fs_error_of_core (liftE r)"

definition load_inode :: "'db env \<Rightarrow> u64 \<Rightarrow> ('db volume, fs_error, inode) act" where
  "load_inode E ino =
     bindE (db_get E (key_bytes (KInode ino))) (\<lambda>v.
       case v of Some bs \<Rightarrow> coreR (inode_decode (en_codecs E) bs) | None \<Rightarrow> throwE Stale)"

definition load_dir :: "'db env \<Rightarrow> u64 \<Rightarrow> ('db volume, fs_error, inode) act" where
  "load_dir E ino =
     bindE (load_inode E ino) (\<lambda>i. if is_dir (i_kind i) then returnE i else throwE NotDir)"

definition attrs_get :: "'db env \<Rightarrow> u64 \<Rightarrow> ('db volume, 'e, inode option) act" where
  "attrs_get E ino s =
     (case cache_get (en_evict_attr E (st_ticks (v_store s))) ino (v_attrs s) of
        (r, c) \<Rightarrow> (Inr r, s\<lparr>v_attrs := c, v_store := tick (v_store s)\<rparr>))"

definition attrs_is_negative :: "'db env \<Rightarrow> u64 \<Rightarrow> bytes \<Rightarrow> ('db volume, 'e, bool) act" where
  "attrs_is_negative E parent name s =
     (case cache_is_negative (en_evict_neg E (st_ticks (v_store s))) parent name (v_attrs s) of
        (r, c) \<Rightarrow> (Inr r, s\<lparr>v_attrs := c, v_store := tick (v_store s)\<rparr>))"

definition load_inode_cached :: "'db env \<Rightarrow> u64 \<Rightarrow> ('db volume, fs_error, inode) act" where
  "load_inode_cached E ino =
     bindE ensure_live (\<lambda>_.
     bindE (attrs_get E ino) (\<lambda>hit.
       case hit of
         Some i \<Rightarrow> returnE i
       | None \<Rightarrow>
           bindE (load_inode E ino) (\<lambda>i.
           bindE (on_attrs (cache_insert ino i)) (\<lambda>_. returnE i))))"

definition load_dir_cached :: "'db env \<Rightarrow> u64 \<Rightarrow> ('db volume, fs_error, inode) act" where
  "load_dir_cached E ino =
     bindE (load_inode_cached E ino) (\<lambda>i. if is_dir (i_kind i) then returnE i else throwE NotDir)"

definition seal :: "'db env \<Rightarrow> u64 \<Rightarrow> bytes \<Rightarrow> ('db volume, fs_error, bytes) act" where
  "seal E parent name s = coreR (seal_name (en_siv E) (v_dek s) parent name) s"

definition dirent_of :: "'db env \<Rightarrow> u64 \<Rightarrow> bytes \<Rightarrow> ('db volume, fs_error, dirent option) act" where
  "dirent_of E parent name =
     bindE (seal E parent name) (\<lambda>enc.
     bindE (db_get E (key_bytes (KDirent parent enc))) (\<lambda>v.
       case v of
         Some bs \<Rightarrow> bindE (coreR (dirent_decode (en_codecs E) bs)) (\<lambda>d. returnE (Some d))
       | None \<Rightarrow> returnE None))"

section \<open>Read-ahead\<close>

text \<open>
  The detector's state; the prefetch task it spawns only warms the engine's block cache and
  is left out. \<open>plan_readahead\<close> returns the chunk range that task would scan.
\<close>

definition readahead_default :: readahead_state where
  "readahead_default = \<lparr>ra_expected = 0, ra_prefetched_to = 0\<rparr>"

definition readahead_step ::
  "u64 \<Rightarrow> u64 \<Rightarrow> u64 \<Rightarrow> u64 \<Rightarrow> readahead_state \<Rightarrow> (u32 \<times> u32) option \<times> readahead_state" where
  "readahead_step cs off stop sz st =
     (let cur_chunk = chunk_of (stop - 1) cs
      in if off \<noteq> ra_expected st
         then (None, \<lparr>ra_expected = stop, ra_prefetched_to = cur_chunk\<rparr>)
         else case readahead_scan_bounds (ra_prefetched_to st) cur_chunk (chunk_of (sz - 1) cs) of
                None \<Rightarrow> (None, st\<lparr>ra_expected := stop\<rparr>)
              | Some (from, to_exclusive) \<Rightarrow>
                  (Some (from, to_exclusive), \<lparr>ra_expected = stop, ra_prefetched_to = to_exclusive - 1\<rparr>))"

definition plan_readahead :: "u64 \<Rightarrow> u64 \<Rightarrow> u64 \<Rightarrow> u64 \<Rightarrow> ('db volume, 'e, (u32 \<times> u32) option) act" where
  "plan_readahead ino off stop sz s =
     (if stop = 0 \<or> sz \<le> stop then (Inr None, s)
      else
        let m = (if 4096 < length (v_readahead s) then [] else v_readahead s);
            st = (case map_of m ino of None \<Rightarrow> readahead_default | Some st \<Rightarrow> st)
        in case readahead_step (v_chunk_size s) off stop sz st of
             (r, st') \<Rightarrow> (Inr r, s\<lparr>v_readahead := AList.update ino st' m\<rparr>))"

section \<open>Creating and burying inodes\<close>

definition alloc_ino :: "'db env \<Rightarrow> ('db volume, fs_error, u64) act" where
  "alloc_ino E =
     bindE ensure_live (\<lambda>_.
     bindE (getsE v_alloc) (\<lambda>a.
       case allocate a of
         ((ino, renew), a') \<Rightarrow>
           bindE (modifyE (\<lambda>s. s\<lparr>v_alloc := a'\<rparr>)) (\<lambda>_.
           bindE (case renew of
                    Some lease_end \<Rightarrow> storage (store_write (en_engine E) [Put (key_bytes KNextIno) (be64 lease_end)])
                  | None \<Rightarrow> returnE ()) (\<lambda>_.
             returnE ino))))"

definition insert_new_node ::
  "'db env \<Rightarrow> u64 \<Rightarrow> inode \<Rightarrow> bytes \<Rightarrow> u64 \<Rightarrow> inode \<Rightarrow> bytes option \<Rightarrow> ('db volume, fs_error, unit) act" where
  "insert_new_node E parent_ino parent0 name child_ino child symlink_target =
     bindE (v_reserve E 0 1) (\<lambda>_.
     bindE (vnow E) (\<lambda>ts.
     let dirent_id = i_next_dirent_id parent0;
         parent1 = touch_mtime ts (parent0\<lparr>i_next_dirent_id := i_next_dirent_id parent0 + 1\<rparr>);
         parent = (if is_dir (i_kind child) then parent1\<lparr>i_nlink := i_nlink parent1 + 1\<rparr> else parent1)
     in
     bindE (seal E parent_ino name) (\<lambda>enc.
     bindE (coreR (inode_encode (en_codecs E) child)) (\<lambda>child_bs.
     bindE (coreR (dirent_encode (en_codecs E)
       \<lparr>d_name = name, d_child_ino = child_ino, d_kind = i_kind child, d_dirent_id = dirent_id\<rparr>)) (\<lambda>dirent_bs.
     bindE (coreR (dirent_idx_encode (en_codecs E)
       \<lparr>e_enc_name = enc, e_child_ino = child_ino, e_kind = i_kind child\<rparr>)) (\<lambda>idx_bs.
     bindE (coreR (inode_encode (en_codecs E) parent)) (\<lambda>parent_bs.
     bindE (attemptE (commit E
       ([Put (key_bytes (KInode child_ino)) child_bs,
         Put (key_bytes (KDirent parent_ino enc)) dirent_bs,
         Put (key_bytes (KDirentIdx parent_ino dirent_id)) idx_bs,
         Put (key_bytes (KInode parent_ino)) parent_bs] @
        (case symlink_target of None \<Rightarrow> [] | Some target \<Rightarrow> [Put (key_bytes (KSymlink child_ino)) target]) @
        [Merge (key_bytes KQuotaInodes) (encode_delta 1)]))) (\<lambda>r.
       case r of
         Inl e \<Rightarrow> bindE (v_release 0 1) (\<lambda>_. throwE e)
       | Inr _ \<Rightarrow>
           bindE (on_attrs (cache_insert child_ino child)) (\<lambda>_.
           bindE (on_attrs (cache_insert parent_ino parent)) (\<lambda>_.
             on_attrs (cache_remove_negative parent_ino name)))))))))))"

text \<open>The operations bury adds to the caller's batch, whether to reap, and the quota deltas.\<close>

definition bury_inode ::
  "'db env \<Rightarrow> u64 \<Rightarrow> inode \<Rightarrow> ('db volume, fs_error, batch_op list \<times> bool \<times> i64 \<times> i64) act" where
  "bury_inode E ino i =
     bindE (coreR (orphan_encode (en_codecs E) \<lparr>o_size = i_size i, o_kind = i_kind i\<rparr>)) (\<lambda>orphan_bs.
     bindE (getsE (\<lambda>s. is_open ino (v_handles s))) (\<lambda>opened.
       if opened then
         bindE (vnow E) (\<lambda>ts.
         bindE (coreR (inode_encode (en_codecs E) (i\<lparr>i_nlink := 0, i_ctime := ts\<rparr>))) (\<lambda>dead_bs.
           returnE ([Put (key_bytes (KOrphan ino)) orphan_bs, Put (key_bytes (KInode ino)) dead_bs], False, 0, 0)))
       else
         returnE (Put (key_bytes (KOrphan ino)) orphan_bs # bury_batch ino i, True, - i_billed_bytes i, - 1)))"

definition finish_orphan :: "'db env \<Rightarrow> u64 \<Rightarrow> ('db volume, fs_error, unit) act" where
  "finish_orphan E ino =
     bindE (db_get E (key_bytes (KInode ino))) (\<lambda>v.
     bindE (case v of
              Some bs \<Rightarrow>
                bindE (coreR (inode_decode (en_codecs E) bs)) (\<lambda>i.
                bindE (commit E (bury_batch ino i)) (\<lambda>_.
                  v_reserve E (- i_billed_bytes i) (- 1)))
            | None \<Rightarrow> returnE ()) (\<lambda>_.
     bindE (on_attrs (cache_remove ino)) (\<lambda>_.
       reap_orphan E ino)))"

text \<open>Access-time updates are best effort: nothing they do is reported.\<close>

definition maybe_update_atime :: "'db env \<Rightarrow> u64 \<Rightarrow> inode \<Rightarrow> atime_mode \<Rightarrow> ('db volume, 'e, unit) act" where
  "maybe_update_atime E ino i policy =
     bindE (vnow E) (\<lambda>ts.
       if \<not> atime_update_due policy i ts then returnE ()
       else
         bindE (attemptE (in_store (store_get (en_engine E) (key_bytes (KInode ino))))) (\<lambda>r.
           case r of
             Inl e \<Rightarrow> modifyE (\<lambda>s. s\<lparr>v_health := note_storage_error e (v_health s)\<rparr>)
           | Inr None \<Rightarrow> returnE ()
           | Inr (Some bs) \<Rightarrow>
               (case inode_decode (en_codecs E) bs of
                  Inl _ \<Rightarrow> returnE ()
                | Inr current \<Rightarrow>
                    if atime_update_due policy current ts then
                      let current' = current\<lparr>i_atime := ts\<rparr>
                      in case inode_encode (en_codecs E) current' of
                           Inl _ \<Rightarrow> returnE ()
                         | Inr encoded \<Rightarrow>
                             bindE (attemptE (commit E [Put (key_bytes (KInode ino)) encoded])) (\<lambda>c.
                               case c of
                                 Inl _ \<Rightarrow> returnE ()
                               | Inr _ \<Rightarrow> on_attrs (cache_insert ino current'))
                    else returnE ())))"

end
