(* ===== verification/Vfs_Data.thy ===== *)
theory Vfs_Data
  imports Vfs_Base
begin

text \<open>
  The operations of \<^verbatim>\<open>crates/slatefs-core/src/vfs_impl.rs\<close> on one inode: permissions,
  attributes, file data, extended attributes, usage, handles and advisory locks. An
  operation that takes a lock runs as one step while it holds it.
\<close>

unbundle bit_operations_syntax

section \<open>Attributes\<close>

definition permissions ::
  "'db env \<Rightarrow> credentials \<Rightarrow> u64 \<Rightarrow> (u64 \<times> bytes) option \<Rightarrow> ('db volume, fs_error, entry_permissions) act" where
  "permissions E creds ino parent =
     bindE (load_inode E ino) (\<lambda>i.
     bindE (case parent of
              Some (parent_ino, name) \<Rightarrow>
                bindE (liftE (validate_name name)) (\<lambda>_.
                bindE (load_inode E parent_ino) (\<lambda>dir.
                  returnE (\<not> isl (access creds dir (ACCESS_W OR ACCESS_X)) \<and> \<not> isl (check_sticky creds dir i))))
            | None \<Rightarrow> returnE False) (\<lambda>parent_mutation.
       returnE \<lparr>ep_can_read = \<not> isl (access creds i ACCESS_R), ep_can_write = \<not> isl (access creds i ACCESS_W),
                ep_can_delete = parent_mutation, ep_can_rename = parent_mutation\<rparr>))"

definition lookup :: "'db env \<Rightarrow> credentials \<Rightarrow> u64 \<Rightarrow> bytes \<Rightarrow> ('db volume, fs_error, file_attr) act" where
  "lookup E creds parent name =
     bindE (load_dir_cached E parent) (\<lambda>dir.
     bindE (liftE (access creds dir ACCESS_X)) (\<lambda>_.
       if name = [46] then returnE (make_attr parent dir)
       else if name = [46, 46] then
         bindE (load_inode_cached E (i_parent_dir dir)) (\<lambda>upnode.
           returnE (make_attr (i_parent_dir dir) upnode))
       else
         bindE (liftE (validate_name name)) (\<lambda>_.
         bindE (attrs_is_negative E parent name) (\<lambda>negative.
           if negative then throwE NotFound
           else
             bindE (dirent_of E parent name) (\<lambda>d.
               case d of
                 Some d \<Rightarrow>
                   bindE (mapErrE (\<lambda>_. NotFound) (load_inode_cached E (d_child_ino d))) (\<lambda>i.
                     returnE (make_attr (d_child_ino d) i))
               | None \<Rightarrow> bindE (on_attrs (cache_insert_negative parent name)) (\<lambda>_. throwE NotFound))))))"

definition getattr :: "'db env \<Rightarrow> credentials \<Rightarrow> u64 \<Rightarrow> ('db volume, fs_error, file_attr) act" where
  "getattr E creds ino = bindE (load_inode_cached E ino) (\<lambda>i. returnE (make_attr ino i))"

text \<open>The permission gates of \<open>setattr\<close>, one per attribute, on the inode in memory.\<close>

definition setattr_mode :: "credentials \<Rightarrow> bool \<Rightarrow> u32 option \<Rightarrow> inode \<Rightarrow> fs_error + inode" where
  "setattr_mode creds is_owner m i =
     (case m of
        None \<Rightarrow> Inr i
      | Some m \<Rightarrow>
          if \<not> is_privileged creds \<and> \<not> is_owner then Inl NotPermitted
          else
            let mode = m AND 0xFFF;
                mode' = (if \<not> is_privileged creds \<and> \<not> in_group creds (i_gid i) then mode AND NOT 0x400 else mode)
            in Inr (i\<lparr>i_mode := mode'\<rparr>))"

definition setattr_uid :: "credentials \<Rightarrow> bool \<Rightarrow> u32 option \<Rightarrow> inode \<Rightarrow> fs_error + inode" where
  "setattr_uid creds is_owner u i =
     (case u of
        None \<Rightarrow> Inr i
      | Some uid \<Rightarrow>
          if is_privileged creds \<or> (is_owner \<and> uid = i_uid i) then Inr (i\<lparr>i_uid := uid\<rparr>) else Inl NotPermitted)"

definition setattr_gid :: "credentials \<Rightarrow> bool \<Rightarrow> u32 option \<Rightarrow> inode \<Rightarrow> fs_error + inode" where
  "setattr_gid creds is_owner g i =
     (case g of
        None \<Rightarrow> Inr i
      | Some gid \<Rightarrow>
          let owner_with_group = (is_owner \<and> (gid = i_gid i \<or> in_group creds gid))
          in if \<not> is_privileged creds \<and> \<not> owner_with_group then Inl NotPermitted
             else
               let i' = (if \<not> is_root creds \<and> gid \<noteq> i_gid i then i\<lparr>i_mode := i_mode i AND NOT 0xC00\<rparr> else i)
               in Inr (i'\<lparr>i_gid := gid\<rparr>))"

text \<open>One turn of the loop over the two times; \<open>atime\<close> tells which it is.\<close>

definition set_time_of :: "bool \<Rightarrow> timespec \<Rightarrow> inode \<Rightarrow> inode" where
  "set_time_of atime t i = (if atime then i\<lparr>i_atime := t\<rparr> else i\<lparr>i_mtime := t\<rparr>)"

definition setattr_time ::
  "credentials \<Rightarrow> bool \<Rightarrow> timespec \<Rightarrow> bool \<Rightarrow> time_set option \<Rightarrow> inode \<Rightarrow> fs_error + inode" where
  "setattr_time creds is_owner ts atime slot i =
     (case slot of
        None \<Rightarrow> Inr i
      | Some Now \<Rightarrow>
          (case (if \<not> is_privileged creds \<and> \<not> is_owner then access creds i ACCESS_W else Inr ()) of
             Inl e \<Rightarrow> Inl e
           | Inr _ \<Rightarrow> Inr (set_time_of atime ts i))
      | Some (Time t) \<Rightarrow>
          if \<not> is_privileged creds \<and> \<not> is_owner then Inl NotPermitted else Inr (set_time_of atime t i))"

definition INLINE_DELETES :: nat where "INLINE_DELETES = 1024"

text \<open>The size part: the new inode, its part of the batch, the quota delta and the late deletes.\<close>

definition setattr_size ::
  "'db env \<Rightarrow> credentials \<Rightarrow> u64 \<Rightarrow> timespec \<Rightarrow> u64 option \<Rightarrow> inode \<Rightarrow>
   ('db volume, fs_error, inode \<times> batch_op list \<times> i64 \<times> u32 list) act" where
  "setattr_size E creds ino ts sz i =
     (case sz of
        None \<Rightarrow> returnE (i, [], 0, [])
      | Some new_size \<Rightarrow>
          if i_kind i = Dir then throwE IsDir
          else if i_kind i \<noteq> File then throwE Invalid
          else
            bindE (liftE (access creds i ACCESS_W)) (\<lambda>_.
              if new_size = i_size i then returnE (i, [], 0, [])
              else
                bindE (getsE v_chunk_size) (\<lambda>cs.
                bindE (storage_core (plan_truncate (en_engine E) cs ino (i_size i) new_size)) (\<lambda>plan.
                bindE (v_reserve E (tp_billed_delta plan) 0) (\<lambda>_.
                  returnE
                    (i\<lparr>i_size := new_size, i_billed_bytes := i_billed_bytes i + tp_billed_delta plan, i_mtime := ts\<rparr>,
                     (case tp_tail_put plan of Some (idx, bytes) \<Rightarrow> [Put (key_bytes (KChunk ino idx)) bytes] | None \<Rightarrow> []) @
                     map (\<lambda>idx. Delete (key_bytes (KChunk ino idx))) (take INLINE_DELETES (tp_deletes plan)) @
                     (if tp_billed_delta plan \<noteq> 0
                      then [Merge (key_bytes KQuotaBytes) (encode_delta (tp_billed_delta plan))] else []),
                     tp_billed_delta plan, drop INLINE_DELETES (tp_deletes plan)))))))"

text \<open>\<open>slice::chunks(1024)\<close> and the follow-up batches.\<close>

function groups_of :: "u32 list \<Rightarrow> u32 list list" where
  "groups_of idxs = (if idxs = [] then [] else take INLINE_DELETES idxs # groups_of (drop INLINE_DELETES idxs))"
  by auto
termination by (relation "measure length") (auto simp: INLINE_DELETES_def)

declare groups_of.simps [simp del]

fun commit_deletes :: "'db env \<Rightarrow> u64 \<Rightarrow> u32 list list \<Rightarrow> ('db volume, fs_error, unit) act" where
  "commit_deletes E ino [] = returnE ()"
| "commit_deletes E ino (g # gs) =
     bindE (commit E (map (\<lambda>idx. Delete (key_bytes (KChunk ino idx))) g)) (\<lambda>_. commit_deletes E ino gs)"

definition setattr ::
  "'db env \<Rightarrow> credentials \<Rightarrow> u64 \<Rightarrow> set_attrs \<Rightarrow> ('db volume, fs_error, file_attr) act" where
  "setattr E creds ino attrs =
     bindE (load_inode E ino) (\<lambda>i0.
     bindE (vnow E) (\<lambda>ts.
     let is_owner = (c_uid creds = i_uid i0) in
     bindE (liftE (setattr_mode creds is_owner (s_mode attrs) i0)) (\<lambda>i1.
     bindE (liftE (setattr_uid creds is_owner (s_uid attrs) i1)) (\<lambda>i2.
     bindE (liftE (setattr_gid creds is_owner (s_gid attrs) i2)) (\<lambda>i3.
     bindE (liftE (setattr_time creds is_owner ts True (s_atime attrs) i3)) (\<lambda>i4.
     bindE (liftE (setattr_time creds is_owner ts False (s_mtime attrs) i4)) (\<lambda>i5.
     bindE (setattr_size E creds ino ts (s_size attrs) i5) (\<lambda>(i6, ops, quota_delta, spill_deletes).
     let i = i6\<lparr>i_ctime := ts\<rparr> in
     bindE (coreR (inode_encode (en_codecs E) i)) (\<lambda>bs.
     bindE (attemptE (commit E (ops @ [Put (key_bytes (KInode ino)) bs]))) (\<lambda>r.
       case r of
         Inl e \<Rightarrow> bindE (v_release quota_delta 0) (\<lambda>_. throwE e)
       | Inr _ \<Rightarrow>
           bindE (on_attrs (cache_insert ino i)) (\<lambda>_.
           bindE (commit_deletes E ino (groups_of spill_deletes)) (\<lambda>_.
             returnE (make_attr ino i)))))))))))))"

section \<open>File data\<close>

definition read_with_atime_policy ::
  "'db env \<Rightarrow> credentials \<Rightarrow> u64 \<Rightarrow> u64 \<Rightarrow> u32 \<Rightarrow> atime_mode \<Rightarrow> ('db volume, fs_error, bytes) act" where
  "read_with_atime_policy E creds ino off len policy =
     bindE (load_inode_cached E ino) (\<lambda>i.
       if i_kind i = Dir then throwE IsDir
       else if i_kind i \<noteq> File then throwE Invalid
       else
         bindE (liftE (access creds i ACCESS_R)) (\<lambda>_.
         bindE (getsE v_chunk_size) (\<lambda>cs.
         bindE (storage_core (read_range (en_engine E) cs ino (i_size i) off len)) (\<lambda>bytes.
         bindE (plan_readahead ino off (off + of_nat (length bytes)) (i_size i)) (\<lambda>_.
         bindE (maybe_update_atime E ino i policy) (\<lambda>_.
           returnE bytes))))))"

definition vfs_read :: "'db env \<Rightarrow> credentials \<Rightarrow> u64 \<Rightarrow> u64 \<Rightarrow> u32 \<Rightarrow> ('db volume, fs_error, bytes) act" where
  "vfs_read E creds ino off len = read_with_atime_policy E creds ino off len Relatime"

definition vfs_write ::
  "'db env \<Rightarrow> credentials \<Rightarrow> u64 \<Rightarrow> u64 \<Rightarrow> bytes \<Rightarrow> ('db volume, fs_error, u32) act" where
  "vfs_write E creds ino off dat =
     (if dat = [] then returnE 0
      else
        bindE (liftE (case checked_add off (of_nat (length dat)) of
                        None \<Rightarrow> Inl FileTooBig | Some stop \<Rightarrow> Inr stop)) (\<lambda>stop.
        bindE (getsE v_chunk_size) (\<lambda>cs.
          if cs * 0xFFFFFFFF < stop then throwE FileTooBig
          else
            bindE (load_inode E ino) (\<lambda>i0.
              if i_kind i0 \<noteq> File then throwE (if is_dir (i_kind i0) then IsDir else Invalid)
              else
                bindE (liftE (access creds i0 ACCESS_W)) (\<lambda>_.
                bindE (storage_core (plan_write (en_engine E) cs ino (i_size i0) off dat)) (\<lambda>plan.
                bindE (v_reserve E (wpl_billed_delta plan) 0) (\<lambda>_.
                bindE (vnow E) (\<lambda>ts.
                let i1 = touch_mtime ts (i0\<lparr>i_size := wpl_new_size plan,
                                           i_billed_bytes := i_billed_bytes i0 + wpl_billed_delta plan\<rparr>);
                    i = (if \<not> is_root creds \<and> i_mode i1 AND 0xC00 \<noteq> 0
                         then i1\<lparr>i_mode := i_mode i1 AND NOT 0xC00\<rparr> else i1)
                in
                bindE (coreR (inode_encode (en_codecs E) i)) (\<lambda>bs.
                bindE (attemptE (commit E
                  (chunk_puts ino (wpl_puts plan) @ [Put (key_bytes (KInode ino)) bs] @
                   (if wpl_billed_delta plan \<noteq> 0
                    then [Merge (key_bytes KQuotaBytes) (encode_delta (wpl_billed_delta plan))] else [])))) (\<lambda>r.
                  case r of
                    Inl e \<Rightarrow> bindE (v_release (wpl_billed_delta plan) 0) (\<lambda>_. throwE e)
                  | Inr _ \<Rightarrow>
                      bindE (on_attrs (cache_insert ino i)) (\<lambda>_.
                        returnE (of_nat (length dat)))))))))))))"

section \<open>Extended attributes\<close>

definition getxattr :: "'db env \<Rightarrow> credentials \<Rightarrow> u64 \<Rightarrow> bytes \<Rightarrow> ('db volume, fs_error, bytes) act" where
  "getxattr E creds ino name =
     (if name = [] \<or> MAX_NAME_LEN < length name then throwE Invalid
      else
        bindE (load_inode E ino) (\<lambda>i.
        bindE (liftE (access creds i ACCESS_R)) (\<lambda>_.
        bindE (db_get E (key_bytes (KXattr ino name))) (\<lambda>v.
          case v of Some bytes \<Rightarrow> returnE bytes | None \<Rightarrow> throwE NoData))))"

definition setxattr ::
  "'db env \<Rightarrow> credentials \<Rightarrow> u64 \<Rightarrow> bytes \<Rightarrow> bytes \<Rightarrow> ('db volume, fs_error, unit) act" where
  "setxattr E creds ino name val =
     (if name = [] \<or> MAX_NAME_LEN < length name \<or> MAX_XATTR_VALUE < length val then throwE Invalid
      else
        bindE (v_check_not_over E) (\<lambda>_.
        bindE (load_inode E ino) (\<lambda>i0.
        bindE (liftE (access creds i0 ACCESS_W)) (\<lambda>_.
        bindE (vnow E) (\<lambda>ts.
        let i = i0\<lparr>i_ctime := ts\<rparr> in
        bindE (coreR (inode_encode (en_codecs E) i)) (\<lambda>bs.
        bindE (commit E [Put (key_bytes (KXattr ino name)) val, Put (key_bytes (KInode ino)) bs]) (\<lambda>_.
          on_attrs (cache_insert ino i))))))))"

text \<open>The names are the keys past the tag and the inode number, nine bytes.\<close>

fun xattr_names :: "'db env \<Rightarrow> (bytes \<times> bytes) list \<Rightarrow> bytes list \<Rightarrow> ('db volume, fs_error, bytes list) act" where
  "xattr_names E [] names = bindE (iter_next E) (\<lambda>_. returnE names)"
| "xattr_names E ((k, v) # kvs) names = bindE (iter_next E) (\<lambda>_. xattr_names E kvs (names @ [drop 9 k]))"

definition listxattr :: "'db env \<Rightarrow> credentials \<Rightarrow> u64 \<Rightarrow> ('db volume, fs_error, bytes list) act" where
  "listxattr E creds ino =
     bindE (load_inode E ino) (\<lambda>i.
     bindE (liftE (access creds i ACCESS_R)) (\<lambda>_.
     bindE (db_scan E (xattr_prefix ino) (xattr_prefix (ino + 1))) (\<lambda>kvs.
       xattr_names E kvs [])))"

definition removexattr :: "'db env \<Rightarrow> credentials \<Rightarrow> u64 \<Rightarrow> bytes \<Rightarrow> ('db volume, fs_error, unit) act" where
  "removexattr E creds ino name =
     (if name = [] \<or> MAX_NAME_LEN < length name then throwE Invalid
      else
        bindE (load_inode E ino) (\<lambda>i0.
        bindE (liftE (access creds i0 ACCESS_W)) (\<lambda>_.
        bindE (db_get E (key_bytes (KXattr ino name))) (\<lambda>v.
          if v = None then throwE NoData
          else
            bindE (vnow E) (\<lambda>ts.
            let i = i0\<lparr>i_ctime := ts\<rparr> in
            bindE (coreR (inode_encode (en_codecs E) i)) (\<lambda>bs.
            bindE (commit E [Delete (key_bytes (KXattr ino name)), Put (key_bytes (KInode ino)) bs]) (\<lambda>_.
              on_attrs (cache_insert ino i))))))))"

section \<open>Usage and durability\<close>

definition statfs_pair :: "u64 option \<Rightarrow> u64 \<Rightarrow> i64 \<Rightarrow> u64 \<times> u64" where
  "statfs_pair hard nominal used =
     (let total = (case hard of Some limit \<Rightarrow> limit | None \<Rightarrow> nominal)
      in (total, saturating_sub total (if sint used < 0 then 0 else used)))"

definition statfs :: "credentials \<Rightarrow> ('db volume, fs_error, stat_fs) act" where
  "statfs creds =
     bindE ensure_live (\<lambda>_.
     bindE (getsE (\<lambda>s. quota_usage (v_quota s))) (\<lambda>usage.
     bindE (getsE (\<lambda>s. qt_limits (v_quota s))) (\<lambda>limits.
     let b = statfs_pair (ql_hard (ql_bytes limits)) NOMINAL_BYTES (fst usage);
         n = statfs_pair (ql_hard (ql_inodes limits)) NOMINAL_INODES (snd usage)
     in returnE \<lparr>sf_block_size = STATFS_BSIZE, sf_total_bytes = fst b, sf_free_bytes = snd b,
                 sf_avail_bytes = snd b, sf_total_inodes = fst n, sf_free_inodes = snd n\<rparr>)))"

definition fsync :: "'db env \<Rightarrow> credentials \<Rightarrow> u64 \<Rightarrow> ('db volume, fs_error, unit) act" where
  "fsync E creds ino = bindE ensure_live (\<lambda>_. storage (store_flush (en_engine E)))"

section \<open>Handles and advisory locks\<close>

fun open_want :: "open_mode \<Rightarrow> u32" where
  "open_want OpenRead = ACCESS_R"
| "open_want OpenWrite = ACCESS_W"
| "open_want OpenReadWrite = ACCESS_R OR ACCESS_W"

definition vfs_open :: "'db env \<Rightarrow> credentials \<Rightarrow> u64 \<Rightarrow> open_mode \<Rightarrow> ('db volume, fs_error, u64) act" where
  "vfs_open E creds ino mode =
     bindE (load_inode E ino) (\<lambda>i.
     bindE (liftE (access creds i (open_want mode))) (\<lambda>_ s.
       case handle_open ino mode (v_handles s) of (h, t) \<Rightarrow> (Inr h, s\<lparr>v_handles := t\<rparr>)))"

definition close_handle :: "u64 \<Rightarrow> ('db volume, 'e, (u64 \<times> open_mode \<times> bool) option) act" where
  "close_handle h s = (case handle_close h (v_handles s) of (r, t) \<Rightarrow> (Inr r, s\<lparr>v_handles := t\<rparr>))"

definition vfs_close :: "'db env \<Rightarrow> u64 \<Rightarrow> ('db volume, fs_error, unit) act" where
  "vfs_close E h =
     bindE (close_handle h) (\<lambda>closed.
       case closed of
         None \<Rightarrow> throwE BadHandle
       | Some (ino, _, final) \<Rightarrow>
           bindE (modifyE (\<lambda>s. s\<lparr>v_range_locks := unlock_owner h (v_range_locks s)\<rparr>)) (\<lambda>_.
           bindE (getsE (\<lambda>s. h_dead (v_health s))) (\<lambda>dead.
             if final \<and> \<not> dead then
               bindE (db_get E (key_bytes (KOrphan ino))) (\<lambda>v.
                 if v \<noteq> None then finish_orphan E ino else returnE ())
             else returnE ())))"

text \<open>The guards the three lock calls share; the inode of the handle.\<close>

definition lock_target :: "u64 \<Rightarrow> u64 \<Rightarrow> u64 \<Rightarrow> ('db volume, fs_error, u64) act" where
  "lock_target h start stop =
     bindE ensure_live (\<lambda>_.
       if stop \<le> start then throwE Invalid
       else
         bindE (getsE (\<lambda>s. handle_get h (v_handles s))) (\<lambda>found.
           case found of None \<Rightarrow> throwE BadHandle | Some (ino, _) \<Rightarrow> returnE ino))"

definition vfs_lock :: "u64 \<Rightarrow> u64 \<Rightarrow> u64 \<Rightarrow> bool \<Rightarrow> ('db volume, fs_error, unit) act" where
  "vfs_lock h start stop exclusive =
     bindE (lock_target h start stop) (\<lambda>ino s.
       case try_lock ino \<lparr>rl_owner = h, rl_range = \<lparr>lr_start = start, lr_end = stop\<rparr>, rl_exclusive = exclusive\<rparr>
              (v_range_locks s) of
         (r, t) \<Rightarrow> (case r of Inl _ \<Rightarrow> Inl WouldBlock | Inr _ \<Rightarrow> Inr (), s\<lparr>v_range_locks := t\<rparr>))"

definition vfs_unlock :: "u64 \<Rightarrow> u64 \<Rightarrow> u64 \<Rightarrow> ('db volume, fs_error, unit) act" where
  "vfs_unlock h start stop =
     bindE (lock_target h start stop) (\<lambda>ino.
       modifyE (\<lambda>s. s\<lparr>v_range_locks := range_unlock ino h \<lparr>lr_start = start, lr_end = stop\<rparr> (v_range_locks s)\<rparr>))"

definition vfs_testlock ::
  "u64 \<Rightarrow> u64 \<Rightarrow> u64 \<Rightarrow> bool \<Rightarrow> ('db volume, fs_error, (u64 \<times> u64 \<times> bool) option) act" where
  "vfs_testlock h start stop exclusive =
     bindE (lock_target h start stop) (\<lambda>ino.
       getsE (\<lambda>s. map_option (\<lambda>l. (lr_start (rl_range l), lr_end (rl_range l), rl_exclusive l))
         (lock_test ino \<lparr>rl_owner = h, rl_range = \<lparr>lr_start = start, lr_end = stop\<rparr>, rl_exclusive = exclusive\<rparr>
           (v_range_locks s))))"

end
