(* ===== verification/Vfs_Names.thy ===== *)
theory Vfs_Names
  imports Vfs_Data
begin

text \<open>
  The operations of \<^verbatim>\<open>crates/slatefs-core/src/vfs_impl.rs\<close> on directories. \<open>unlink\<close>,
  \<open>rmdir\<close> and \<open>rename\<close> read the entries, wait for the locks, read again and start over if
  the entries changed. What other operations do to the volume during the wait is an
  argument, a list of functions, one per wait; a call that finds the list used up has not
  returned yet, which is the result \<open>None\<close>. A single \<open>id\<close> is a wait nothing happens in.
\<close>

unbundle bit_operations_syntax

section \<open>Creating entries\<close>

definition create ::
  "'db env \<Rightarrow> credentials \<Rightarrow> u64 \<Rightarrow> bytes \<Rightarrow> u32 \<Rightarrow> bool \<Rightarrow> ('db volume, fs_error, file_attr) act" where
  "create E creds parent name mode exclusive =
     bindE (liftE (validate_name name)) (\<lambda>_.
     bindE (load_dir E parent) (\<lambda>dir.
     bindE (liftE (access creds dir (ACCESS_W OR ACCESS_X))) (\<lambda>_.
     bindE (dirent_of E parent name) (\<lambda>existing.
       case existing of
         Some existing \<Rightarrow>
           if exclusive then throwE Exists
           else
             bindE (load_inode E (d_child_ino existing)) (\<lambda>i.
               if is_dir (i_kind i) then throwE IsDir
               else
                 bindE (liftE (access creds i ACCESS_W)) (\<lambda>_.
                   returnE (make_attr (d_child_ino existing) i)))
       | None \<Rightarrow>
           (case new_node_ids creds dir File mode of (uid, gid, mode') \<Rightarrow>
              bindE (alloc_ino E) (\<lambda>child_ino.
              bindE (vnow E) (\<lambda>ts.
              let child = inode_new File mode' uid gid ts in
              bindE (insert_new_node E parent dir name child_ino child None) (\<lambda>_.
                returnE (make_attr child_ino child)))))))))"

text \<open>The part \<open>mkdir\<close>, \<open>mknod\<close> and \<open>symlink\<close> share: a free name in a writable directory.\<close>

definition free_entry :: "'db env \<Rightarrow> credentials \<Rightarrow> u64 \<Rightarrow> bytes \<Rightarrow> ('db volume, fs_error, inode) act" where
  "free_entry E creds parent name =
     bindE (load_dir E parent) (\<lambda>dir.
     bindE (liftE (access creds dir (ACCESS_W OR ACCESS_X))) (\<lambda>_.
     bindE (dirent_of E parent name) (\<lambda>d.
       if d \<noteq> None then throwE Exists else returnE dir)))"

definition mkdir ::
  "'db env \<Rightarrow> credentials \<Rightarrow> u64 \<Rightarrow> bytes \<Rightarrow> u32 \<Rightarrow> ('db volume, fs_error, file_attr) act" where
  "mkdir E creds parent name mode =
     bindE (liftE (validate_name name)) (\<lambda>_.
     bindE (free_entry E creds parent name) (\<lambda>dir.
       case new_node_ids creds dir Dir mode of (uid, gid, mode') \<Rightarrow>
         bindE (alloc_ino E) (\<lambda>child_ino.
         bindE (vnow E) (\<lambda>ts.
         let child = (inode_new Dir mode' uid gid ts)\<lparr>i_parent_dir := parent\<rparr> in
         bindE (insert_new_node E parent dir name child_ino child None) (\<lambda>_.
           returnE (make_attr child_ino child))))))"

definition mknod_allowed :: "credentials \<Rightarrow> file_kind \<Rightarrow> fs_error + unit" where
  "mknod_allowed creds kind =
     (case kind of
        Fifo \<Rightarrow> Inr () | Socket \<Rightarrow> Inr () | File \<Rightarrow> Inr ()
      | CharDev \<Rightarrow> if is_root creds then Inr () else Inl NotPermitted
      | BlockDev \<Rightarrow> if is_root creds then Inr () else Inl NotPermitted
      | Dir \<Rightarrow> Inl Invalid | Symlink \<Rightarrow> Inl Invalid)"

definition mknod ::
  "'db env \<Rightarrow> credentials \<Rightarrow> u64 \<Rightarrow> bytes \<Rightarrow> u32 \<Rightarrow> file_kind \<Rightarrow> u64 \<Rightarrow>
   ('db volume, fs_error, file_attr) act" where
  "mknod E creds parent name mode kind rdev =
     bindE (liftE (validate_name name)) (\<lambda>_.
     bindE (liftE (mknod_allowed creds kind)) (\<lambda>_.
     bindE (free_entry E creds parent name) (\<lambda>dir.
       case new_node_ids creds dir kind mode of (uid, gid, mode') \<Rightarrow>
         bindE (alloc_ino E) (\<lambda>child_ino.
         bindE (vnow E) (\<lambda>ts.
         let child = (inode_new kind mode' uid gid ts)\<lparr>i_rdev := rdev\<rparr> in
         bindE (insert_new_node E parent dir name child_ino child None) (\<lambda>_.
           returnE (make_attr child_ino child)))))))"

definition symlink ::
  "'db env \<Rightarrow> credentials \<Rightarrow> u64 \<Rightarrow> bytes \<Rightarrow> bytes \<Rightarrow> ('db volume, fs_error, file_attr) act" where
  "symlink E creds parent name target =
     bindE (liftE (validate_name name)) (\<lambda>_.
       if target = [] \<or> 4096 < length target then throwE Invalid
       else
         bindE (free_entry E creds parent name) (\<lambda>dir.
           case new_node_ids creds dir Symlink 0x1FF of (uid, gid, _) \<Rightarrow>
             bindE (alloc_ino E) (\<lambda>child_ino.
             bindE (vnow E) (\<lambda>ts.
             let child = (inode_new Symlink 0x1FF uid gid ts)\<lparr>i_size := of_nat (length target)\<rparr> in
             bindE (insert_new_node E parent dir name child_ino child (Some target)) (\<lambda>_.
               returnE (make_attr child_ino child))))))"

definition readlink :: "'db env \<Rightarrow> credentials \<Rightarrow> u64 \<Rightarrow> ('db volume, fs_error, bytes) act" where
  "readlink E creds ino =
     bindE (load_inode E ino) (\<lambda>i.
       if i_kind i \<noteq> Symlink then throwE Invalid
       else
         bindE (db_get E (key_bytes (KSymlink ino))) (\<lambda>v.
           case v of Some bytes \<Rightarrow> returnE bytes | None \<Rightarrow> throwE Io))"

definition link ::
  "'db env \<Rightarrow> credentials \<Rightarrow> u64 \<Rightarrow> u64 \<Rightarrow> bytes \<Rightarrow> ('db volume, fs_error, file_attr) act" where
  "link E creds ino new_parent new_name =
     bindE (liftE (validate_name new_name)) (\<lambda>_.
     bindE (load_inode E ino) (\<lambda>i0.
       if is_dir (i_kind i0) then throwE NotPermitted
       else
         bindE (free_entry E creds new_parent new_name) (\<lambda>dir0.
         bindE (vnow E) (\<lambda>ts.
         bindE (liftE (case checked_add (i_nlink i0) 1 of None \<Rightarrow> Inl TooManyLinks | Some n \<Rightarrow> Inr n)) (\<lambda>nlink.
         let i = i0\<lparr>i_nlink := nlink, i_ctime := ts\<rparr>;
             dirent_id = i_next_dirent_id dir0;
             dir = touch_mtime ts (dir0\<lparr>i_next_dirent_id := i_next_dirent_id dir0 + 1\<rparr>)
         in
         bindE (seal E new_parent new_name) (\<lambda>enc.
         bindE (coreR (inode_encode (en_codecs E) i)) (\<lambda>inode_bs.
         bindE (coreR (dirent_encode (en_codecs E)
           \<lparr>d_name = new_name, d_child_ino = ino, d_kind = i_kind i, d_dirent_id = dirent_id\<rparr>)) (\<lambda>dirent_bs.
         bindE (coreR (dirent_idx_encode (en_codecs E)
           \<lparr>e_enc_name = enc, e_child_ino = ino, e_kind = i_kind i\<rparr>)) (\<lambda>idx_bs.
         bindE (coreR (inode_encode (en_codecs E) dir)) (\<lambda>dir_bs.
         bindE (commit E
           [Put (key_bytes (KInode ino)) inode_bs,
            Put (key_bytes (KDirent new_parent enc)) dirent_bs,
            Put (key_bytes (KDirentIdx new_parent dirent_id)) idx_bs,
            Put (key_bytes (KInode new_parent)) dir_bs]) (\<lambda>_.
         bindE (on_attrs (cache_insert ino i)) (\<lambda>_.
         bindE (on_attrs (cache_insert new_parent dir)) (\<lambda>_.
         bindE (on_attrs (cache_remove_negative new_parent new_name)) (\<lambda>_.
           returnE (make_attr ino i)))))))))))))))"

section \<open>Removing entries\<close>

definition ignoring :: "('s, 'e, 'a) act \<Rightarrow> ('s, 'f, unit) act" where
  "ignoring m = bindE (attemptE m) (\<lambda>_. returnE ())"

definition same_entry :: "dirent \<Rightarrow> dirent \<Rightarrow> bool" where
  "same_entry d d2 = (d_child_ino d2 = d_child_ino d \<and> d_dirent_id d2 = d_dirent_id d)"

text \<open>The body of \<open>unlink\<close> once the locks are held and the entry is confirmed.\<close>

definition unlink_locked ::
  "'db env \<Rightarrow> credentials \<Rightarrow> u64 \<Rightarrow> bytes \<Rightarrow> dirent \<Rightarrow> ('db volume, fs_error, unit) act" where
  "unlink_locked E creds parent name d =
     bindE (load_dir E parent) (\<lambda>dir0.
     bindE (liftE (access creds dir0 (ACCESS_W OR ACCESS_X))) (\<lambda>_.
     bindE (mapErrE (\<lambda>_. Io) (load_inode E (d_child_ino d))) (\<lambda>child0.
       if is_dir (i_kind child0) then throwE IsDir
       else
         bindE (liftE (check_sticky creds dir0 child0)) (\<lambda>_.
         bindE (vnow E) (\<lambda>ts.
         let dir = touch_mtime ts dir0 in
         bindE (seal E parent name) (\<lambda>enc.
         bindE (coreR (inode_encode (en_codecs E) dir)) (\<lambda>dir_bs.
         let child = child0\<lparr>i_nlink := i_nlink child0 - 1\<rparr> in
         bindE (if i_nlink child = 0 then bury_inode E (d_child_ino d) child
                else
                  bindE (coreR (inode_encode (en_codecs E) (child\<lparr>i_ctime := ts\<rparr>))) (\<lambda>child_bs.
                    returnE ([Put (key_bytes (KInode (d_child_ino d))) child_bs], False, 0, 0)))
           (\<lambda>(ops, reap, qb, qi).
         bindE (commit E
           ([Delete (key_bytes (KDirent parent enc)),
             Delete (key_bytes (KDirentIdx parent (d_dirent_id d))),
             Put (key_bytes (KInode parent)) dir_bs] @ ops)) (\<lambda>_.
         bindE (on_attrs (cache_insert parent dir)) (\<lambda>_.
         bindE (on_attrs (cache_remove (d_child_ino d))) (\<lambda>_.
         bindE (on_attrs (cache_insert_negative parent name)) (\<lambda>_.
         bindE (ignoring (v_reserve E qb qi)) (\<lambda>_.
           if reap then reap_orphan E (d_child_ino d) else returnE ())))))))))))))"

fun unlink_loop ::
  "'db env \<Rightarrow> credentials \<Rightarrow> u64 \<Rightarrow> bytes \<Rightarrow> ('db volume \<Rightarrow> 'db volume) list \<Rightarrow>
   ('db volume, fs_error, unit option) act" where
  "unlink_loop E creds parent name [] = returnE None"
| "unlink_loop E creds parent name (others # waits) =
     bindE (dirent_of E parent name) (\<lambda>found.
       case found of
         None \<Rightarrow> throwE NotFound
       | Some d \<Rightarrow>
           bindE (modifyE others) (\<lambda>_.
           bindE (dirent_of E parent name) (\<lambda>found2.
             case found2 of
               None \<Rightarrow> throwE NotFound
             | Some d2 \<Rightarrow>
                 if \<not> same_entry d d2 then unlink_loop E creds parent name waits
                 else bindE (unlink_locked E creds parent name d) (\<lambda>u. returnE (Some u)))))"

definition unlink ::
  "'db env \<Rightarrow> credentials \<Rightarrow> u64 \<Rightarrow> bytes \<Rightarrow> ('db volume \<Rightarrow> 'db volume) list \<Rightarrow>
   ('db volume, fs_error, unit option) act" where
  "unlink E creds parent name waits =
     bindE (liftE (validate_name name)) (\<lambda>_. unlink_loop E creds parent name waits)"

text \<open>An empty directory has no entry key; \<open>iter_next\<close> is called once.\<close>

definition check_empty :: "'db env \<Rightarrow> u64 \<Rightarrow> ('db volume, fs_error, unit) act" where
  "check_empty E ino =
     bindE (db_scan E (dirent_prefix ino) (dirent_prefix (ino + 1))) (\<lambda>kvs.
     bindE (iter_next E) (\<lambda>_. if kvs \<noteq> [] then throwE NotEmpty else returnE ()))"

fun xattr_deletes :: "'db env \<Rightarrow> (bytes \<times> bytes) list \<Rightarrow> batch_op list \<Rightarrow> ('db volume, fs_error, batch_op list) act" where
  "xattr_deletes E [] ops = bindE (iter_next E) (\<lambda>_. returnE ops)"
| "xattr_deletes E ((k, v) # kvs) ops = bindE (iter_next E) (\<lambda>_. xattr_deletes E kvs (ops @ [Delete k]))"

definition rmdir_locked ::
  "'db env \<Rightarrow> credentials \<Rightarrow> u64 \<Rightarrow> bytes \<Rightarrow> dirent \<Rightarrow> ('db volume, fs_error, unit) act" where
  "rmdir_locked E creds parent name d =
     bindE (load_dir E parent) (\<lambda>dir0.
     bindE (liftE (access creds dir0 (ACCESS_W OR ACCESS_X))) (\<lambda>_.
     bindE (mapErrE (\<lambda>_. Io) (load_inode E (d_child_ino d))) (\<lambda>child.
       if \<not> is_dir (i_kind child) then throwE NotDir
       else
         bindE (liftE (check_sticky creds dir0 child)) (\<lambda>_.
         bindE (check_empty E (d_child_ino d)) (\<lambda>_.
         bindE (vnow E) (\<lambda>ts.
         let dir1 = touch_mtime ts dir0; dir = dir1\<lparr>i_nlink := i_nlink dir1 - 1\<rparr> in
         bindE (seal E parent name) (\<lambda>enc.
         bindE (db_scan E (xattr_prefix (d_child_ino d)) (xattr_prefix (d_child_ino d + 1))) (\<lambda>kvs.
         bindE (xattr_deletes E kvs []) (\<lambda>xattrs.
         bindE (coreR (inode_encode (en_codecs E) dir)) (\<lambda>dir_bs.
         bindE (commit E
           ([Delete (key_bytes (KDirent parent enc)),
             Delete (key_bytes (KDirentIdx parent (d_dirent_id d))),
             Delete (key_bytes (KInode (d_child_ino d)))] @ xattrs @
            [Put (key_bytes (KInode parent)) dir_bs,
             Merge (key_bytes KQuotaInodes) (encode_delta (- 1))])) (\<lambda>_.
         bindE (on_attrs (cache_insert parent dir)) (\<lambda>_.
         bindE (on_attrs (cache_remove (d_child_ino d))) (\<lambda>_.
         bindE (on_attrs (cache_insert_negative parent name)) (\<lambda>_.
           ignoring (v_reserve E 0 (- 1))))))))))))))))"

fun rmdir_loop ::
  "'db env \<Rightarrow> credentials \<Rightarrow> u64 \<Rightarrow> bytes \<Rightarrow> ('db volume \<Rightarrow> 'db volume) list \<Rightarrow>
   ('db volume, fs_error, unit option) act" where
  "rmdir_loop E creds parent name [] = returnE None"
| "rmdir_loop E creds parent name (others # waits) =
     bindE (dirent_of E parent name) (\<lambda>found.
       case found of
         None \<Rightarrow> throwE NotFound
       | Some d \<Rightarrow>
           bindE (modifyE others) (\<lambda>_.
           bindE (dirent_of E parent name) (\<lambda>found2.
             case found2 of
               None \<Rightarrow> throwE NotFound
             | Some d2 \<Rightarrow>
                 if \<not> same_entry d d2 then rmdir_loop E creds parent name waits
                 else bindE (rmdir_locked E creds parent name d) (\<lambda>u. returnE (Some u)))))"

definition rmdir ::
  "'db env \<Rightarrow> credentials \<Rightarrow> u64 \<Rightarrow> bytes \<Rightarrow> ('db volume \<Rightarrow> 'db volume) list \<Rightarrow>
   ('db volume, fs_error, unit option) act" where
  "rmdir E creds parent name waits =
     bindE (liftE (validate_name name)) (\<lambda>_. rmdir_loop E creds parent name waits)"

section \<open>Renaming\<close>

text \<open>
  The walk from the new parent to the root. It has no bound in the code; here it has
  \<open>fuel\<close> steps, and \<open>None\<close> is a walk that has not ended yet.
\<close>

fun cycle_walk :: "'db env \<Rightarrow> u64 \<Rightarrow> nat \<Rightarrow> u64 \<Rightarrow> ('db volume, fs_error, unit option) act" where
  "cycle_walk E src 0 cursor = returnE None"
| "cycle_walk E src (Suc fuel) cursor =
     (if cursor = src then throwE Invalid
      else if cursor = ROOT_INO then returnE (Some ())
      else
        bindE (mapErrE (\<lambda>_. Io) (load_inode E cursor)) (\<lambda>i.
          cycle_walk E src fuel (i_parent_dir i)))"

text \<open>What replacing the target adds to the batch; the new parent, what to reap, the quota deltas.\<close>

definition rename_target ::
  "'db env \<Rightarrow> credentials \<Rightarrow> timespec \<Rightarrow> u64 \<Rightarrow> bytes \<Rightarrow> inode \<Rightarrow> inode \<Rightarrow> dirent \<Rightarrow>
   ('db volume, fs_error, batch_op list \<times> inode \<times> u64 option \<times> i64 \<times> i64) act" where
  "rename_target E creds ts new_parent new_name moved new_dir dstd =
     bindE (mapErrE (\<lambda>_. Io) (load_inode E (d_child_ino dstd))) (\<lambda>target0.
     bindE (liftE (check_sticky creds new_dir target0)) (\<lambda>_.
     bindE
       (if is_dir (i_kind moved) \<and> \<not> is_dir (i_kind target0) then throwE NotDir
        else if \<not> is_dir (i_kind moved) \<and> is_dir (i_kind target0) then throwE IsDir
        else if is_dir (i_kind moved) then
          bindE (check_empty E (d_child_ino dstd)) (\<lambda>_.
            returnE ([Delete (key_bytes (KInode (d_child_ino dstd))),
                      Merge (key_bytes KQuotaInodes) (encode_delta (- 1))],
                     new_dir\<lparr>i_nlink := i_nlink new_dir - 1\<rparr>, None, 0, - 1))
        else
          let target = target0\<lparr>i_nlink := i_nlink target0 - 1\<rparr> in
          if i_nlink target = 0 then
            bindE (bury_inode E (d_child_ino dstd) target) (\<lambda>(ops, do_reap, b, n).
              returnE (ops, new_dir, if do_reap then Some (d_child_ino dstd) else None, b, n))
          else
            bindE (coreR (inode_encode (en_codecs E) (target\<lparr>i_ctime := ts\<rparr>))) (\<lambda>target_bs.
              returnE ([Put (key_bytes (KInode (d_child_ino dstd))) target_bs], new_dir, None, 0, 0)))
       (\<lambda>(ops, dir, reap, qb, qi).
     bindE (seal E new_parent new_name) (\<lambda>dst_enc.
       returnE (ops @ [Delete (key_bytes (KDirent new_parent dst_enc)),
                       Delete (key_bytes (KDirentIdx new_parent (d_dirent_id dstd)))],
                dir, reap, qb, qi)))))"

text \<open>The rest of the body, from the time stamp on: one batch, then the bookkeeping.\<close>

definition rename_commit ::
  "'db env \<Rightarrow> credentials \<Rightarrow> u64 \<Rightarrow> bytes \<Rightarrow> u64 \<Rightarrow> bytes \<Rightarrow> dirent \<Rightarrow> dirent option \<Rightarrow>
   inode \<Rightarrow> inode \<Rightarrow> inode \<Rightarrow> ('db volume, fs_error, unit) act" where
  "rename_commit E creds old_parent old_name new_parent new_name src dst old_dir0 new_dir0 moved0 =
     (let same_parent = (old_parent = new_parent) in
     bindE (vnow E) (\<lambda>ts.
     bindE (case dst of
              Some dstd \<Rightarrow> rename_target E creds ts new_parent new_name moved0 new_dir0 dstd
            | None \<Rightarrow> returnE ([], new_dir0, None, 0, 0)) (\<lambda>(target_ops, new_dir1, reap, qb, qi).
     bindE (seal E old_parent old_name) (\<lambda>src_enc.
     let new_id = i_next_dirent_id new_dir1;
         new_dir2 = new_dir1\<lparr>i_next_dirent_id := i_next_dirent_id new_dir1 + 1\<rparr>
     in
     bindE (seal E new_parent new_name) (\<lambda>new_enc.
     bindE (coreR (dirent_encode (en_codecs E)
       \<lparr>d_name = new_name, d_child_ino = d_child_ino src, d_kind = i_kind moved0, d_dirent_id = new_id\<rparr>)) (\<lambda>dirent_bs.
     bindE (coreR (dirent_idx_encode (en_codecs E)
       \<lparr>e_enc_name = new_enc, e_child_ino = d_child_ino src, e_kind = i_kind moved0\<rparr>)) (\<lambda>idx_bs.
     let dir_moves = (is_dir (i_kind moved0) \<and> \<not> same_parent);
         old_dir1 = (if dir_moves then old_dir0\<lparr>i_nlink := i_nlink old_dir0 - 1\<rparr> else old_dir0);
         new_dir3 = (if dir_moves then new_dir2\<lparr>i_nlink := i_nlink new_dir2 + 1\<rparr> else new_dir2);
         moved1 = (if dir_moves then moved0\<lparr>i_parent_dir := new_parent\<rparr> else moved0);
         moved = moved1\<lparr>i_ctime := ts\<rparr>;
         old_dir = touch_mtime ts old_dir1;
         new_dir = touch_mtime ts new_dir3
     in
     bindE (coreR (inode_encode (en_codecs E) moved)) (\<lambda>moved_bs.
     bindE (if same_parent then
              bindE (coreR (inode_encode (en_codecs E) new_dir)) (\<lambda>new_bs.
                returnE [Put (key_bytes (KInode new_parent)) new_bs])
            else
              bindE (coreR (inode_encode (en_codecs E) old_dir)) (\<lambda>old_bs.
              bindE (coreR (inode_encode (en_codecs E) new_dir)) (\<lambda>new_bs.
                returnE [Put (key_bytes (KInode old_parent)) old_bs, Put (key_bytes (KInode new_parent)) new_bs]))) (\<lambda>dir_ops.
     bindE (commit E
       (target_ops @
        [Delete (key_bytes (KDirent old_parent src_enc)),
         Delete (key_bytes (KDirentIdx old_parent (d_dirent_id src))),
         Put (key_bytes (KDirent new_parent new_enc)) dirent_bs,
         Put (key_bytes (KDirentIdx new_parent new_id)) idx_bs,
         Put (key_bytes (KInode (d_child_ino src))) moved_bs] @ dir_ops)) (\<lambda>_.
     bindE (on_attrs (cache_insert (d_child_ino src) moved)) (\<lambda>_.
     bindE (if same_parent then on_attrs (cache_insert new_parent new_dir)
            else bindE (on_attrs (cache_insert old_parent old_dir)) (\<lambda>_. on_attrs (cache_insert new_parent new_dir))) (\<lambda>_.
     bindE (case dst of Some dstd \<Rightarrow> on_attrs (cache_remove (d_child_ino dstd)) | None \<Rightarrow> returnE ()) (\<lambda>_.
     bindE (on_attrs (cache_insert_negative old_parent old_name)) (\<lambda>_.
     bindE (on_attrs (cache_remove_negative new_parent new_name)) (\<lambda>_.
     bindE (ignoring (v_reserve E qb qi)) (\<lambda>_.
       case reap of Some ino \<Rightarrow> reap_orphan E ino | None \<Rightarrow> returnE ()))))))))))))))))"

text \<open>The checks under the locks; \<open>None\<close> when the walk to the root ran out of fuel.\<close>

definition rename_locked ::
  "'db env \<Rightarrow> nat \<Rightarrow> credentials \<Rightarrow> u64 \<Rightarrow> bytes \<Rightarrow> u64 \<Rightarrow> bytes \<Rightarrow> dirent \<Rightarrow> dirent option \<Rightarrow>
   ('db volume, fs_error, unit option) act" where
  "rename_locked E fuel creds old_parent old_name new_parent new_name src dst =
     (if (case dst of Some d \<Rightarrow> d_child_ino d = d_child_ino src | None \<Rightarrow> False) then returnE (Some ())
      else if old_parent = new_parent \<and> old_name = new_name then returnE (Some ())
      else
        bindE (load_dir E old_parent) (\<lambda>old_dir.
        bindE (liftE (access creds old_dir (ACCESS_W OR ACCESS_X))) (\<lambda>_.
        bindE (if old_parent = new_parent then returnE old_dir
               else
                 bindE (load_dir E new_parent) (\<lambda>d.
                 bindE (liftE (access creds d (ACCESS_W OR ACCESS_X))) (\<lambda>_. returnE d))) (\<lambda>new_dir.
        bindE (mapErrE (\<lambda>_. Io) (load_inode E (d_child_ino src))) (\<lambda>moved.
        bindE (liftE (check_sticky creds old_dir moved)) (\<lambda>_.
        bindE (if is_dir (i_kind moved) \<and> old_parent \<noteq> new_parent then liftE (access creds moved ACCESS_W)
               else returnE ()) (\<lambda>_.
        bindE (if is_dir (i_kind moved) \<and> old_parent \<noteq> new_parent
               then cycle_walk E (d_child_ino src) fuel new_parent else returnE (Some ())) (\<lambda>walk.
          case walk of
            None \<Rightarrow> returnE None
          | Some _ \<Rightarrow>
              bindE (rename_commit E creds old_parent old_name new_parent new_name src dst old_dir new_dir moved) (\<lambda>u.
                returnE (Some u))))))))))"

fun rename_loop ::
  "'db env \<Rightarrow> nat \<Rightarrow> credentials \<Rightarrow> u64 \<Rightarrow> bytes \<Rightarrow> u64 \<Rightarrow> bytes \<Rightarrow> ('db volume \<Rightarrow> 'db volume) list \<Rightarrow>
   ('db volume, fs_error, unit option) act" where
  "rename_loop E fuel creds old_parent old_name new_parent new_name [] = returnE None"
| "rename_loop E fuel creds old_parent old_name new_parent new_name (others # waits) =
     bindE (dirent_of E old_parent old_name) (\<lambda>src.
       case src of
         None \<Rightarrow> throwE NotFound
       | Some src \<Rightarrow>
           bindE (dirent_of E new_parent new_name) (\<lambda>dst.
           bindE (modifyE others) (\<lambda>_.
           bindE (dirent_of E old_parent old_name) (\<lambda>src2.
           bindE (dirent_of E new_parent new_name) (\<lambda>dst2.
             let entry = (\<lambda>d. (d_child_ino d, d_dirent_id d)) in
             if map_option entry src2 \<noteq> Some (entry src) \<or> map_option entry dst2 \<noteq> map_option entry dst
             then rename_loop E fuel creds old_parent old_name new_parent new_name waits
             else rename_locked E fuel creds old_parent old_name new_parent new_name src dst)))))"

definition rename ::
  "'db env \<Rightarrow> nat \<Rightarrow> credentials \<Rightarrow> u64 \<Rightarrow> bytes \<Rightarrow> u64 \<Rightarrow> bytes \<Rightarrow> ('db volume \<Rightarrow> 'db volume) list \<Rightarrow>
   ('db volume, fs_error, unit option) act" where
  "rename E fuel creds old_parent old_name new_parent new_name waits =
     bindE (liftE (validate_name old_name)) (\<lambda>_.
     bindE (liftE (validate_name new_name)) (\<lambda>_.
       rename_loop E fuel creds old_parent old_name new_parent new_name waits))"

section \<open>Listing\<close>

definition unseal :: "'db env \<Rightarrow> u64 \<Rightarrow> bytes \<Rightarrow> ('db volume, fs_error, bytes) act" where
  "unseal E parent enc s = coreR (open_name (en_siv E) (v_dek s) parent enc) s"

fun readdir_entries ::
  "'db env \<Rightarrow> u64 \<Rightarrow> nat \<Rightarrow> (bytes \<times> bytes) list \<Rightarrow> dir_entry list \<Rightarrow> ('db volume, fs_error, read_dir) act" where
  "readdir_entries E parent max_entries [] entries =
     bindE (iter_next E) (\<lambda>_. returnE \<lparr>rd_entries = entries, rd_eof = True\<rparr>)"
| "readdir_entries E parent max_entries ((k, v) # kvs) entries =
     bindE (iter_next E) (\<lambda>_.
       if length entries = max_entries then returnE \<lparr>rd_entries = entries, rd_eof = False\<rparr>
       else
         case parse_dirent_idx k of
           None \<Rightarrow> throwE Io
         | Some (_, dirent_id) \<Rightarrow>
             bindE (coreR (dirent_idx_decode (en_codecs E) v)) (\<lambda>idx.
             bindE (unseal E parent (e_enc_name idx)) (\<lambda>name.
               readdir_entries E parent max_entries kvs
                 (entries @ [\<lparr>de_name = name, de_ino = e_child_ino idx, de_kind = e_kind idx, de_cookie = dirent_id\<rparr>]))))"

definition readdir ::
  "'db env \<Rightarrow> credentials \<Rightarrow> u64 \<Rightarrow> u64 \<Rightarrow> nat \<Rightarrow> ('db volume, fs_error, read_dir) act" where
  "readdir E creds parent cookie max_entries =
     bindE (load_dir_cached E parent) (\<lambda>dir.
     bindE (liftE (access creds dir ACCESS_R)) (\<lambda>_.
     bindE (db_scan E (key_bytes (KDirentIdx parent (saturating_add cookie 1)))
                      (key_bytes (KDirentIdx parent (- 1)))) (\<lambda>kvs.
       readdir_entries E parent max_entries kvs [])))"

end
