(* ===== verification/Vfs_View.thy ===== *)
theory Vfs_View
  imports Vfs_Names
begin

text \<open>
  The abstract file system a database stands for, and the rules by which the operations
  are verified. \<open>fs_of\<close> decodes every record and opens every name: inodes by number,
  entries by directory and plain name, and so on; the inode allocator's mark and the
  superblock are not part of it. The rules describe each storage access by its effect on
  the view; \<open>intro wp_rules\<close> walks through an operation and leaves one goal per way it
  can end.
\<close>

section \<open>The view\<close>

record fs =
  fs_inode :: "u64 \<rightharpoonup> inode"
  fs_dirent :: "u64 \<Rightarrow> bytes \<rightharpoonup> dirent"
  fs_index :: "u64 \<Rightarrow> u64 \<rightharpoonup> dirent_idx"
  fs_chunk :: "u64 \<Rightarrow> u32 \<rightharpoonup> bytes"
  fs_symlink :: "u64 \<rightharpoonup> bytes"
  fs_xattr :: "u64 \<Rightarrow> bytes \<rightharpoonup> bytes"
  fs_orphan :: "u64 \<rightharpoonup> orphan"
  fs_bytes :: i64
  fs_inodes :: i64

definition decoded :: "(bytes \<Rightarrow> core_error + 'a) \<Rightarrow> bytes option \<Rightarrow> 'a option" where
  "decoded dec v =
     (case v of None \<Rightarrow> None | Some bs \<Rightarrow> (case dec bs of Inl _ \<Rightarrow> None | Inr x \<Rightarrow> Some x))"

lemma decoded_simps [simp]:
  "decoded dec None = None"
  "dec bs = Inr x \<Longrightarrow> decoded dec (Some bs) = Some x"
  by (simp_all add: decoded_def)

text \<open>An orphan is known by its key: the reaper and the last close look no further.\<close>

definition orphan_view :: "codecs \<Rightarrow> bytes \<Rightarrow> orphan" where
  "orphan_view c bs = (case orphan_decode c bs of Inl _ \<Rightarrow> \<lparr>o_size = 0, o_kind = File\<rparr> | Inr x \<Rightarrow> x)"

definition fs_of :: "'db env \<Rightarrow> bytes \<Rightarrow> kv \<Rightarrow> fs" where
  "fs_of E dek m =
     \<lparr>fs_inode = (\<lambda>ino. decoded (inode_decode (en_codecs E)) (m (key_bytes (KInode ino)))),
      fs_dirent = (\<lambda>p name. case seal_name (en_siv E) dek p name of
         Inl _ \<Rightarrow> None | Inr enc \<Rightarrow> decoded (dirent_decode (en_codecs E)) (m (key_bytes (KDirent p enc)))),
      fs_index = (\<lambda>p i. decoded (dirent_idx_decode (en_codecs E)) (m (key_bytes (KDirentIdx p i)))),
      fs_chunk = (\<lambda>ino idx. m (key_bytes (KChunk ino idx))),
      fs_symlink = (\<lambda>ino. m (key_bytes (KSymlink ino))),
      fs_xattr = (\<lambda>ino name. m (key_bytes (KXattr ino name))),
      fs_orphan = (\<lambda>ino. map_option (orphan_view (en_codecs E)) (m (key_bytes (KOrphan ino)))),
      fs_bytes = decode_counter (m (key_bytes KQuotaBytes)),
      fs_inodes = decode_counter (m (key_bytes KQuotaInodes))\<rparr>"

abbreviation vcontents :: "'db env \<Rightarrow> 'db volume \<Rightarrow> kv" where
  "vcontents E s \<equiv> st_contents (en_engine E) (v_store s)"

abbreviation vfs :: "'db env \<Rightarrow> 'db volume \<Rightarrow> fs" where
  "vfs E s \<equiv> fs_of E (v_dek s) (vcontents E s)"

text \<open>The two counters hold what the merge operator accepts.\<close>

definition counters_ok :: "kv \<Rightarrow> bool" where
  "counters_ok m =
     ((\<forall>b. m (key_bytes KQuotaBytes) = Some b \<longrightarrow> length b = 8) \<and>
      (\<forall>b. m (key_bytes KQuotaInodes) = Some b \<longrightarrow> length b = 8))"

text \<open>What each record of a batch does to the view.\<close>

lemma fs_of_put [simp]:
  "inode_decode (en_codecs E) bs = Inr i \<Longrightarrow>
   fs_of E dek (m(key_bytes (KInode ino) \<mapsto> bs)) = (fs_of E dek m)\<lparr>fs_inode := (fs_inode (fs_of E dek m))(ino \<mapsto> i)\<rparr>"
  "dirent_idx_decode (en_codecs E) bs = Inr e \<Longrightarrow>
   fs_of E dek (m(key_bytes (KDirentIdx p n) \<mapsto> bs)) =
     (fs_of E dek m)\<lparr>fs_index := (fs_index (fs_of E dek m))(p := (fs_index (fs_of E dek m) p)(n \<mapsto> e))\<rparr>"
  "fs_of E dek (m(key_bytes (KChunk ino idx) \<mapsto> bs)) =
     (fs_of E dek m)\<lparr>fs_chunk := (fs_chunk (fs_of E dek m))(ino := (fs_chunk (fs_of E dek m) ino)(idx \<mapsto> bs))\<rparr>"
  "fs_of E dek (m(key_bytes (KSymlink ino) \<mapsto> bs)) =
     (fs_of E dek m)\<lparr>fs_symlink := (fs_symlink (fs_of E dek m))(ino \<mapsto> bs)\<rparr>"
  "fs_of E dek (m(key_bytes (KXattr ino name) \<mapsto> bs)) =
     (fs_of E dek m)\<lparr>fs_xattr := (fs_xattr (fs_of E dek m))(ino := (fs_xattr (fs_of E dek m) ino)(name \<mapsto> bs))\<rparr>"
  "orphan_decode (en_codecs E) bs = Inr x \<Longrightarrow>
   fs_of E dek (m(key_bytes (KOrphan ino) \<mapsto> bs)) = (fs_of E dek m)\<lparr>fs_orphan := (fs_orphan (fs_of E dek m))(ino \<mapsto> x)\<rparr>"
  "fs_of E dek (m(key_bytes KQuotaBytes \<mapsto> le64 d)) = (fs_of E dek m)\<lparr>fs_bytes := d\<rparr>"
  "fs_of E dek (m(key_bytes KQuotaInodes \<mapsto> le64 d)) = (fs_of E dek m)\<lparr>fs_inodes := d\<rparr>"
  "fs_of E dek (m(key_bytes KNextIno \<mapsto> bs)) = fs_of E dek m"
  by (simp_all add: fs_of_def orphan_view_def fun_eq_iff split: sum.splits)

lemma fs_of_delete [simp]:
  "fs_of E dek (m(key_bytes (KInode ino) := None)) =
     (fs_of E dek m)\<lparr>fs_inode := (fs_inode (fs_of E dek m))(ino := None)\<rparr>"
  "fs_of E dek (m(key_bytes (KDirentIdx p n) := None)) =
     (fs_of E dek m)\<lparr>fs_index := (fs_index (fs_of E dek m))(p := (fs_index (fs_of E dek m) p)(n := None))\<rparr>"
  "fs_of E dek (m(key_bytes (KChunk ino idx) := None)) =
     (fs_of E dek m)\<lparr>fs_chunk := (fs_chunk (fs_of E dek m))(ino := (fs_chunk (fs_of E dek m) ino)(idx := None))\<rparr>"
  "fs_of E dek (m(key_bytes (KSymlink ino) := None)) =
     (fs_of E dek m)\<lparr>fs_symlink := (fs_symlink (fs_of E dek m))(ino := None)\<rparr>"
  "fs_of E dek (m(key_bytes (KXattr ino name) := None)) =
     (fs_of E dek m)\<lparr>fs_xattr := (fs_xattr (fs_of E dek m))(ino := (fs_xattr (fs_of E dek m) ino)(name := None))\<rparr>"
  "fs_of E dek (m(key_bytes (KOrphan ino) := None)) =
     (fs_of E dek m)\<lparr>fs_orphan := (fs_orphan (fs_of E dek m))(ino := None)\<rparr>"
  by (simp_all add: fs_of_def fun_eq_iff split: sum.splits)

lemma seal_eq_iff:
  assumes "siv_ok c" "seal_name c dek p name = Inr enc"
  shows "seal_name c dek p n = Inr enc \<longleftrightarrow> n = name"
  using seal_name_inject [OF assms(1), of dek p n enc name] assms(2) by blast

lemma fs_of_dirent [simp]:
  assumes "siv_ok (en_siv E)" "seal_name (en_siv E) dek p name = Inr enc"
  shows "dirent_decode (en_codecs E) bs = Inr d \<Longrightarrow>
     fs_of E dek (m(key_bytes (KDirent p enc) \<mapsto> bs)) =
       (fs_of E dek m)\<lparr>fs_dirent := (fs_dirent (fs_of E dek m))(p := (fs_dirent (fs_of E dek m) p)(name \<mapsto> d))\<rparr>"
    "fs_of E dek (m(key_bytes (KDirent p enc) := None)) =
       (fs_of E dek m)\<lparr>fs_dirent := (fs_dirent (fs_of E dek m))(p := (fs_dirent (fs_of E dek m) p)(name := None))\<rparr>"
  using assms by (auto simp: fs_of_def fun_eq_iff split: sum.splits dest: seal_name_inject [OF assms(1)])

lemma counters_ok_put [simp]:
  "k \<noteq> KQuotaBytes \<Longrightarrow> k \<noteq> KQuotaInodes \<Longrightarrow> counters_ok (m(key_bytes k := v)) = counters_ok m"
  "counters_ok m \<Longrightarrow> counters_ok (m(key_bytes KQuotaBytes \<mapsto> le64 d))"
  "counters_ok m \<Longrightarrow> counters_ok (m(key_bytes KQuotaInodes \<mapsto> le64 d))"
  by (auto simp: counters_ok_def)

lemma merge_counters [simp]:
  assumes "counters_ok m"
  shows "counter_merge (m (key_bytes KQuotaBytes)) (encode_delta d) = Inr (le64 (decode_counter (m (key_bytes KQuotaBytes)) + d))"
    "counter_merge (m (key_bytes KQuotaInodes)) (encode_delta d) = Inr (le64 (decode_counter (m (key_bytes KQuotaInodes)) + d))"
  by (rule counter_merge_encode_delta; use assms in \<open>auto simp: counters_ok_def\<close>)+

lemma fs_counters:
  "fs_bytes (fs_of E dek m) = decode_counter (m (key_bytes KQuotaBytes))"
  "fs_inodes (fs_of E dek m) = decode_counter (m (key_bytes KQuotaInodes))"
  by (simp_all add: fs_of_def)

section \<open>Rules for the combinators\<close>

named_theorems wp_rules \<open>introduction rules of the weakest precondition\<close>
named_theorems wp_base \<open>rules for the storage accesses, given the environment's laws\<close>

lemma wp_returnI [wp_rules]: "Q x s \<Longrightarrow> wp (returnE x) Q R s"
  by (simp add: wp_simps)

lemma wp_throwI [wp_rules]: "R e s \<Longrightarrow> wp (throwE e) Q R s"
  by (simp add: wp_simps)

lemma wp_bindI [wp_rules]: "wp m (\<lambda>x. wp (f x) Q R) R s \<Longrightarrow> wp (bindE m f) Q R s"
  by (simp add: wp_simps)

lemma wp_liftI [wp_rules]:
  "(\<And>x. r = Inr x \<Longrightarrow> Q x s) \<Longrightarrow> (\<And>e. r = Inl e \<Longrightarrow> R e s) \<Longrightarrow> wp (liftE r) Q R s"
  by (simp add: wp_simps split: sum.split)

lemma wp_getsI [wp_rules]: "Q (f s) s \<Longrightarrow> wp (getsE f) Q R s"
  by (simp add: wp_simps)

lemma wp_modifyI [wp_rules]: "Q () (f s) \<Longrightarrow> wp (modifyE f) Q R s"
  by (simp add: wp_simps)

lemma wp_attemptI [wp_rules]: "wp m (\<lambda>x. Q (Inr x)) (\<lambda>e. Q (Inl e)) s \<Longrightarrow> wp (attemptE m) Q R s"
  by (simp add: wp_simps)

lemma wp_mapErrI [wp_rules]: "wp m Q (\<lambda>e. R (g e)) s \<Longrightarrow> wp (mapErrE g m) Q R s"
  by (simp add: wp_simps)

lemma wp_case_sumI [wp_rules]:
  "wp (f e) Q R s \<Longrightarrow> wp (case Inl e of Inl e \<Rightarrow> f e | Inr x \<Rightarrow> g x) Q R s"
  "wp (g x) Q R s \<Longrightarrow> wp (case Inr x of Inl e \<Rightarrow> f e | Inr x \<Rightarrow> g x) Q R s"
  "(\<And>e. r = Inl e \<Longrightarrow> wp (f e) Q R s) \<Longrightarrow> (\<And>x. r = Inr x \<Longrightarrow> wp (g x) Q R s) \<Longrightarrow>
   wp (case r of Inl e \<Rightarrow> f e | Inr x \<Rightarrow> g x) Q R s"
  by (simp_all split: sum.split)

lemma wp_case_optionI [wp_rules]:
  "wp m Q R s \<Longrightarrow> wp (case None of None \<Rightarrow> m | Some x \<Rightarrow> f x) Q R s"
  "wp (f x) Q R s \<Longrightarrow> wp (case Some x of None \<Rightarrow> m | Some x \<Rightarrow> f x) Q R s"
  "(v = None \<Longrightarrow> wp m Q R s) \<Longrightarrow> (\<And>x. v = Some x \<Longrightarrow> wp (f x) Q R s) \<Longrightarrow>
   wp (case v of None \<Rightarrow> m | Some x \<Rightarrow> f x) Q R s"
  by (simp_all split: option.split)

lemma wp_case_prodI [wp_rules]:
  "wp (f a b) Q R s \<Longrightarrow> wp (case (a, b) of (x, y) \<Rightarrow> f x y) Q R s"
  "(\<And>a b. p = (a, b) \<Longrightarrow> wp (f a b) Q R s) \<Longrightarrow> wp (case p of (x, y) \<Rightarrow> f x y) Q R s"
  by (simp_all split: prod.split)

lemma wp_ifI [wp_rules]:
  "(b \<Longrightarrow> wp m Q R s) \<Longrightarrow> (\<not> b \<Longrightarrow> wp n Q R s) \<Longrightarrow> wp (if b then m else n) Q R s"
  by simp

lemma wp_letI [wp_rules]: "(\<And>x. x = a \<Longrightarrow> wp (f x) Q R s) \<Longrightarrow> wp (let x = a in f x) Q R s"
  by simp

section \<open>Rules for the storage accesses\<close>

text \<open>The volume with another store and health; that is all a read changes.\<close>

definition settle :: "'db volume \<Rightarrow> 'db store \<Rightarrow> health \<Rightarrow> 'db volume" where
  "settle s st h = s\<lparr>v_store := st, v_health := h\<rparr>"

lemma settle_simps [simp]:
  "v_store (settle s st h) = st" "v_health (settle s st h) = h" "v_superblock (settle s st h) = v_superblock s"
  "v_dek (settle s st h) = v_dek s" "v_range_locks (settle s st h) = v_range_locks s"
  "v_quota (settle s st h) = v_quota s" "v_alloc (settle s st h) = v_alloc s"
  "v_handles (settle s st h) = v_handles s" "v_chunk_size (settle s st h) = v_chunk_size s"
  "v_attrs (settle s st h) = v_attrs s" "v_readahead (settle s st h) = v_readahead s"
  "settle (settle s st h) st' h' = settle s st' h'"
  by (simp_all add: settle_def)

lemma settle_folds:
  "s\<lparr>v_store := st, v_health := h\<rparr> = settle s st h" "s\<lparr>v_store := st\<rparr> = settle s st (v_health s)"
  "s\<lparr>v_health := h\<rparr> = settle s (v_store s) h" "settle s (v_store s) (v_health s) = s"
  by (simp_all add: settle_def)

abbreviation same_kv :: "'db env \<Rightarrow> 'db volume \<Rightarrow> 'db store \<Rightarrow> bool" where
  "same_kv E s st \<equiv> st_contents (en_engine E) st = vcontents E s"

lemma env_okD:
  assumes "env_ok E"
  shows "engine_ok (en_engine E)" "codecs_ok (en_codecs E)" "siv_ok (en_siv E)"
  using assms by (simp_all add: env_ok_def)

lemma wp_ensure_live [wp_rules]:
  "(\<not> h_dead (v_health s) \<Longrightarrow> Q () s) \<Longrightarrow> R Io s \<Longrightarrow> wp ensure_live Q R s"
  by (simp add: wp_def ensure_live_def health_ensure_live_def)

text \<open>An engine call through \<open>map_storage\<close> on a live volume fails only if the engine fails it.\<close>

lemma wp_storageI:
  assumes "\<not> h_dead (v_health s)"
    and "\<And>x st h. m (v_store s) = (Inr x, st) \<Longrightarrow> Q x (settle s st h)"
    and "\<And>e' e st h. m (v_store s) = (Inl e', st) \<Longrightarrow> R e (settle s st h)"
  shows "wp (storage m) Q R s"
  using assms
  by (auto simp: wp_def storage_def bindE_def attemptE_def in_store_def map_storage_def in_health_def
      settle_folds health_map_storage_def health_ensure_live_def split: prod.splits sum.splits)

text \<open>A core call that only reads.\<close>

lemma wp_storage_coreI:
  assumes "stays same_db m"
    and "\<And>x st h. m (v_store s) = (Inr x, st) \<Longrightarrow> same_kv E s st \<Longrightarrow> Q x (settle s st h)"
    and "\<And>e st h. same_kv E s st \<Longrightarrow> R e (settle s st h)"
  shows "wp (storage_core m) Q R s"
proof (cases "m (v_store s)")
  case (Pair r st)
  then have "same_kv E s st" using staysD [OF assms(1)] by (auto simp: same_db_def)
  with Pair assms(2,3) show ?thesis
    by (auto simp: wp_def storage_core_def bindE_def attemptE_def in_store_def map_core_def in_health_def
        settle_folds health_map_core_def health_ensure_live_def split: prod.splits sum.splits)
qed

lemma idleI: "(\<And>st h. same_kv E s st \<Longrightarrow> R (settle s st h)) \<Longrightarrow> R s"
  by (metis settle_folds(4))

lemma wp_db_get [wp_base]:
  assumes "env_ok E" and Q: "\<And>st h. same_kv E s st \<Longrightarrow> Q (vcontents E s k) (settle s st h)"
    and R: "\<And>e st h. same_kv E s st \<Longrightarrow> R e (settle s st h)"
  shows "wp (db_get E k) Q R s"
  unfolding db_get_def
  by (intro wp_rules wp_storageI idleI [of E s "R Io", OF R])
     (use Q R engine_getD [OF env_okD(1) [OF assms(1)]] in \<open>auto simp: run_simps dest!: sym [of "Inr _"]\<close>)

lemma wp_db_scan [wp_base]:
  assumes "env_ok E" and Q: "\<And>kvs st h. scan_of (vcontents E s) lo hi kvs \<Longrightarrow> same_kv E s st \<Longrightarrow> Q kvs (settle s st h)"
    and R: "\<And>e st h. same_kv E s st \<Longrightarrow> R e (settle s st h)"
  shows "wp (db_scan E lo hi) Q R s"
  unfolding db_scan_def
  by (intro wp_rules wp_storageI idleI [of E s "R Io", OF R])
     (use Q R engine_scanD [OF env_okD(1) [OF assms(1)]] in \<open>auto simp: run_simps dest!: sym [of "Inr _"]\<close>)

lemma wp_iter_next [wp_base]:
  assumes "env_ok E" and Q: "\<And>st h. same_kv E s st \<Longrightarrow> Q () (settle s st h)"
    and R: "\<And>e st h. same_kv E s st \<Longrightarrow> R e (settle s st h)"
  shows "wp (iter_next E) Q R s"
  unfolding iter_next_def
  by (intro wp_rules wp_storageI idleI [of E s "R Io", OF R])
     (use Q R in \<open>auto simp: run_simps\<close>)

lemma wp_commit [wp_base]:
  assumes E: "env_ok E" and ap: "\<exists>m. apply_batch ops (vcontents E s) = Some m"
    and Q: "\<And>st h. Some (st_contents (en_engine E) st) = apply_batch ops (vcontents E s) \<Longrightarrow> Q () (settle s st h)"
    and R: "\<And>e st h. same_kv E s st \<Longrightarrow> R e (settle s st h)"
  shows "wp (commit E ops) Q R s"
  unfolding commit_def
  by (intro wp_rules wp_storageI idleI [of E s "R Io", OF R])
     (use Q R ap store_write_Inr [OF env_okD(1) [OF E]] errsD [OF errs_store_write [OF env_okD(1) [OF E]]] in
      \<open>auto simp: same_contents_def\<close>)

lemma wp_vnow [wp_base]:
  assumes "env_ok E" and Q: "\<And>ts st h. same_kv E s st \<Longrightarrow> Q ts (settle s st h)"
  shows "wp (vnow E) Q R s"
  using Q by (simp add: wp_def vnow_def in_store_def store_now_def settle_folds)

text \<open>Under the laws of the serializers and the cipher, encoding and sealing do not fail.\<close>

lemma wp_inode_encode [wp_base]:
  assumes "env_ok E" "\<And>bs. inode_decode (en_codecs E) bs = Inr i \<Longrightarrow> Q bs s"
  shows "wp (coreR (inode_encode (en_codecs E) i)) Q R s"
  using assms(2) encode_total(1) [OF env_okD(2) [OF assms(1)], of i] decode_encode(1) [OF env_okD(2) [OF assms(1)]]
  by (auto simp: wp_simps)

lemma wp_dirent_encode [wp_base]:
  assumes "env_ok E" "\<And>bs. dirent_decode (en_codecs E) bs = Inr d \<Longrightarrow> Q bs s"
  shows "wp (coreR (dirent_encode (en_codecs E) d)) Q R s"
  using assms(2) encode_total(2) [OF env_okD(2) [OF assms(1)], of d] decode_encode(2) [OF env_okD(2) [OF assms(1)]]
  by (auto simp: wp_simps)

lemma wp_dirent_idx_encode [wp_base]:
  assumes "env_ok E" "\<And>bs. dirent_idx_decode (en_codecs E) bs = Inr e \<Longrightarrow> Q bs s"
  shows "wp (coreR (dirent_idx_encode (en_codecs E) e)) Q R s"
  using assms(2) encode_total(3) [OF env_okD(2) [OF assms(1)], of e] decode_encode(3) [OF env_okD(2) [OF assms(1)]]
  by (auto simp: wp_simps)

lemma wp_orphan_encode [wp_base]:
  assumes "env_ok E" "\<And>bs. orphan_decode (en_codecs E) bs = Inr x \<Longrightarrow> Q bs s"
  shows "wp (coreR (orphan_encode (en_codecs E) x)) Q R s"
  using assms(2) encode_total(4) [OF env_okD(2) [OF assms(1)], of x] decode_encode(4) [OF env_okD(2) [OF assms(1)]]
  by (auto simp: wp_simps)

lemma wp_seal [wp_base]:
  assumes "env_ok E" "\<And>enc. seal_name (en_siv E) (v_dek s) p name = Inr enc \<Longrightarrow> Q enc s"
  shows "wp (seal E p name) Q R s"
  using assms(2) seal_name_total [OF env_okD(3) [OF assms(1)], of "v_dek s" p name]
  by (auto simp: wp_def seal_def mapErrE_def liftE_def)

lemma wp_v_reserve [wp_base]:
  assumes "env_ok E"
    and Q: "\<And>st h. same_kv E s st \<Longrightarrow>
      Q () ((settle s st h)\<lparr>v_quota := (v_quota s)\<lparr>qt_bytes := qt_bytes (v_quota s) + db, qt_inodes := qt_inodes (v_quota s) + di\<rparr>\<rparr>)"
    and R: "\<And>st h q. same_kv E s st \<Longrightarrow> quota_usage q = quota_usage (v_quota s) \<Longrightarrow>
      qt_limits q = qt_limits (v_quota s) \<Longrightarrow> 0 < sint db \<or> 0 < sint di \<Longrightarrow>
      R QuotaExceeded ((settle s st h)\<lparr>v_quota := q\<rparr>)"
  shows "wp (v_reserve E db di) Q R s"
proof -
  have eq: "s\<lparr>v_quota := q, v_store := st\<rparr> = (settle s st (v_health s))\<lparr>v_quota := q\<rparr>" for q st
    by (simp add: settle_def)
  show ?thesis
    using Q [of "tick (v_store s)" "v_health s"] R [of "tick (v_store s)" _ "v_health s"]
    by (auto simp: wp_def v_reserve_def quota_reserve_cases quota_usage_def eq split: prod.splits)
qed

lemma wp_v_check_not_over [wp_base]:
  assumes "env_ok E"
    and Q: "\<And>st h. same_kv E s st \<Longrightarrow> Q () (settle s st h)"
    and R: "\<And>st h q. same_kv E s st \<Longrightarrow> quota_usage q = quota_usage (v_quota s) \<Longrightarrow>
      qt_limits q = qt_limits (v_quota s) \<Longrightarrow> R QuotaExceeded ((settle s st h)\<lparr>v_quota := q\<rparr>)"
  shows "wp (v_check_not_over E) Q R s"
proof -
  have eq: "s\<lparr>v_quota := q, v_store := st\<rparr> = (settle s st (v_health s))\<lparr>v_quota := q\<rparr>" for q st
    by (simp add: settle_def)
  have id: "(settle s st h)\<lparr>v_quota := v_quota s\<rparr> = settle s st h" for st h
    by (simp add: settle_def)
  show ?thesis
    using Q [of "tick (v_store s)" "v_health s"] R [of "tick (v_store s)" _ "v_health s"]
    by (auto simp: wp_def v_check_not_over_def quota_check_not_over_def quota_usage_def eq id split: prod.splits)
qed

lemma wp_v_release [wp_rules]:
  "Q () (s\<lparr>v_quota := quota_release db di (v_quota s)\<rparr>) \<Longrightarrow> wp (v_release db di) Q R s"
  by (simp add: v_release_def wp_simps)

lemma wp_on_attrs [wp_rules]: "Q () (s\<lparr>v_attrs := f (v_attrs s)\<rparr>) \<Longrightarrow> wp (on_attrs f) Q R s"
  by (simp add: on_attrs_def wp_simps)

text \<open>Evictions leave a smaller cache.\<close>

definition cache_le :: "attr_cache \<Rightarrow> attr_cache \<Rightarrow> bool" where
  "cache_le c c' = (ac_attrs c \<subseteq>\<^sub>m ac_attrs c' \<and> (\<forall>p n. ac_negative c p n \<longrightarrow> ac_negative c' p n))"

lemma wp_attrs_get [wp_base]:
  fixes R :: "'e \<Rightarrow> 'db volume \<Rightarrow> bool"
  assumes "env_ok E"
    and Q: "\<And>c st h. same_kv E s st \<Longrightarrow> cache_le c (v_attrs s) \<Longrightarrow> Q (ac_attrs c ino) ((settle s st h)\<lparr>v_attrs := c\<rparr>)"
  shows "wp (attrs_get E ino) Q R s"
proof -
  let ?c = "snd (cache_get (en_evict_attr E (st_ticks (v_store s))) ino (v_attrs s))"
  have "(attrs_get E ino :: ('db volume, 'e, _) act) s = (Inr (ac_attrs ?c ino), (settle s (tick (v_store s)) (v_health s))\<lparr>v_attrs := ?c\<rparr>)"
    by (simp add: attrs_get_def cache_get_def Let_def settle_def)
  moreover have "cache_le ?c (v_attrs s)"
    by (auto simp: cache_le_def cache_get_def Let_def map_le_def)
  ultimately show ?thesis using Q [of "tick (v_store s)" ?c] by (simp add: wp_def)
qed

lemma wp_attrs_is_negative [wp_base]:
  fixes R :: "'e \<Rightarrow> 'db volume \<Rightarrow> bool"
  assumes "env_ok E"
    and Q: "\<And>c st h. same_kv E s st \<Longrightarrow> cache_le c (v_attrs s) \<Longrightarrow> Q (ac_negative c p n) ((settle s st h)\<lparr>v_attrs := c\<rparr>)"
  shows "wp (attrs_is_negative E p n) Q R s"
proof -
  let ?c = "snd (cache_is_negative (en_evict_neg E (st_ticks (v_store s))) p n (v_attrs s))"
  have "(attrs_is_negative E p n :: ('db volume, 'e, _) act) s = (Inr (ac_negative ?c p n), (settle s (tick (v_store s)) (v_health s))\<lparr>v_attrs := ?c\<rparr>)"
    by (simp add: attrs_is_negative_def cache_is_negative_def Let_def settle_def)
  moreover have "cache_le ?c (v_attrs s)"
    by (auto simp: cache_le_def cache_is_negative_def Let_def)
  ultimately show ?thesis using Q [of "tick (v_store s)" ?c] by (simp add: wp_def)
qed

section \<open>Rules for the helpers\<close>

lemma wp_load_inode [wp_base]:
  assumes E: "env_ok E"
    and Q: "\<And>i st h. same_kv E s st \<Longrightarrow> fs_inode (vfs E s) ino = Some i \<Longrightarrow> Q i (settle s st h)"
    and R: "\<And>e st h. same_kv E s st \<Longrightarrow> R e (settle s st h)"
  shows "wp (load_inode E ino) Q R s"
  unfolding load_inode_def
  by (intro wp_base [OF E] wp_rules) (use Q R in \<open>auto simp: fs_of_def\<close>)

lemma wp_load_dir [wp_base]:
  assumes E: "env_ok E"
    and Q: "\<And>i st h. same_kv E s st \<Longrightarrow> fs_inode (vfs E s) ino = Some i \<Longrightarrow> i_kind i = Dir \<Longrightarrow> Q i (settle s st h)"
    and R: "\<And>e st h. same_kv E s st \<Longrightarrow> R e (settle s st h)"
  shows "wp (load_dir E ino) Q R s"
  unfolding load_dir_def
  by (intro wp_base [OF E] wp_rules) (use Q R in \<open>auto simp: is_dir_def\<close>)

lemma wp_dirent_of [wp_base]:
  assumes E: "env_ok E"
    and Q: "\<And>st h. same_kv E s st \<Longrightarrow> Q (fs_dirent (vfs E s) p n) (settle s st h)"
    and R: "\<And>e st h. same_kv E s st \<Longrightarrow> R e (settle s st h)"
  shows "wp (dirent_of E p n) Q R s"
  unfolding dirent_of_def
  by (intro wp_base [OF E] wp_rules) (use Q R in \<open>auto simp: fs_of_def\<close>)

text \<open>An allocation may move the persisted mark, which the view does not show.\<close>

abbreviation next_ino_only :: "kv \<Rightarrow> kv \<Rightarrow> bool" where
  "next_ino_only m m' \<equiv> \<exists>v. m' = m(key_bytes KNextIno := v)"

lemma next_ino_only_refl: "next_ino_only m m"
  by (rule exI [of _ "m (key_bytes KNextIno)"]) simp

lemma wp_alloc_ino [wp_base]:
  assumes E: "env_ok E"
    and Q: "\<And>st h. next_ino_only (vcontents E s) (st_contents (en_engine E) st) \<Longrightarrow>
      Q (al_next (v_alloc s)) ((settle s st h)\<lparr>v_alloc := snd (allocate (v_alloc s))\<rparr>)"
    and R: "\<And>e st h a. same_kv E s st \<Longrightarrow> a = v_alloc s \<or> a = snd (allocate (v_alloc s)) \<Longrightarrow>
      R e ((settle s st h)\<lparr>v_alloc := a\<rparr>)"
  shows "wp (alloc_ino E) Q R s"
proof -
  have Q0: "Q (al_next (v_alloc s)) (s\<lparr>v_alloc := snd (allocate (v_alloc s))\<rparr>)"
    using Q [of "v_store s" "v_health s"] by (simp add: settle_folds next_ino_only_refl)
  have R0: "R e s" for e
    using R [of "v_store s" "v_alloc s" e "v_health s"] by (simp add: settle_folds)
  have st: "settle (s\<lparr>v_alloc := a\<rparr>) st h = (settle s st h)\<lparr>v_alloc := a\<rparr>" for a st h
    by (simp add: settle_def)
  have put: "next_ino_only (vcontents E s) (st_contents (en_engine E) st)"
    if "store_write (en_engine E) [Put (key_bytes KNextIno) v] (v_store s) = (Inr u, st)" for v u st
    using store_write_Inr [OF env_okD(1) [OF E] that] by auto
  show ?thesis
    unfolding alloc_ino_def
    by (intro wp_base [OF E] wp_rules wp_storageI)
       (use Q0 R0 Q [OF put] R errsD [OF errs_store_write [OF env_okD(1) [OF E]]] in
        \<open>auto simp: allocate_def Let_def st same_contents_def split: if_splits\<close>)
qed

end
