(* ===== verification/Vfs_Inv.thy ===== *)
theory Vfs_Inv
  imports Vfs_View
begin

text \<open>
  The invariant of a mounted volume and the elementary steps of the abstract file
  system. The invariant ties the volume's memory to its database: the quota tracker
  shows the persisted counters, the caches hold nothing the database does not confirm,
  and no record mentions an inode number that was not allocated yet.
\<close>

section \<open>Elementary steps\<close>

definition put_inode :: "u64 \<Rightarrow> inode \<Rightarrow> fs \<Rightarrow> fs" where
  "put_inode ino i f = f\<lparr>fs_inode := (fs_inode f)(ino \<mapsto> i)\<rparr>"

definition del_inode :: "u64 \<Rightarrow> fs \<Rightarrow> fs" where
  "del_inode ino f = f\<lparr>fs_inode := (fs_inode f)(ino := None)\<rparr>"

definition put_entry :: "u64 \<Rightarrow> dirent \<Rightarrow> bytes \<Rightarrow> fs \<Rightarrow> fs" where
  "put_entry p d enc f =
     f\<lparr>fs_dirent := (fs_dirent f)(p := (fs_dirent f p)(d_name d \<mapsto> d)),
       fs_index := (fs_index f)(p := (fs_index f p)
         (d_dirent_id d \<mapsto> \<lparr>e_enc_name = enc, e_child_ino = d_child_ino d, e_kind = d_kind d\<rparr>))\<rparr>"

definition del_entry :: "u64 \<Rightarrow> bytes \<Rightarrow> u64 \<Rightarrow> fs \<Rightarrow> fs" where
  "del_entry p name dirent_id f =
     f\<lparr>fs_dirent := (fs_dirent f)(p := (fs_dirent f p)(name := None)),
       fs_index := (fs_index f)(p := (fs_index f p)(dirent_id := None))\<rparr>"

definition put_symlink :: "u64 \<Rightarrow> bytes option \<Rightarrow> fs \<Rightarrow> fs" where
  "put_symlink ino target f =
     (case target of None \<Rightarrow> f | Some t \<Rightarrow> f\<lparr>fs_symlink := (fs_symlink f)(ino \<mapsto> t)\<rparr>)"

definition put_orphan :: "u64 \<Rightarrow> orphan \<Rightarrow> fs \<Rightarrow> fs" where
  "put_orphan ino x f = f\<lparr>fs_orphan := (fs_orphan f)(ino \<mapsto> x)\<rparr>"

definition put_xattr :: "u64 \<Rightarrow> bytes \<Rightarrow> bytes option \<Rightarrow> fs \<Rightarrow> fs" where
  "put_xattr ino name v f = f\<lparr>fs_xattr := (fs_xattr f)(ino := (fs_xattr f ino)(name := v))\<rparr>"

definition charge :: "i64 \<Rightarrow> i64 \<Rightarrow> fs \<Rightarrow> fs" where
  "charge db di f = f\<lparr>fs_bytes := fs_bytes f + db, fs_inodes := fs_inodes f + di\<rparr>"

lemmas fs_steps = put_inode_def del_inode_def put_entry_def del_entry_def put_symlink_def put_orphan_def
  put_xattr_def charge_def

section \<open>The invariant\<close>

definition cache_ok :: "attr_cache \<Rightarrow> fs \<Rightarrow> bool" where
  "cache_ok c f =
     ((\<forall>ino i. ac_attrs c ino = Some i \<longrightarrow> fs_inode f ino = Some i) \<and>
      (\<forall>p n. ac_negative c p n \<longrightarrow> fs_dirent f p n = None))"

definition unused :: "u64 \<Rightarrow> fs \<Rightarrow> bool" where
  "unused ino f =
     (fs_inode f ino = None \<and> fs_dirent f ino = Map.empty \<and> fs_index f ino = Map.empty \<and>
      fs_chunk f ino = Map.empty \<and> fs_symlink f ino = None \<and> fs_xattr f ino = Map.empty \<and> fs_orphan f ino = None)"

definition vol_inv :: "'db env \<Rightarrow> 'db volume \<Rightarrow> bool" where
  "vol_inv E s =
     (counters_ok (vcontents E s) \<and> schema_keys (vcontents E s) \<and> cache_ok (v_attrs s) (vfs E s) \<and>
      quota_usage (v_quota s) = (fs_bytes (vfs E s), fs_inodes (vfs E s)) \<and>
      (\<forall>ino. al_next (v_alloc s) \<le> ino \<longrightarrow> unused ino (vfs E s)))"

text \<open>What no file operation touches; handles and range locks are kept by all but their own calls.\<close>

definition vframe :: "'db volume \<Rightarrow> 'db volume \<Rightarrow> bool" where
  "vframe s t =
     (v_superblock t = v_superblock s \<and> v_dek t = v_dek s \<and> v_chunk_size t = v_chunk_size s \<and>
      qt_limits (v_quota t) = qt_limits (v_quota s))"

definition hframe :: "'db volume \<Rightarrow> 'db volume \<Rightarrow> bool" where
  "hframe s t = (vframe s t \<and> v_handles t = v_handles s \<and> v_range_locks t = v_range_locks s)"

text \<open>The end of a failed operation: the invariant holds and the file system is what it was.\<close>

definition undone :: "'db env \<Rightarrow> 'db volume \<Rightarrow> 'db volume \<Rightarrow> bool" where
  "undone E s t = (vol_inv E t \<and> hframe s t \<and> vfs E t = vfs E s)"

lemma fs_of_next_ino [simp]: "fs_of E dek (m(key_bytes KNextIno := v)) = fs_of E dek m"
  by (simp add: fs_of_def fun_eq_iff split: sum.splits)

lemma schema_keys_upd [simp]: "schema_keys m \<Longrightarrow> schema_keys (m(key_bytes k := v))"
  by (auto simp: schema_keys_def split: if_splits)

lemma hframe_refl [simp]: "hframe s s"
  by (simp add: hframe_def vframe_def)

lemma map_le_Some: "m \<subseteq>\<^sub>m m' \<Longrightarrow> m x = Some y \<Longrightarrow> m' x = Some y"
  by (metis domI map_le_def)

lemma cache_ok_le: "cache_le c c' \<Longrightarrow> cache_ok c' f \<Longrightarrow> cache_ok c f"
  by (auto simp: cache_ok_def cache_le_def dest: map_le_Some)

lemma cache_le_refl [simp]: "cache_le c c"
  by (simp add: cache_le_def)

lemma cache_le_trans: "cache_le a b \<Longrightarrow> cache_le b c \<Longrightarrow> cache_le a c"
  by (auto simp: cache_le_def intro: map_le_trans)

lemmas cache_defs = cache_insert_def cache_remove_def cache_insert_negative_def cache_remove_negative_def

text \<open>
  The state after reads, evictions and rejected or returned reservations is as good as
  the one before.
\<close>

definition idle :: "'db env \<Rightarrow> 'db volume \<Rightarrow> 'db volume \<Rightarrow> bool" where
  "idle E s t =
     (same_kv E s (v_store t) \<and> cache_le (v_attrs t) (v_attrs s) \<and> v_alloc t = v_alloc s \<and>
      quota_usage (v_quota t) = quota_usage (v_quota s) \<and> hframe s t)"

lemma idle_refl [simp]: "idle E s s"
  by (simp add: idle_def)

lemma hframe_trans: "hframe s t \<Longrightarrow> hframe t u \<Longrightarrow> hframe s u"
  by (simp add: hframe_def vframe_def)

lemma idle_trans: "idle E s t \<Longrightarrow> idle E t u \<Longrightarrow> idle E s u"
  by (auto simp: idle_def intro: cache_le_trans hframe_trans)

lemma idle_settle [simp]: "idle E s (settle s st h) \<longleftrightarrow> same_kv E s st"
  by (auto simp: idle_def hframe_def vframe_def)

lemma vol_inv_mono:
  assumes "vol_inv E s" "vcontents E t = (vcontents E s)(key_bytes KNextIno := v)" "v_dek t = v_dek s"
    "cache_le (v_attrs t) (v_attrs s)" "quota_usage (v_quota t) = quota_usage (v_quota s)"
    "al_next (v_alloc s) \<le> al_next (v_alloc t)"
  shows "vol_inv E t"
  using assms cache_ok_le [OF assms(4)] by (auto simp: vol_inv_def)

lemma idle_undone:
  assumes "vol_inv E s" "idle E s t"
  shows "undone E s t"
proof -
  have "vcontents E t = (vcontents E s)(key_bytes KNextIno := vcontents E s (key_bytes KNextIno))"
    using assms(2) by (simp add: idle_def)
  with assms vol_inv_mono [OF assms(1) this] show ?thesis
    by (simp add: undone_def idle_def hframe_def vframe_def)
qed

lemma idle_inv: "vol_inv E s \<Longrightarrow> idle E s t \<Longrightarrow> vol_inv E t \<and> hframe s t \<and> vfs E t = vfs E s"
  using idle_undone [of E s t] by (simp add: undone_def)

lemma settle_inv:
  assumes "vol_inv E s" "same_kv E s st"
  shows "vol_inv E (settle s st h)" "hframe s (settle s st h)"
  using idle_inv [OF assms(1), of "settle s st h"] assms(2) by simp_all

text \<open>After a commit: the parts of the invariant, one by one.\<close>

lemma vol_invI:
  assumes "vol_inv E s" "vfs E t = f" "counters_ok (vcontents E t)" "schema_keys (vcontents E t)" "cache_ok (v_attrs t) f"
    and "quota_usage (v_quota t) = (fs_bytes f, fs_inodes f)" "al_next (v_alloc t) = al_next (v_alloc s)"
    and "\<And>ino. al_next (v_alloc s) \<le> ino \<Longrightarrow> unused ino (vfs E s) \<Longrightarrow> unused ino f"
  shows "vol_inv E t"
  using assms by (simp add: vol_inv_def)

lemma vol_invD:
  assumes "vol_inv E s"
  shows "counters_ok (vcontents E s)" "schema_keys (vcontents E s)" "cache_ok (v_attrs s) (vfs E s)"
    "qt_bytes (v_quota s) = fs_bytes (vfs E s)" "qt_inodes (v_quota s) = fs_inodes (vfs E s)"
    "al_next (v_alloc s) \<le> ino \<Longrightarrow> unused ino (vfs E s)"
  using assms by (simp_all add: vol_inv_def quota_usage_def)

lemma undone_trans: "undone E s t \<Longrightarrow> undone E t u \<Longrightarrow> undone E s u"
  by (auto simp: undone_def intro: hframe_trans)

lemma undone_refl: "vol_inv E s \<Longrightarrow> undone E s s"
  by (simp add: undone_def)

text \<open>An inode that exists has an allocated number.\<close>

lemma used_ino: "vol_inv E s \<Longrightarrow> fs_inode (vfs E s) ino = Some i \<Longrightarrow> ino < al_next (v_alloc s)"
  by (metis vol_inv_def unused_def option.distinct(1) linorder_not_less)

end
