(* ===== verification/Vfs_Create.thy ===== *)
theory Vfs_Create
  imports Vfs_Inv
begin

text \<open>
  The operations that make entries: what \<open>create\<close>, \<open>mkdir\<close>, \<open>mknod\<close>, \<open>symlink\<close> and
  \<open>link\<close> do to the file system when they succeed, and that they leave it alone when
  they fail, whatever calls the engine fails.
\<close>

text \<open>The parent directory after an entry for \<open>child\<close> was added at time \<open>ts\<close>.\<close>

definition grown_dir :: "timespec \<Rightarrow> inode \<Rightarrow> inode \<Rightarrow> inode" where
  "grown_dir ts child dir =
     (let d = touch_mtime ts (dir\<lparr>i_next_dirent_id := i_next_dirent_id dir + 1\<rparr>)
      in if is_dir (i_kind child) then d\<lparr>i_nlink := i_nlink d + 1\<rparr> else d)"

definition entry_of :: "bytes \<Rightarrow> u64 \<Rightarrow> inode \<Rightarrow> inode \<Rightarrow> dirent" where
  "entry_of name c child dir =
     \<lparr>d_name = name, d_child_ino = c, d_kind = i_kind child, d_dirent_id = i_next_dirent_id dir\<rparr>"

definition add_node ::
  "timespec \<Rightarrow> bytes \<Rightarrow> u64 \<Rightarrow> inode \<Rightarrow> bytes \<Rightarrow> u64 \<Rightarrow> inode \<Rightarrow> bytes option \<Rightarrow> fs \<Rightarrow> fs" where
  "add_node ts enc p dir name c child target f =
     charge 0 1 (put_symlink c target (put_inode p (grown_dir ts child dir)
       (put_entry p (entry_of name c child dir) enc (put_inode c child f))))"

lemma add_node_simps:
  "fs_bytes (add_node ts enc p dir name c child target f) = fs_bytes f"
  "fs_inodes (add_node ts enc p dir name c child target f) = fs_inodes f + 1"
  "ino \<noteq> p \<Longrightarrow> ino \<noteq> c \<Longrightarrow> unused ino (add_node ts enc p dir name c child target f) = unused ino f"
  by (simp_all add: add_node_def fs_steps unused_def split: option.split)

lemma cache_ok_add_node:
  "cache_ok k f \<Longrightarrow>
   cache_ok (cache_remove_negative p name (cache_insert p (grown_dir ts child dir) (cache_insert c child k)))
     (add_node ts enc p dir name c child target f)"
  by (auto simp: cache_ok_def cache_defs add_node_def fs_steps entry_of_def split: option.split)

lemma fs_of_add_node:
  assumes "siv_ok (en_siv E)" "counters_ok m" "seal_name (en_siv E) dek p name = Inr enc"
    and "inode_decode (en_codecs E) b1 = Inr child" "dirent_decode (en_codecs E) b2 = Inr (entry_of name c child dir)"
    and "dirent_idx_decode (en_codecs E) b3 = Inr \<lparr>e_enc_name = enc, e_child_ino = c, e_kind = i_kind child\<rparr>"
    and "inode_decode (en_codecs E) b4 = Inr (grown_dir ts child dir)"
    and "Some m' = apply_batch ([Put (key_bytes (KInode c)) b1, Put (key_bytes (KDirent p enc)) b2,
         Put (key_bytes (KDirentIdx p (i_next_dirent_id dir))) b3, Put (key_bytes (KInode p)) b4] @
        (case target of None \<Rightarrow> [] | Some target \<Rightarrow> [Put (key_bytes (KSymlink c)) target]) @
        [Merge (key_bytes KQuotaInodes) (encode_delta 1)]) m"
  shows "fs_of E dek m' = add_node ts enc p dir name c child target (fs_of E dek m)"
    and "counters_ok m'" and "schema_keys m \<Longrightarrow> schema_keys m'"
proof -
  show "fs_of E dek m' = add_node ts enc p dir name c child target (fs_of E dek m)"
    by (rule fs.equality; use assms in \<open>cases target; simp add: add_node_def fs_steps entry_of_def fs_counters\<close>)
  show "counters_ok m'" "schema_keys m \<Longrightarrow> schema_keys m'"
    using assms by (cases target; simp)+
qed

lemma insert_new_node_wp:
  assumes E: "env_ok E" and inv: "vol_inv E s" and p: "p < al_next (v_alloc s)"
    and c: "c < al_next (v_alloc s)"
  shows "wp (insert_new_node E p dir name c child target)
    (\<lambda>_ t. vol_inv E t \<and> hframe s t \<and> (\<exists>ts enc. seal_name (en_siv E) (v_dek s) p name = Inr enc \<and>
       vfs E t = add_node ts enc p dir name c child target (vfs E s)))
    (\<lambda>e t. undone E s t) s"
  unfolding insert_new_node_def
proof (intro wp_base [OF E] wp_rules, goal_cases)
  case (1 st h ts sta ha dirent_id parent1 parent enc)
  then show ?case using vol_invD(1) [OF inv] by (cases target) simp_all
next
  case (2 st h ts sta ha dirent_id parent1 parent enc b1 b2 b3 b4 stb hb)
  have g: "parent = grown_dir ts child dir" using 2 by (simp add: grown_dir_def Let_def)
  have enc: "seal_name (en_siv E) (v_dek s) p name = Inr enc" using 2 by simp
  let ?f = "add_node ts enc p dir name c child target (vfs E s)"
  have m: "fs_of E (v_dek s) (st_contents (en_engine E) stb) = ?f"
    "counters_ok (st_contents (en_engine E) stb)" "schema_keys (st_contents (en_engine E) stb)"
    using fs_of_add_node [OF env_okD(3) [OF E] vol_invD(1) [OF inv], of "v_dek s" p name enc b1 child b2 c dir b3 b4 ts
        "st_contents (en_engine E) stb" target] 2 vol_invD(2) [OF inv]
    by (simp_all add: g entry_of_def)
  show ?case
    by (intro conjI exI [of _ ts] exI [of _ enc] vol_invI [OF inv, of _ ?f])
       (use enc m p c vol_invD [OF inv] in \<open>auto simp: g add_node_simps cache_ok_add_node quota_usage_def hframe_def vframe_def\<close>)
next
  case 3
  then show ?case
    by (intro idle_undone [OF inv]) (simp add: idle_def hframe_def vframe_def quota_usage_def quota_release_def)
next
  case 4
  then show ?case
    by (intro idle_undone [OF inv]) (simp add: idle_def hframe_def vframe_def)
qed

lemma insert_new_nodeI:
  assumes E: "env_ok E" and u: "undone E s0 u" and p: "p < al_next (v_alloc u)" and c: "c < al_next (v_alloc u)"
    and Q: "\<And>t ts enc. vol_inv E t \<Longrightarrow> hframe s0 t \<Longrightarrow> seal_name (en_siv E) (v_dek s0) p name = Inr enc \<Longrightarrow>
      vfs E t = add_node ts enc p dir name c child target (vfs E s0) \<Longrightarrow> Q () t"
    and R: "\<And>e t. undone E s0 t \<Longrightarrow> R e t"
  shows "wp (insert_new_node E p dir name c child target) Q R u"
proof -
  have inv: "vol_inv E u" "hframe s0 u" "vfs E u = vfs E s0" "v_dek u = v_dek s0"
    using u by (auto simp: undone_def hframe_def vframe_def)
  show ?thesis
    by (rule wp_mono [OF insert_new_node_wp [OF E inv(1) p c]])
       (use Q R inv hframe_trans [OF inv(2)] undone_trans [OF u] in auto)
qed

text \<open>
  A node was made: the next inode number, the attributes of the node returned, and the file
  system with the node added.
\<close>

definition made ::
  "'db env \<Rightarrow> 'db volume \<Rightarrow> u64 \<Rightarrow> inode \<Rightarrow> bytes \<Rightarrow> (timespec \<Rightarrow> inode) \<Rightarrow> bytes option \<Rightarrow>
   file_attr \<Rightarrow> 'db volume \<Rightarrow> bool" where
  "made E s p dir name mk target a t =
     (\<exists>ts ts' enc. seal_name (en_siv E) (v_dek s) p name = Inr enc \<and>
        a = make_attr (al_next (v_alloc s)) (mk ts) \<and>
        vfs E t = add_node ts' enc p dir name (al_next (v_alloc s)) (mk ts) target (vfs E s))"

text \<open>The common end of the operations that make a node: number, time stamp, node, insertion.\<close>

lemma new_node_wp:
  assumes E: "env_ok E" and inv: "vol_inv E s0" and room: "al_next (v_alloc s0) \<noteq> - 1"
    and idle: "idle E s0 s" and dir: "fs_inode (vfs E s0) p = Some i"
    and Q: "\<And>a t. vol_inv E t \<Longrightarrow> hframe s0 t \<Longrightarrow> made E s0 p dir name mk target a t \<Longrightarrow> Q a t"
    and R: "\<And>e t. undone E s0 t \<Longrightarrow> R e t"
  shows "wp (bindE (alloc_ino E) (\<lambda>c. bindE (vnow E) (\<lambda>ts.
      let child = mk ts in bindE (insert_new_node E p dir name c child target) (\<lambda>_. returnE (make_attr c child))))) Q R s"
proof -
  have al: "v_alloc s = v_alloc s0" and us: "undone E s0 s" and inv': "vol_inv E s"
    using idle idle_undone [OF inv idle] by (auto simp: idle_def undone_def)
  let ?c = "al_next (v_alloc s0)"
  have lt: "?c < ?c + 1" using room by (simp add: word_less_Suc)
  have p: "p < ?c" by (rule used_ino [OF inv dir])
  have step: "undone E s0 t" if "next_ino_only (vcontents E s) (vcontents E t)" "v_attrs t = v_attrs s"
    "v_quota t = v_quota s" "hframe s t" "v_alloc t = v_alloc s \<or> v_alloc t = snd (allocate (v_alloc s))" for t
  proof -
    have "al_next (v_alloc s) \<le> al_next (v_alloc t)"
      using that(5) lt by (auto simp: al allocate_def Let_def)
    with vol_inv_mono [OF inv', of t] that show ?thesis
      by (intro undone_trans [OF us]) (auto simp: undone_def hframe_def vframe_def)
  qed
  have c: "al_next (snd (allocate (v_alloc s))) = ?c + 1" by (simp add: al allocate_def Let_def)
  show ?thesis
    by (intro wp_bindI wp_alloc_ino [OF E] wp_vnow [OF E] wp_letI insert_new_nodeI [OF E, where ?s0.0 = s0] wp_returnI)
       (use p lt c Q R step in \<open>auto simp: al made_def next_ino_only_refl hframe_def vframe_def\<close>)
qed

text \<open>What the operations have checked before they make the node.\<close>

definition may_add :: "credentials \<Rightarrow> u64 \<Rightarrow> bytes \<Rightarrow> inode \<Rightarrow> fs \<Rightarrow> bool" where
  "may_add creds p name dir f =
     (validate_name name = Inr () \<and> fs_inode f p = Some dir \<and> i_kind dir = Dir \<and>
      access creds dir (ACCESS_W OR ACCESS_X) = Inr () \<and> fs_dirent f p name = None)"

lemma free_entryI:
  assumes E: "env_ok E"
    and Q: "\<And>dir st h. same_kv E s st \<Longrightarrow> fs_inode (vfs E s) p = Some dir \<Longrightarrow> i_kind dir = Dir \<Longrightarrow>
      access creds dir (ACCESS_W OR ACCESS_X) = Inr () \<Longrightarrow> fs_dirent (vfs E s) p name = None \<Longrightarrow> Q dir (settle s st h)"
    and R: "\<And>e st h. same_kv E s st \<Longrightarrow> R e (settle s st h)"
  shows "wp (free_entry E creds p name) Q R s"
  unfolding free_entry_def
  by (intro wp_base [OF E] wp_rules) (use Q R in auto)

definition new_child :: "credentials \<Rightarrow> inode \<Rightarrow> file_kind \<Rightarrow> u32 \<Rightarrow> timespec \<Rightarrow> inode" where
  "new_child creds dir kind mode ts =
     (case new_node_ids creds dir kind mode of (uid, gid, mode') \<Rightarrow> inode_new kind mode' uid gid ts)"

lemma new_child_ids:
  "new_node_ids creds dir kind mode = (uid, gid, mode') \<Longrightarrow> new_child creds dir kind mode = inode_new kind mode' uid gid"
  by (simp add: new_child_def fun_eq_iff)

lemma create_wp:
  assumes E: "env_ok E" and inv: "vol_inv E s" and room: "al_next (v_alloc s) \<noteq> - 1"
  shows "wp (create E creds p name mode exclusive)
    (\<lambda>a t. vol_inv E t \<and> hframe s t \<and>
       ((\<exists>dir. may_add creds p name dir (vfs E s) \<and> made E s p dir name (new_child creds dir File mode) None a t) \<or>
        (\<exists>d i. fs_dirent (vfs E s) p name = Some d \<and> \<not> exclusive \<and> fs_inode (vfs E s) (d_child_ino d) = Some i \<and>
           access creds i ACCESS_W = Inr () \<and> a = make_attr (d_child_ino d) i \<and> vfs E t = vfs E s)))
    (\<lambda>e t. undone E s t) s"
  unfolding create_def
  by (intro new_node_wp [OF E inv room] wp_base [OF E] wp_rules)
     (simp_all add: idle_undone [OF inv] undone_refl [OF inv] settle_inv [OF inv] may_add_def new_child_ids)

lemma mkdir_wp:
  assumes E: "env_ok E" and inv: "vol_inv E s" and room: "al_next (v_alloc s) \<noteq> - 1"
  shows "wp (mkdir E creds p name mode)
    (\<lambda>a t. vol_inv E t \<and> hframe s t \<and> (\<exists>dir. may_add creds p name dir (vfs E s) \<and>
       made E s p dir name (\<lambda>ts. (new_child creds dir Dir mode ts)\<lparr>i_parent_dir := p\<rparr>) None a t))
    (\<lambda>e t. undone E s t) s"
  unfolding mkdir_def
  by (intro new_node_wp [OF E inv room] free_entryI [OF E] wp_base [OF E] wp_rules)
     (simp_all add: idle_undone [OF inv] undone_refl [OF inv] may_add_def new_child_ids)

lemma mknod_wp:
  assumes E: "env_ok E" and inv: "vol_inv E s" and room: "al_next (v_alloc s) \<noteq> - 1"
  shows "wp (mknod E creds p name mode kind rdev)
    (\<lambda>a t. vol_inv E t \<and> hframe s t \<and> mknod_allowed creds kind = Inr () \<and> (\<exists>dir. may_add creds p name dir (vfs E s) \<and>
       made E s p dir name (\<lambda>ts. (new_child creds dir kind mode ts)\<lparr>i_rdev := rdev\<rparr>) None a t))
    (\<lambda>e t. undone E s t) s"
  unfolding mknod_def
  by (intro new_node_wp [OF E inv room] free_entryI [OF E] wp_base [OF E] wp_rules)
     (simp_all add: idle_undone [OF inv] undone_refl [OF inv] may_add_def new_child_ids)

text \<open>The mode of a symbolic link is fixed, whatever the directory's setgid bit says.\<close>

definition new_symlink :: "credentials \<Rightarrow> bytes \<Rightarrow> inode \<Rightarrow> timespec \<Rightarrow> inode" where
  "new_symlink creds target dir ts =
     (case new_node_ids creds dir Symlink 0x1FF of (uid, gid, _) \<Rightarrow>
        (inode_new Symlink 0x1FF uid gid ts)\<lparr>i_size := of_nat (length target)\<rparr>)"

lemma new_symlink_ids:
  "new_node_ids creds dir Symlink 0x1FF = (uid, gid, mode') \<Longrightarrow>
   new_symlink creds target dir = (\<lambda>ts. (inode_new Symlink 0x1FF uid gid ts)\<lparr>i_size := of_nat (length target)\<rparr>)"
  by (simp add: new_symlink_def fun_eq_iff)

lemma symlink_wp:
  assumes E: "env_ok E" and inv: "vol_inv E s" and room: "al_next (v_alloc s) \<noteq> - 1"
  shows "wp (symlink E creds p name target)
    (\<lambda>a t. vol_inv E t \<and> hframe s t \<and> target \<noteq> [] \<and> length target \<le> 4096 \<and>
       (\<exists>dir. may_add creds p name dir (vfs E s) \<and> made E s p dir name (new_symlink creds target dir) (Some target) a t))
    (\<lambda>e t. undone E s t) s"
  unfolding symlink_def
  by (intro new_node_wp [OF E inv room] free_entryI [OF E] wp_base [OF E] wp_rules)
     (simp_all add: idle_undone [OF inv] undone_refl [OF inv] may_add_def new_symlink_ids)

section \<open>Hard links\<close>

definition add_link :: "timespec \<Rightarrow> bytes \<Rightarrow> u64 \<Rightarrow> inode \<Rightarrow> bytes \<Rightarrow> u64 \<Rightarrow> inode \<Rightarrow> fs \<Rightarrow> fs" where
  "add_link ts enc p dir name ino i f =
     put_inode p (touch_mtime ts (dir\<lparr>i_next_dirent_id := i_next_dirent_id dir + 1\<rparr>))
       (put_entry p (entry_of name ino i dir) enc
         (put_inode ino (i\<lparr>i_nlink := i_nlink i + 1, i_ctime := ts\<rparr>) f))"

lemma add_link_simps:
  "fs_bytes (add_link ts enc p dir name ino i f) = fs_bytes f"
  "fs_inodes (add_link ts enc p dir name ino i f) = fs_inodes f"
  "c \<noteq> p \<Longrightarrow> c \<noteq> ino \<Longrightarrow> unused c (add_link ts enc p dir name ino i f) = unused c f"
  by (simp_all add: add_link_def fs_steps unused_def)

lemma cache_ok_add_link:
  "cache_ok k f \<Longrightarrow>
   cache_ok (cache_remove_negative p name
       (cache_insert p (touch_mtime ts (dir\<lparr>i_next_dirent_id := i_next_dirent_id dir + 1\<rparr>))
         (cache_insert ino (i\<lparr>i_nlink := i_nlink i + 1, i_ctime := ts\<rparr>) k)))
     (add_link ts enc p dir name ino i f)"
  by (auto simp: cache_ok_def cache_defs add_link_def fs_steps entry_of_def)

definition linked ::
  "'db env \<Rightarrow> credentials \<Rightarrow> 'db volume \<Rightarrow> u64 \<Rightarrow> u64 \<Rightarrow> bytes \<Rightarrow> file_attr \<Rightarrow> 'db volume \<Rightarrow> bool" where
  "linked E creds s ino p name a t =
     (\<exists>dir i ts enc. may_add creds p name dir (vfs E s) \<and> fs_inode (vfs E s) ino = Some i \<and> i_kind i \<noteq> Dir \<and>
        i_nlink i \<noteq> - 1 \<and> seal_name (en_siv E) (v_dek s) p name = Inr enc \<and>
        a = make_attr ino (i\<lparr>i_nlink := i_nlink i + 1, i_ctime := ts\<rparr>) \<and>
        vfs E t = add_link ts enc p dir name ino i (vfs E s))"

lemma link_wp:
  assumes E: "env_ok E" and inv: "vol_inv E s"
  shows "wp (link E creds ino p name)
    (\<lambda>a t. vol_inv E t \<and> hframe s t \<and> linked E creds s ino p name a t) (\<lambda>e t. undone E s t) s"
  unfolding link_def
proof (intro free_entryI [OF E] wp_base [OF E] wp_rules, goal_cases)
  case (3 x i st h dir sta ha ts stb hb n ia dirent_id dira enc b1 b2 b3 b4 stc hc)
  have n: "n = i_nlink i + 1" "i_nlink i \<noteq> - 1" using 3
    by (auto simp: checked_add_def unsigned_minus_1_eq_mask mask_eq_exp_minus_1 split: option.splits if_splits)
  have i: "fs_inode (vfs E s) ino = Some i" "i_kind i \<noteq> Dir" "fs_inode (vfs E s) p = Some dir"
    "may_add creds p name dir (vfs E s)" "seal_name (en_siv E) (v_dek s) p name = Inr enc"
    "ia = i\<lparr>i_nlink := i_nlink i + 1, i_ctime := ts\<rparr>"
    "dira = touch_mtime ts (dir\<lparr>i_next_dirent_id := i_next_dirent_id dir + 1\<rparr>)"
    using 3 by (auto simp: is_dir_def may_add_def n)
  let ?f = "add_link ts enc p dir name ino i (vfs E s)"
  have f: "fs_of E (v_dek s) (st_contents (en_engine E) stc) = ?f"
    by (rule fs.equality; use 3 env_okD(3) [OF E] in \<open>simp add: add_link_def fs_steps entry_of_def n\<close>)
  have m: "counters_ok (st_contents (en_engine E) stc)" "schema_keys (st_contents (en_engine E) stc)"
    using 3 vol_invD [OF inv] by simp_all
  have l: "linked E creds s ino p name (make_attr ino ia) t" if "vfs E t = ?f" for t
    unfolding linked_def using i n that by blast
  show ?case
    by (intro conjI vol_invI [OF inv, of _ ?f] l)
       (use f m used_ino [OF inv i(1)] used_ino [OF inv i(3)] vol_invD [OF inv] in
         \<open>auto simp: i add_link_simps cache_ok_add_link quota_usage_def hframe_def vframe_def\<close>)
qed (simp_all add: idle_undone [OF inv] undone_refl [OF inv])

end
