(* ===== verification/Vfs_Files.thy ===== *)
theory Vfs_Files
  imports Vfs_Create
begin

text \<open>
  The operations on file data and on attributes: what \<open>write\<close>, \<open>setattr\<close>, \<open>setxattr\<close> and
  \<open>removexattr\<close> do to the file system when they succeed, and what is left when they fail.
\<close>

section \<open>Plans only read\<close>

lemma stays_read_chunks [frame]: "stays same_db (read_chunks E db cs ino off idxs out)"
  by (induction idxs arbitrary: out) (auto intro!: frame split: option.split)

lemma stays_read_range [frame]: "stays same_db (read_range E cs ino sz off len)"
  unfolding read_range_def Let_def by (auto intro!: frame split: option.split)

lemma stays_write_chunks [frame]: "stays same_db (write_chunks E cs ino old_size off dat idxs puts delta)"
  by (induction idxs arbitrary: puts delta) (auto intro!: frame simp: Let_def)

lemma stays_plan_write [frame]: "stays same_db (plan_write E cs ino old_size off dat)"
  unfolding plan_write_def Let_def by (auto intro!: frame split: prod.split)

lemma stays_truncate_scan [frame]: "stays same_db (truncate_scan E cs old_size new_size kvs plan)"
  by (induction kvs arbitrary: plan) (auto intro!: frame split: option.split)

lemma stays_plan_truncate [frame]: "stays same_db (plan_truncate E cs ino old_size new_size)"
  unfolding plan_truncate_def Let_def by (auto intro!: frame)

section \<open>Chunks in the view\<close>

definition put_file :: "u64 \<Rightarrow> (u32 \<times> bytes) list \<Rightarrow> fs \<Rightarrow> fs" where
  "put_file ino puts f =
     f\<lparr>fs_chunk := (fs_chunk f)(ino := fold (\<lambda>(idx, b) c. c(idx \<mapsto> b)) puts (fs_chunk f ino))\<rparr>"

definition cut_chunks :: "u64 \<Rightarrow> u32 list \<Rightarrow> fs \<Rightarrow> fs" where
  "cut_chunks ino idxs f =
     f\<lparr>fs_chunk := (fs_chunk f)(ino := (\<lambda>idx. if idx \<in> set idxs then None else fs_chunk f ino idx))\<rparr>"

lemma fs_of_put_chunks [simp]: "fs_of E dek (put_chunks ino puts m) = put_file ino puts (fs_of E dek m)"
proof (induction puts arbitrary: m)
  case Nil
  then show ?case by (simp add: put_chunks_def put_file_def)
next
  case (Cons a puts)
  then show ?case by (cases a) (simp add: put_chunks_def put_file_def)
qed

lemma put_chunks_ok [simp]:
  "counters_ok (put_chunks ino puts m) = counters_ok m" "schema_keys m \<Longrightarrow> schema_keys (put_chunks ino puts m)"
  by (induction puts arbitrary: m) (auto simp: put_chunks_def)

lemma put_chunks_counters [simp]:
  "put_chunks ino puts m (key_bytes KQuotaBytes) = m (key_bytes KQuotaBytes)"
  "put_chunks ino puts m (key_bytes KQuotaInodes) = m (key_bytes KQuotaInodes)"
  by (simp_all add: put_chunks_other)

lemma apply_chunk_puts_append [simp]:
  "apply_batch (chunk_puts ino puts @ ops) m = apply_batch ops (put_chunks ino puts m)"
  by (simp add: apply_batch_append apply_chunk_puts)

text \<open>The bytes, the bill and the shape of a file are those of its chunks.\<close>

lemma chunk_cong:
  assumes "\<And>idx. chunk_at m ino idx = chunk_at m' ino idx"
  shows "file_bytes m cs ino sz = file_bytes m' cs ino sz" "file_billed m cs ino sz = file_billed m' cs ino sz"
    "chunks_wf m cs ino sz = chunks_wf m' cs ino sz"
  using assms by (simp_all add: file_bytes_def byte_at_def file_billed_def chunks_wf_def)

lemma fs_chunk_eq: "fs_chunk (fs_of E dek m) ino idx = chunk_at m ino idx"
  by (simp add: fs_of_def)

section \<open>Writing\<close>

definition written_inode :: "credentials \<Rightarrow> timespec \<Rightarrow> write_plan \<Rightarrow> inode \<Rightarrow> inode" where
  "written_inode creds ts plan i =
     (let i1 = touch_mtime ts (i\<lparr>i_size := wpl_new_size plan, i_billed_bytes := i_billed_bytes i + wpl_billed_delta plan\<rparr>)
      in if \<not> is_root creds \<and> i_mode i1 AND 0xC00 \<noteq> 0 then i1\<lparr>i_mode := i_mode i1 AND NOT 0xC00\<rparr> else i1)"

text \<open>The plan of a write was made from the file as it was.\<close>

definition planned_write :: "'db env \<Rightarrow> 'db volume \<Rightarrow> u64 \<Rightarrow> inode \<Rightarrow> u64 \<Rightarrow> bytes \<Rightarrow> write_plan \<Rightarrow> bool" where
  "planned_write E s ino i off dat plan =
     (\<exists>st st'. same_kv E s st \<and> plan_write (en_engine E) (v_chunk_size s) ino (i_size i) off dat st = (Inr plan, st'))"

definition wrote ::
  "'db env \<Rightarrow> credentials \<Rightarrow> 'db volume \<Rightarrow> u64 \<Rightarrow> u64 \<Rightarrow> bytes \<Rightarrow> 'db volume \<Rightarrow> bool" where
  "wrote E creds s ino off dat t =
     (\<exists>i plan ts. fs_inode (vfs E s) ino = Some i \<and> i_kind i = File \<and> access creds i ACCESS_W = Inr () \<and>
        unat off + unat (of_nat (length dat) :: u64) < 2 ^ 64 \<and>
        off + of_nat (length dat) \<le> v_chunk_size s * 0xFFFFFFFF \<and>
        planned_write E s ino i off dat plan \<and>
        vfs E t = charge (wpl_billed_delta plan) 0
          (put_inode ino (written_inode creds ts plan i) (put_file ino (wpl_puts plan) (vfs E s))))"

lemma wp_plan_write [wp_base]:
  assumes "env_ok E"
    and "\<And>plan st h. same_kv E s st \<Longrightarrow> (\<exists>st'. plan_write (en_engine E) cs ino sz off dat (v_store s) = (Inr plan, st')) \<Longrightarrow>
      Q plan (settle s st h)"
    and "\<And>e st h. same_kv E s st \<Longrightarrow> R e (settle s st h)"
  shows "wp (storage_core (plan_write (en_engine E) cs ino sz off dat)) Q R s"
  by (rule wp_storage_coreI [where E = E]) (use assms(2,3) in \<open>auto intro: frame\<close>)

lemma put_file_simps:
  "fs_bytes (put_file ino puts f) = fs_bytes f" "fs_inodes (put_file ino puts f) = fs_inodes f"
  "fs_inode (put_file ino puts f) = fs_inode f" "fs_dirent (put_file ino puts f) = fs_dirent f"
  "c \<noteq> ino \<Longrightarrow> unused c (put_file ino puts f) = unused c f"
  by (simp_all add: put_file_def unused_def)

lemma cache_ok_put_inode:
  "cache_ok k f \<Longrightarrow> fs_inode g = fs_inode f \<Longrightarrow> fs_dirent g = fs_dirent f \<Longrightarrow>
   cache_ok (cache_insert ino i k) (charge db di (put_inode ino i g))"
  by (auto simp: cache_ok_def cache_defs fs_steps)

lemma charge_simps:
  "fs_bytes (charge db di f) = fs_bytes f + db" "fs_inodes (charge db di f) = fs_inodes f + di"
  "unused c (charge db di f) = unused c f" "fs_inode (charge db di f) = fs_inode f" "fs_dirent (charge db di f) = fs_dirent f"
  by (simp_all add: charge_def unused_def)

lemma put_inode_simps:
  "fs_bytes (put_inode ino i f) = fs_bytes f" "fs_inodes (put_inode ino i f) = fs_inodes f"
  "c \<noteq> ino \<Longrightarrow> unused c (put_inode ino i f) = unused c f"
  by (simp_all add: put_inode_def unused_def)

lemma vfs_write_wp:
  assumes E: "env_ok E" and inv: "vol_inv E s"
  shows "wp (vfs_write E creds ino off dat)
    (\<lambda>n t. n = of_nat (length dat) \<and> vol_inv E t \<and> hframe s t \<and>
       (if dat = [] then vfs E t = vfs E s else wrote E creds s ino off dat t))
    (\<lambda>e t. undone E s t) s"
  unfolding vfs_write_def
proof (intro wp_base [OF E] wp_rules, goal_cases)
  case (4 x i st h xa plan)
  then show ?case using vol_invD(1) [OF inv] by simp
next
  case (5 x i st h xa plan sta ha stb hb ts stc hc i1 ia bs std hd)
  have i: "fs_inode (vfs E s) ino = Some i" "ia = written_inode creds ts plan i" "inode_decode (en_codecs E) bs = Inr ia"
    using 5 by (simp_all add: written_inode_def Let_def)
  let ?f = "charge (wpl_billed_delta plan) 0 (put_inode ino ia (put_file ino (wpl_puts plan) (vfs E s)))"
  have f: "fs_of E (v_dek s) (st_contents (en_engine E) std) = ?f"
    by (rule fs.equality; use 5(15) i(3) vol_invD(1) [OF inv] in
        \<open>simp add: 5(4,8,10,11) fs_steps put_file_simps fs_counters split: if_splits\<close>)
  have m: "counters_ok (st_contents (en_engine E) std)" "schema_keys (st_contents (en_engine E) std)"
    using 5 vol_invD [OF inv] by (auto split: if_splits)
  have w: "wrote E creds s ino off dat t" if "vfs E t = ?f" for t
    unfolding wrote_def
    by (intro exI [of _ i] exI [of _ plan] exI [of _ ts])
       (use 5 that i in \<open>auto simp: planned_write_def checked_add_def split: if_splits\<close>)
  show ?case
    using 5(1) by (intro conjI vol_invI [OF inv, of _ ?f])
       (use f m w used_ino [OF inv i(1)] vol_invD [OF inv] in
         \<open>auto simp: charge_simps put_inode_simps put_file_simps cache_ok_put_inode quota_usage_def hframe_def vframe_def\<close>)
next
  case 6
  then show ?case
    by (intro idle_undone [OF inv]) (simp add: idle_def hframe_def vframe_def quota_usage_def quota_release_def)
next
  case 7
  then show ?case
    by (intro idle_undone [OF inv]) (simp add: idle_def hframe_def vframe_def)
qed (simp_all add: idle_undone [OF inv] undone_refl [OF inv] inv)

section \<open>Deleting chunks\<close>

lemma fs_of_drop_chunks [simp]: "fs_of E dek (drop_chunks ino idxs m) = cut_chunks ino idxs (fs_of E dek m)"
  by (rule fs.equality) (auto simp: fs_of_def drop_chunks_def cut_chunks_def fun_eq_iff split: sum.splits)

lemma drop_chunks_ok [simp]:
  "counters_ok (drop_chunks ino idxs m) = counters_ok m" "schema_keys m \<Longrightarrow> schema_keys (drop_chunks ino idxs m)"
  "drop_chunks ino idxs m (key_bytes KQuotaBytes) = m (key_bytes KQuotaBytes)"
  "drop_chunks ino idxs m (key_bytes KQuotaInodes) = m (key_bytes KQuotaInodes)"
  by (auto simp: drop_chunks_def counters_ok_def schema_keys_def split: if_splits)

lemma apply_chunk_deletes [simp]:
  "apply_batch (map (\<lambda>idx. Delete (key_bytes (KChunk ino idx))) idxs) m = Some (drop_chunks ino idxs m)"
proof -
  have "map (\<lambda>idx. Delete (key_bytes (KChunk ino idx))) idxs = map Delete (map (\<lambda>idx. key_bytes (KChunk ino idx)) idxs)"
    by simp
  then show ?thesis unfolding drop_chunks_def by (simp only: apply_batch_deletes set_map)
qed

lemma cut_chunks_simps:
  "fs_bytes (cut_chunks ino idxs f) = fs_bytes f" "fs_inodes (cut_chunks ino idxs f) = fs_inodes f"
  "fs_inode (cut_chunks ino idxs f) = fs_inode f" "fs_dirent (cut_chunks ino idxs f) = fs_dirent f"
  "unused c f \<Longrightarrow> unused c (cut_chunks ino idxs f)"
  by (auto simp: cut_chunks_def unused_def fun_eq_iff)

lemma cut_chunks_append: "cut_chunks ino xs (cut_chunks ino ys f) = cut_chunks ino (ys @ xs) f"
  by (auto simp: cut_chunks_def fun_eq_iff)

lemma cut_chunks_Nil [simp]: "cut_chunks ino [] f = f"
  by (simp add: cut_chunks_def)

lemma take_groups_of: "concat (take k (groups_of idxs)) = take (k * INLINE_DELETES) idxs"
proof (induction idxs arbitrary: k rule: groups_of.induct)
  case (1 idxs)
  show ?case
  proof (cases "idxs = [] \<or> k = 0")
    case True
    then show ?thesis by (auto simp: groups_of.simps [of "[]"])
  next
    case False
    then obtain j where k: "k = Suc j" by (cases k) auto
    from False 1 [of j] show ?thesis
      by (simp add: groups_of.simps [of idxs] k take_add)
  qed
qed

lemma length_groups_of: "k < length (groups_of idxs) \<Longrightarrow> k * INLINE_DELETES < length idxs"
proof (induction idxs arbitrary: k rule: groups_of.induct)
  case (1 idxs)
  then show ?case
    by (cases "idxs = []"; cases k) (auto simp: groups_of.simps [of idxs] groups_of.simps [of "[]"] less_diff_conv add.commute)
qed

lemma concat_groups_of: "concat (groups_of idxs) = idxs"
proof -
  have "concat (take (length idxs + length (groups_of idxs)) (groups_of idxs)) = idxs"
    unfolding take_groups_of by (simp add: INLINE_DELETES_def)
  then show ?thesis by simp
qed

lemma commit_deletes_wp:
  assumes E: "env_ok E" and inv: "vol_inv E s"
  shows "wp (commit_deletes E ino gs)
    (\<lambda>_ t. vol_inv E t \<and> hframe s t \<and> vfs E t = cut_chunks ino (concat gs) (vfs E s))
    (\<lambda>e t. vol_inv E t \<and> hframe s t \<and> (\<exists>k<length gs. vfs E t = cut_chunks ino (concat (take k gs)) (vfs E s))) s"
  using inv
proof (induction gs arbitrary: s)
  case Nil
  then show ?case by (simp add: wp_simps)
next
  case (Cons g gs)
  have step: "vol_inv E (settle s st h) \<and> vfs E (settle s st h) = cut_chunks ino g (vfs E s)"
    if "Some (st_contents (en_engine E) st) = apply_batch (map (\<lambda>idx. Delete (key_bytes (KChunk ino idx))) g) (vcontents E s)" for st h
    using that vol_invD [OF Cons.prems]
    by (intro conjI vol_invI [OF Cons.prems, of _ "cut_chunks ino g (vfs E s)"])
       (auto simp: cut_chunks_simps quota_usage_def cache_ok_def)
  have hf: "hframe s (settle s st h)" for st h by (simp add: hframe_def vframe_def)
  show ?case
    unfolding commit_deletes.simps
  proof (intro wp_base [OF E] wp_rules, goal_cases)
    case (2 st h)
    note s = step [OF 2, of h]
    show ?case
      by (rule wp_mono [OF Cons.IH]) (use s hf in \<open>auto simp: cut_chunks_append intro: hframe_trans exI [of _ "Suc _"]\<close>)
  next
    case (3 e st h)
    then show ?case using settle_inv [OF Cons.prems] by (auto intro: exI [of _ 0])
  qed simp
qed

section \<open>Setting attributes\<close>

text \<open>The gates of \<open>setattr\<close> in a row; the first that refuses decides.\<close>

definition and_then :: "'e + 'a \<Rightarrow> ('a \<Rightarrow> 'e + 'b) \<Rightarrow> 'e + 'b" where
  "and_then r f = (case r of Inl e \<Rightarrow> Inl e | Inr x \<Rightarrow> f x)"

lemma and_then_Inr: "and_then r f = Inr y \<longleftrightarrow> (\<exists>x. r = Inr x \<and> f x = Inr y)"
  by (simp add: and_then_def split: sum.split)

definition setattr_gates :: "credentials \<Rightarrow> timespec \<Rightarrow> set_attrs \<Rightarrow> inode \<Rightarrow> fs_error + inode" where
  "setattr_gates creds ts attrs i =
     (let own = (c_uid creds = i_uid i)
      in and_then (setattr_mode creds own (s_mode attrs) i) (\<lambda>i.
         and_then (setattr_uid creds own (s_uid attrs) i) (\<lambda>i.
         and_then (setattr_gid creds own (s_gid attrs) i) (\<lambda>i.
         and_then (setattr_time creds own ts True (s_atime attrs) i) (\<lambda>i.
           setattr_time creds own ts False (s_mtime attrs) i)))))"

definition no_plan :: truncate_plan where
  "no_plan = \<lparr>tp_tail_put = None, tp_deletes = [], tp_billed_delta = 0\<rparr>"

definition planned_truncate :: "'db env \<Rightarrow> 'db volume \<Rightarrow> u64 \<Rightarrow> u64 \<Rightarrow> u64 \<Rightarrow> truncate_plan \<Rightarrow> bool" where
  "planned_truncate E s ino old_size new_size plan =
     (\<exists>st st'. same_kv E s st \<and> plan_truncate (en_engine E) (v_chunk_size s) ino old_size new_size st = (Inr plan, st'))"

definition sized ::
  "'db env \<Rightarrow> credentials \<Rightarrow> 'db volume \<Rightarrow> u64 \<Rightarrow> timespec \<Rightarrow> u64 option \<Rightarrow> inode \<Rightarrow> inode \<Rightarrow> truncate_plan \<Rightarrow> bool" where
  "sized E creds s ino ts sz i i' plan =
     (case sz of
        None \<Rightarrow> i' = i \<and> plan = no_plan
      | Some n \<Rightarrow> i_kind i = File \<and> access creds i ACCESS_W = Inr () \<and>
          (if n = i_size i then i' = i \<and> plan = no_plan
           else planned_truncate E s ino (i_size i) n plan \<and>
             i' = i\<lparr>i_size := n, i_billed_bytes := i_billed_bytes i + tp_billed_delta plan, i_mtime := ts\<rparr>))"

definition tail_puts :: "truncate_plan \<Rightarrow> (u32 \<times> bytes) list" where
  "tail_puts plan = (case tp_tail_put plan of None \<Rightarrow> [] | Some x \<Rightarrow> [x])"

definition size_ops :: "u64 \<Rightarrow> truncate_plan \<Rightarrow> batch_op list" where
  "size_ops ino plan =
     chunk_puts ino (tail_puts plan) @
     map (\<lambda>idx. Delete (key_bytes (KChunk ino idx))) (take INLINE_DELETES (tp_deletes plan)) @
     (if tp_billed_delta plan \<noteq> 0 then [Merge (key_bytes KQuotaBytes) (encode_delta (tp_billed_delta plan))] else [])"

lemma setattr_size_wp:
  assumes E: "env_ok E" and kv: "same_kv E s0 (v_store s)" and cs: "v_chunk_size s = v_chunk_size s0"
    and Q: "\<And>i' plan st h. same_kv E s st \<Longrightarrow> sized E creds s0 ino ts sz i i' plan \<Longrightarrow>
      Q (i', size_ops ino plan, tp_billed_delta plan, drop INLINE_DELETES (tp_deletes plan))
        ((settle s st h)\<lparr>v_quota := (v_quota s)\<lparr>qt_bytes := qt_bytes (v_quota s) + tp_billed_delta plan,
          qt_inodes := qt_inodes (v_quota s) + 0\<rparr>\<rparr>)"
    and R: "\<And>e t. idle E s t \<Longrightarrow> R e t"
  shows "wp (setattr_size E creds ino ts sz i) Q R s"
proof -
  have Q0: "Q (i, [], 0, []) s" if "sized E creds s0 ino ts sz i i no_plan"
    using Q [OF _ that, of "v_store s" "v_health s"]
    by (simp add: settle_folds no_plan_def size_ops_def tail_puts_def chunk_puts_def)
  have pl: "\<exists>st'. plan_truncate (en_engine E) cs' ino n n' (v_store s) = (Inr plan, st') \<Longrightarrow> cs' = v_chunk_size s \<Longrightarrow>
    planned_truncate E s0 ino n n' plan" for n n' plan cs'
    unfolding planned_truncate_def using kv cs by auto
  show ?thesis
    unfolding setattr_size_def
  proof (intro wp_rules wp_v_reserve [OF E] wp_storage_coreI [where E = E] frame, goal_cases)
    case (5 n x plan st h st' h')
    have "sized E creds s0 ino ts sz i (i\<lparr>i_size := n, i_billed_bytes := i_billed_bytes i + tp_billed_delta plan, i_mtime := ts\<rparr>) plan"
      using 5 pl [of _ "i_size i" n plan] by (auto simp: sized_def)
    from Q [OF _ this, of st' h'] 5 show ?case
      by (auto simp: size_ops_def tail_puts_def chunk_puts_def split: option.splits)
  next
    case (6 n x plan st h st' h' q)
    then show ?case by (intro R) (simp add: idle_def hframe_def vframe_def)
  qed (use R Q0 in \<open>auto simp: sized_def\<close>)
qed

definition set_attr_fs :: "u64 \<Rightarrow> inode \<Rightarrow> truncate_plan \<Rightarrow> u32 list \<Rightarrow> fs \<Rightarrow> fs" where
  "set_attr_fs ino i plan dels f =
     charge (tp_billed_delta plan) 0 (put_inode ino i (cut_chunks ino dels (put_file ino (tail_puts plan) f)))"

lemma cut_set_attr_fs: "cut_chunks ino xs (set_attr_fs ino i plan ys f) = set_attr_fs ino i plan (ys @ xs) f"
  by (auto simp: set_attr_fs_def cut_chunks_def fs_steps fun_eq_iff)

text \<open>
  \<open>setattr\<close> made its change, with the first \<open>n\<close> of the planned deletes; on success all of
  them.
\<close>

definition attrs_set ::
  "'db env \<Rightarrow> credentials \<Rightarrow> 'db volume \<Rightarrow> u64 \<Rightarrow> set_attrs \<Rightarrow> inode \<Rightarrow> truncate_plan \<Rightarrow> bool" where
  "attrs_set E creds s ino attrs i plan =
     (\<exists>i0 ts i1 i2. fs_inode (vfs E s) ino = Some i0 \<and> setattr_gates creds ts attrs i0 = Inr i1 \<and>
        sized E creds s ino ts (s_size attrs) i1 i2 plan \<and> i = i2\<lparr>i_ctime := ts\<rparr>)"

lemma apply_size_ops:
  assumes "counters_ok m"
  shows "apply_batch (size_ops ino plan @ ops) m = apply_batch ops
    (let m1 = drop_chunks ino (take INLINE_DELETES (tp_deletes plan)) (put_chunks ino (tail_puts plan) m)
     in if tp_billed_delta plan \<noteq> 0
        then m1(key_bytes KQuotaBytes \<mapsto> le64 (decode_counter (m (key_bytes KQuotaBytes)) + tp_billed_delta plan)) else m1)"
  using assms by (simp add: size_ops_def apply_batch_append apply_chunk_puts Let_def del: apply_chunk_puts_append)

lemma setattr_commit:
  assumes E: "env_ok E" and inv: "vol_inv E s" and i: "fs_inode (vfs E s) ino = Some i0"
    and bs: "inode_decode (en_codecs E) bs = Inr i"
    and st: "Some (st_contents (en_engine E) st) = apply_batch (size_ops ino plan @ [Put (key_bytes (KInode ino)) bs]) (vcontents E s)"
    and t: "v_store t = st" "v_dek t = v_dek s" "v_alloc t = v_alloc s" "v_attrs t = cache_insert ino i (v_attrs s)"
      "quota_usage (v_quota t) = (qt_bytes (v_quota s) + tp_billed_delta plan, qt_inodes (v_quota s))"
  shows "vol_inv E t \<and> vfs E t = set_attr_fs ino i plan (take INLINE_DELETES (tp_deletes plan)) (vfs E s)"
proof -
  let ?f = "set_attr_fs ino i plan (take INLINE_DELETES (tp_deletes plan)) (vfs E s)"
  note v = vol_invD [OF inv]
  have f: "fs_of E (v_dek s) (st_contents (en_engine E) st) = ?f"
    by (rule fs.equality; use st bs v(1) in
        \<open>simp add: apply_size_ops Let_def set_attr_fs_def fs_steps put_file_simps cut_chunks_simps fs_counters split: if_splits\<close>)
  have m: "counters_ok (st_contents (en_engine E) st)" "schema_keys (st_contents (en_engine E) st)"
    using st v by (auto simp: apply_size_ops Let_def split: if_splits)
  have un: "unused c ?f" if "unused c (vfs E s)" "c \<noteq> ino" for c
    using that by (auto simp: set_attr_fs_def charge_simps put_inode_simps put_file_simps cut_chunks_simps)
  show ?thesis
    by (intro conjI vol_invI [OF inv, of _ ?f])
       (use t f m v un used_ino [OF inv i] in
        \<open>auto simp: set_attr_fs_def charge_simps put_inode_simps put_file_simps cut_chunks_simps intro!: cache_ok_put_inode [of _ "vfs E s"]\<close>)
qed

lemma setattr_deletes:
  assumes E: "env_ok E" and u: "vol_inv E u" "hframe s u"
    and f: "vfs E u = set_attr_fs ino i plan (take INLINE_DELETES (tp_deletes plan)) (vfs E s)"
    and Q: "\<And>x t. vol_inv E t \<Longrightarrow> hframe s t \<Longrightarrow> vfs E t = set_attr_fs ino i plan (tp_deletes plan) (vfs E s) \<Longrightarrow> Q x t"
    and R: "\<And>e t n. vol_inv E t \<Longrightarrow> hframe s t \<Longrightarrow> INLINE_DELETES \<le> n \<Longrightarrow> n < length (tp_deletes plan) \<Longrightarrow>
      vfs E t = set_attr_fs ino i plan (take n (tp_deletes plan)) (vfs E s) \<Longrightarrow> R e t"
  shows "wp (commit_deletes E ino (groups_of (drop INLINE_DELETES (tp_deletes plan)))) Q R u"
proof (rule wp_mono [OF commit_deletes_wp [OF E u(1)]], goal_cases)
  case (1 x t)
  then show ?case
    using u(2) by (intro Q) (auto simp: f cut_set_attr_fs concat_groups_of intro: hframe_trans)
next
  case (2 e t)
  then obtain k where k: "k < length (groups_of (drop INLINE_DELETES (tp_deletes plan)))"
    and t: "vfs E t = cut_chunks ino (take (k * INLINE_DELETES) (drop INLINE_DELETES (tp_deletes plan))) (vfs E u)"
    by (auto simp: take_groups_of)
  from length_groups_of [OF k] 2 u(2) show ?case
    by (intro R [of t "INLINE_DELETES + k * INLINE_DELETES"]) (auto simp: t f cut_set_attr_fs take_add intro: hframe_trans)
qed

lemma setattr_wp:
  assumes E: "env_ok E" and inv: "vol_inv E s"
  shows "wp (setattr E creds ino attrs)
    (\<lambda>a t. vol_inv E t \<and> hframe s t \<and> (\<exists>i plan. attrs_set E creds s ino attrs i plan \<and>
       a = make_attr ino i \<and> vfs E t = set_attr_fs ino i plan (tp_deletes plan) (vfs E s)))
    (\<lambda>e t. vol_inv E t \<and> hframe s t \<and> (vfs E t = vfs E s \<or> (\<exists>i plan n. attrs_set E creds s ino attrs i plan \<and>
       INLINE_DELETES \<le> n \<and> n < length (tp_deletes plan) \<and> vfs E t = set_attr_fs ino i plan (take n (tp_deletes plan)) (vfs E s)))) s"
  unfolding setattr_def
proof (intro setattr_size_wp [OF E, where ?s0.0 = s] wp_base [OF E] wp_rules, goal_cases)
  case (3 i st h ts sta ha is_owner x xa xb xc xd i' plan stb hb ia bs)
  then show ?case using vol_invD(1) [OF inv] by (simp add: apply_size_ops)
next
  case (4 i st h ts sta ha is_owner x xa xb xc xd i' plan stb hb ia bs stc hc)
  have set: "attrs_set E creds s ino attrs ia plan"
    unfolding attrs_set_def setattr_gates_def and_then_Inr Let_def using 4 by auto
  have st: "Some (st_contents (en_engine E) stc) = apply_batch (size_ops ino plan @ [Put (key_bytes (KInode ino)) bs]) (vcontents E s)"
    using 4 by simp
  have i: "fs_inode (vfs E s) ino = Some i" "inode_decode (en_codecs E) bs = Inr ia" using 4 by auto
  show ?case
  proof (rule setattr_deletes [OF E, where s = s and i = ia and plan = plan], goal_cases)
    case 1
    show ?case by (rule setattr_commit [OF E inv i st, THEN conjunct1]) (simp_all add: quota_usage_def)
  next
    case 2
    show ?case by (simp add: hframe_def vframe_def)
  next
    case 3
    show ?case by (rule setattr_commit [OF E inv i st, THEN conjunct2]) (simp_all add: quota_usage_def)
  next
    case (4 x t)
    then show ?case using set by (intro wp_returnI) blast
  next
    case (5 e t n)
    then show ?case using set by blast
  qed
next
  case (5 i st h ts sta ha is_owner x xa xb xc xd i' plan stb hb ia bs e stc hc)
  have "idle E s ((settle s stc hc)\<lparr>v_quota := quota_release (tp_billed_delta plan) 0
    ((v_quota s)\<lparr>qt_bytes := qt_bytes (v_quota s) + tp_billed_delta plan, qt_inodes := qt_inodes (v_quota s) + 0\<rparr>)\<rparr>)"
    using 5 by (simp add: idle_def hframe_def vframe_def quota_usage_def quota_release_def)
  from idle_inv [OF inv this] 5 show ?case by (auto simp: settle_def)
next
  case (6 i st h ts sta ha is_owner x xa xb xc xd e t)
  then have "idle E s t" by (intro idle_trans [of E s "settle s sta ha" t]) auto
  from idle_inv [OF inv this] show ?case by simp
qed (simp_all add: settle_inv [OF inv])

section \<open>Extended attributes\<close>

definition touched :: "'db env \<Rightarrow> credentials \<Rightarrow> 'db volume \<Rightarrow> u64 \<Rightarrow> bytes \<Rightarrow> bytes option \<Rightarrow> 'db volume \<Rightarrow> bool" where
  "touched E creds s ino name v t =
     (\<exists>i ts. fs_inode (vfs E s) ino = Some i \<and> access creds i ACCESS_W = Inr () \<and>
        vfs E t = put_inode ino (i\<lparr>i_ctime := ts\<rparr>) (put_xattr ino name v (vfs E s)))"

lemma xattr_commit:
  assumes inv: "vol_inv E s" and i: "fs_inode (vfs E s) ino = Some i" and a: "access creds i ACCESS_W = Inr ()"
    and bs: "inode_decode (en_codecs E) bs = Inr (i\<lparr>i_ctime := ts\<rparr>)"
    and st: "st_contents (en_engine E) st = (vcontents E s)(key_bytes (KXattr ino name) := v, key_bytes (KInode ino) \<mapsto> bs)"
  shows "vol_inv E ((settle s st h)\<lparr>v_attrs := cache_insert ino (i\<lparr>i_ctime := ts\<rparr>) (v_attrs s)\<rparr>) \<and>
    touched E creds s ino name v ((settle s st h)\<lparr>v_attrs := cache_insert ino (i\<lparr>i_ctime := ts\<rparr>) (v_attrs s)\<rparr>)"
proof -
  let ?f = "put_inode ino (i\<lparr>i_ctime := ts\<rparr>) (put_xattr ino name v (vfs E s))"
  have f: "fs_of E (v_dek s) (st_contents (en_engine E) st) = ?f"
    by (cases v; rule fs.equality; simp add: st bs fs_steps)
  have c: "cache_ok (cache_insert ino (i\<lparr>i_ctime := ts\<rparr>) (v_attrs s)) ?f"
    using vol_invD(3) [OF inv] by (auto simp: cache_ok_def cache_defs fs_steps)
  have un: "unused c ?f" if "unused c (vfs E s)" "c \<noteq> ino" for c
    using that by (simp add: unused_def fs_steps)
  have b: "fs_bytes ?f = fs_bytes (vfs E s)" "fs_inodes ?f = fs_inodes (vfs E s)" by (simp_all add: fs_steps)
  show ?thesis
    by (intro conjI vol_invI [OF inv, of _ ?f])
       (use f c un b i a vol_invD [OF inv] used_ino [OF inv i] in \<open>auto simp: touched_def quota_usage_def st\<close>)
qed

lemma setxattr_wp:
  assumes E: "env_ok E" and inv: "vol_inv E s"
  shows "wp (setxattr E creds ino name val)
    (\<lambda>_ t. vol_inv E t \<and> hframe s t \<and> touched E creds s ino name (Some val) t) (\<lambda>e t. undone E s t) s"
  unfolding setxattr_def
proof (intro wp_base [OF E] wp_rules, goal_cases)
  case (3 st h i sta ha x ts stb hb ia bs stc hc)
  have i: "fs_inode (vfs E s) ino = Some i" "access creds i ACCESS_W = Inr ()"
    "inode_decode (en_codecs E) bs = Inr (i\<lparr>i_ctime := ts\<rparr>)" using 3 by auto
  have "st_contents (en_engine E) stc = (vcontents E s)(key_bytes (KXattr ino name) \<mapsto> val, key_bytes (KInode ino) \<mapsto> bs)"
    using 3 by simp
  from xattr_commit [OF inv i this, of hc] 3 show ?case by (simp add: hframe_def vframe_def)
next
  case 7
  then show ?case by (intro idle_undone [OF inv]) (simp add: idle_def hframe_def vframe_def)
qed (simp_all add: idle_undone [OF inv] undone_refl [OF inv])

lemma removexattr_wp:
  assumes E: "env_ok E" and inv: "vol_inv E s"
  shows "wp (removexattr E creds ino name)
    (\<lambda>_ t. vol_inv E t \<and> hframe s t \<and> fs_xattr (vfs E s) ino name \<noteq> None \<and> touched E creds s ino name None t)
    (\<lambda>e t. undone E s t) s"
  unfolding removexattr_def
proof (intro wp_base [OF E] wp_rules, goal_cases)
  case (4 i st h x sta ha ts stb hb ia bs stc hc)
  have i: "fs_inode (vfs E s) ino = Some i" "access creds i ACCESS_W = Inr ()"
    "inode_decode (en_codecs E) bs = Inr (i\<lparr>i_ctime := ts\<rparr>)" "fs_xattr (vfs E s) ino name \<noteq> None"
    using 4 by (auto simp: fs_of_def)
  have "st_contents (en_engine E) stc = (vcontents E s)(key_bytes (KXattr ino name) := None, key_bytes (KInode ino) \<mapsto> bs)"
    using 4 by simp
  from xattr_commit [OF inv i(1-3) this, of hc] 4 i(4) show ?case by (simp add: hframe_def vframe_def)
qed (simp_all add: idle_undone [OF inv] undone_refl [OF inv])

end
