(* ===== verification/Reaper.thy ===== *)
theory Reaper
  imports Vfs_Files
begin

text \<open>
  The reaper of \<^verbatim>\<open>volume.rs\<close>: what \<open>reap_orphan_data\<close> deletes. On success every chunk,
  extended attribute, symbolic-link target and the orphan record of the inode are gone and
  nothing else changed; after an error some of the chunks and attributes may be gone. The
  bound on the rounds of the chunk loop is never what ends it.
\<close>

section \<open>Rules for the store\<close>

named_theorems store_rules \<open>rules for engine calls that return the core error\<close>

lemma wp_core_get [store_rules]:
  assumes "engine_ok E" "\<And>t. st_db t = st_db s \<Longrightarrow> Q (st_contents E s k) t" "\<And>e t. st_db t = st_db s \<Longrightarrow> R e t"
  shows "wp (core (store_get E k)) Q R s"
  using assms(2,3) engine_getD [OF assms(1)]
  by (auto simp: wp_def mapErrE_def store_get_def split: sum.splits)

lemma wp_core_scan [store_rules]:
  assumes "engine_ok E" "\<And>kvs t. scan_of (st_contents E s) lo hi kvs \<Longrightarrow> st_db t = st_db s \<Longrightarrow> Q kvs t"
    "\<And>e t. st_db t = st_db s \<Longrightarrow> R e t"
  shows "wp (core (store_scan E lo hi)) Q R s"
  using assms(2,3) engine_scanD [OF assms(1)]
  by (auto simp: wp_def mapErrE_def store_scan_def split: sum.splits)

lemma wp_core_next [store_rules]:
  assumes "engine_ok E" "\<And>t. st_db t = st_db s \<Longrightarrow> Q () t" "\<And>e t. st_db t = st_db s \<Longrightarrow> R e t"
  shows "wp (core (store_next E)) Q R s"
  using assms(2,3) by (auto simp: wp_def mapErrE_def store_next_def split: sum.splits)

lemma wp_core_write [store_rules]:
  assumes "engine_ok E" "\<exists>m. apply_batch ops (st_contents E s) = Some m"
    "\<And>t. Some (st_contents E t) = apply_batch ops (st_contents E s) \<Longrightarrow> Q () t"
    "\<And>e t. st_contents E t = st_contents E s \<Longrightarrow> R e t"
  shows "wp (core (store_write E ops)) Q R s"
  using assms(2-) store_write_Inr [OF assms(1)] errsD [OF errs_store_write [OF assms(1)]]
  by (auto simp: wp_def mapErrE_def same_contents_def split: prod.splits sum.splits)

section \<open>The chunk loop\<close>

definition wiped :: "bytes set \<Rightarrow> kv \<Rightarrow> kv" where
  "wiped ks m = (\<lambda>k. if k \<in> ks then None else m k)"

lemma apply_deletes [simp]:
  "apply_batch (map Delete ks) m = Some (wiped (set ks) m)"
  "apply_batch (map (Delete \<circ> f) xs) m = Some (wiped (f ` set xs) m)"
  using apply_batch_deletes [of ks m] apply_batch_deletes [of "map f xs" m] by (simp_all add: wiped_def)

lemma wiped_wiped: "wiped A (wiped B m) = wiped (B \<union> A) m"
  by (auto simp: wiped_def)

lemma wiped_ok [simp]: "schema_keys m \<Longrightarrow> schema_keys (wiped ks m)"
  by (auto simp: schema_keys_def wiped_def split: if_splits)

definition chunk_keys :: "u64 \<Rightarrow> kv \<Rightarrow> bytes set" where
  "chunk_keys ino m = {key_bytes (KChunk ino i) | i. chunk_at m ino i \<noteq> None}"

definition xattr_keys :: "u64 \<Rightarrow> kv \<Rightarrow> bytes set" where
  "xattr_keys ino m = {key_bytes (KXattr ino n) | n. m (key_bytes (KXattr ino n)) \<noteq> None}"

lemma scan_keys:
  assumes "ino \<noteq> - 1" "schema_keys m"
  shows "scan_of m (chunk_prefix ino) (chunk_prefix (ino + 1)) kvs \<Longrightarrow> fst ` set kvs = chunk_keys ino m \<and> distinct (map fst kvs)"
    and "scan_of m (xattr_prefix ino) (xattr_prefix (ino + 1)) kvs \<Longrightarrow> fst ` set kvs = xattr_keys ino m \<and> distinct (map fst kvs)"
proof -
  have sc: "set kvs = {(k, v). m k = Some v \<and> lo \<le> k \<and> k < hi} \<and> distinct (map fst kvs)" if "scan_of m lo hi kvs" for lo hi
    using that by (auto simp: scan_of_def sorted_wrt_less_distinct)
  have d: "dom m \<subseteq> range key_bytes" using assms(2) by (simp add: schema_keys_def)
  show "scan_of m (chunk_prefix ino) (chunk_prefix (ino + 1)) kvs \<Longrightarrow> fst ` set kvs = chunk_keys ino m \<and> distinct (map fst kvs)"
    by (drule sc) (force simp: chunks.scan_records [OF assms(1) d] chunk_keys_def image_iff)
  show "scan_of m (xattr_prefix ino) (xattr_prefix (ino + 1)) kvs \<Longrightarrow> fst ` set kvs = xattr_keys ino m \<and> distinct (map fst kvs)"
    by (drule sc) (force simp: xattrs.scan_records [OF assms(1) d] xattr_keys_def image_iff)
qed

lemma reap_collect_wp:
  assumes E: "engine_ok E" and len: "length ks < REAP_BATCH"
    and Q: "\<And>t. st_db t = st_db s \<Longrightarrow> Q (ks @ map fst (take (REAP_BATCH - length ks) kvs)) t"
    and R: "\<And>e t. st_db t = st_db s \<Longrightarrow> R e t"
  shows "wp (reap_collect E kvs ks) Q R s"
  using len Q R
proof (induction kvs arbitrary: ks s)
  case Nil
  then show ?case unfolding reap_collect.simps by (intro store_rules [OF E] wp_rules) auto
next
  case (Cons kv kvs)
  obtain k v where kv: "kv = (k, v)" by (cases kv)
  show ?case
    unfolding kv reap_collect.simps
  proof (intro wp_bindI wp_core_next [OF E] wp_rules, goal_cases)
    case (1 t ks')
    then have "REAP_BATCH - length ks = 1" by simp
    with 1 Cons.prems(2) [of t] show ?case by (simp add: kv)
  next
    case (2 t ks')
    obtain d where d: "REAP_BATCH - length ks = Suc d" "REAP_BATCH - length ks' = d"
      using Cons.prems(1) 2 by (cases "REAP_BATCH - length ks") auto
    show ?case
      by (rule Cons.IH) (use 2 d Cons.prems in \<open>auto simp: kv\<close>)
  next
    case (3 e t)
    then show ?case by (rule Cons.prems(3))
  qed
qed

lemma card_chunk_keys: "card (chunk_keys ino m) \<le> 2 ^ 32" "finite (chunk_keys ino m)"
proof -
  have sub: "chunk_keys ino m \<subseteq> (\<lambda>i. key_bytes (KChunk ino i)) ` (UNIV :: u32 set)" by (auto simp: chunk_keys_def)
  then show "finite (chunk_keys ino m)" by (rule finite_subset) simp
  have "card (chunk_keys ino m) \<le> card (UNIV :: u32 set)"
    using card_mono [OF _ sub] card_image_le [of "UNIV :: u32 set" "\<lambda>i. key_bytes (KChunk ino i)"] by simp
  also have "\<dots> = 2 ^ 32" by (simp add: card_word)
  finally show "card (chunk_keys ino m) \<le> 2 ^ 32" .
qed

lemma reap_chunks_wp:
  assumes E: "engine_ok E" and ino: "ino \<noteq> - 1" and sk: "schema_keys (st_contents E s)"
    and card: "card (chunk_keys ino (st_contents E s)) \<le> rounds * REAP_BATCH"
  shows "wp (reap_chunks E ino rounds)
    (\<lambda>_ t. st_contents E t = wiped (chunk_keys ino (st_contents E s)) (st_contents E s))
    (\<lambda>e t. \<exists>ks \<subseteq> chunk_keys ino (st_contents E s). st_contents E t = wiped ks (st_contents E s)) s"
  using sk card
proof (induction rounds arbitrary: s)
  case 0
  then have "chunk_keys ino (st_contents E s) = {}" using card_chunk_keys(2) by simp
  then show ?case by (simp add: reap_chunks.simps [of E ino 0] wp_simps wiped_def)
next
  case (Suc r)
  let ?m = "st_contents E s" let ?K = "chunk_keys ino ?m"
  have none: "\<exists>ks \<subseteq> ?K. st_contents E t = wiped ks ?m" if "st_contents E t = ?m" for t
    using that by (intro exI [of _ "{}"]) (simp add: wiped_def)
  have pos: "0 < REAP_BATCH" by (simp add: REAP_BATCH_def)
  show ?case
    unfolding reap_chunks.simps [of E ino "Suc r"]
  proof (intro store_rules [OF E] reap_collect_wp [OF E] wp_rules, goal_cases)
    case (3 kvs t u)
    then have "fst ` set kvs = {}" using pos by simp
    with 3 scan_keys(1) [OF ino Suc.prems(1)] show ?case by (simp add: wiped_def)
  next
    case (5 kvs t u v)
    then have "set (map fst (take REAP_BATCH kvs)) = ?K" using scan_keys(1) [OF ino Suc.prems(1) 5(2)] by simp
    with 5 show ?case by simp
  next
    case (6 kvs t u v)
    let ?B = "set (map fst (take REAP_BATCH kvs))"
    have sc: "fst ` set kvs = ?K" "distinct (map fst kvs)" using scan_keys(1) [OF ino Suc.prems(1) 6(2)] by auto
    have B: "?B \<subseteq> ?K" using sc(1) set_take_subset [of REAP_BATCH "map fst kvs"] by (simp add: take_map)
    have v: "st_contents E v = wiped ?B ?m" using 6 by simp
    have K: "chunk_keys ino (st_contents E v) = ?K - ?B" unfolding v by (auto simp: chunk_keys_def wiped_def)
    have "card ?B = REAP_BATCH"
      using sc(2) 6 by (simp add: take_map [symmetric] distinct_card del: set_map)
    then have c: "card (?K - ?B) \<le> r * REAP_BATCH" using Suc.prems(2) B by (simp add: card_Diff_subset)
    have un: "?B \<union> (?K - ?B) = ?K" using B by blast
    show ?case
      unfolding diff_Suc_1
    proof (rule wp_mono [OF Suc.IH [of v]], goal_cases)
      case 1
      show ?case unfolding v by (simp add: Suc.prems(1))
    next
      case 2
      show ?case using c by (simp add: K)
    next
      case (3 x w)
      then show ?case unfolding K unfolding v wiped_wiped un .
    next
      case (4 e w)
      then obtain ks where "ks \<subseteq> ?K - ?B" "st_contents E w = wiped (?B \<union> ks) ?m"
        unfolding K unfolding v wiped_wiped by blast
      then show ?case using B by (intro exI [of _ "?B \<union> ks"]) auto
    qed
  qed (use none pos in auto)
qed

section \<open>Reaping an inode\<close>

lemma drain_keys_wp:
  assumes E: "engine_ok E" and Q: "\<And>t. st_db t = st_db s \<Longrightarrow> Q (ks @ map fst kvs) t" and R: "\<And>e t. st_db t = st_db s \<Longrightarrow> R e t"
  shows "wp (core (drain_keys E kvs ks)) Q R s"
proof -
  have "wp (drain_keys E kvs ks) Q (\<lambda>e. R (E_SlateDb e)) s"
    using Q R
  proof (induction kvs arbitrary: ks s)
    case Nil
    then show ?case by (auto simp: wp_simps wp_def [of "store_next E"] store_next_def split: sum.splits)
  next
    case (Cons kv kvs)
    obtain k v where kv: "kv = (k, v)" by (cases kv)
    have "wp (drain_keys E kvs (ks @ [k])) Q (\<lambda>e. R (E_SlateDb e)) (tick s)"
      by (rule Cons.IH) (use Cons.prems in \<open>auto simp: kv\<close>)
    with Cons.prems(2) [of "tick s"] show ?case
      by (auto simp: kv wp_simps wp_def [of "store_next E"] store_next_def split: sum.splits)
  qed
  then show ?thesis by (rule wp_mapErrI)
qed

text \<open>The keys that make up the data of an inode, and what a failed reaping may have deleted.\<close>

definition data_keys :: "u64 \<Rightarrow> kv \<Rightarrow> bytes set" where
  "data_keys ino m =
     chunk_keys ino m \<union> xattr_keys ino m \<union> {key_bytes (KSymlink ino), key_bytes (KOrphan ino)}"

lemma reap_orphan_data_wp:
  assumes E: "engine_ok E" and ino: "ino \<noteq> - 1" and sk: "schema_keys (st_contents E s)"
  shows "wp (reap_orphan_data E ino)
    (\<lambda>_ t. st_contents E t = wiped (data_keys ino (st_contents E s)) (st_contents E s))
    (\<lambda>e t. \<exists>ks \<subseteq> chunk_keys ino (st_contents E s). st_contents E t = wiped ks (st_contents E s)) s"
proof -
  let ?m = "st_contents E s"
  have "card (chunk_keys ino ?m) \<le> 2 ^ 32" by (rule card_chunk_keys)
  also have "(2::nat) ^ 32 \<le> reap_rounds * REAP_BATCH" by (simp add: reap_rounds_def REAP_BATCH_def)
  finally have card: "card (chunk_keys ino ?m) \<le> reap_rounds * REAP_BATCH" .
  let ?m1 = "wiped (chunk_keys ino ?m) ?m"
  have xk: "xattr_keys ino ?m1 = xattr_keys ino ?m" by (auto simp: xattr_keys_def wiped_def chunk_keys_def)
  have rest: "wp (bindE (core (store_scan E (xattr_prefix ino) (xattr_prefix (ino + 1)))) (\<lambda>kvs.
     bindE (core (drain_keys E kvs [])) (\<lambda>ks.
       core (store_write E
         (map Delete ks @ [Delete (key_bytes (KSymlink ino)), Delete (key_bytes (KOrphan ino))])))))
    (\<lambda>_ t. st_contents E t = wiped (data_keys ino ?m) ?m)
    (\<lambda>e t. \<exists>ks \<subseteq> chunk_keys ino ?m. st_contents E t = wiped ks ?m) u" if u: "st_contents E u = ?m1" for u
  proof (intro drain_keys_wp [OF E] store_rules [OF E] wp_rules, goal_cases)
    case (2 kvs t v w)
    have "fst ` set kvs = xattr_keys ino ?m" using scan_keys(2) [OF ino _ 2(1)] sk by (simp add: u xk)
    then have "set (map fst kvs) = xattr_keys ino ?m" by simp
    with 2 show ?case
      by (simp add: u apply_batch_append data_keys_def wiped_def fun_eq_iff)
  qed (use u in \<open>auto simp: apply_batch_append\<close>)
  show ?thesis
    unfolding reap_orphan_data_def
    by (intro wp_bindI wp_mono [OF reap_chunks_wp [OF E ino sk card]] rest) auto
qed

section \<open>On a mounted volume\<close>

definition reaped :: "u64 \<Rightarrow> fs \<Rightarrow> fs" where
  "reaped ino f =
     f\<lparr>fs_chunk := (fs_chunk f)(ino := Map.empty), fs_xattr := (fs_xattr f)(ino := Map.empty),
       fs_symlink := (fs_symlink f)(ino := None), fs_orphan := (fs_orphan f)(ino := None)\<rparr>"

lemma reaped_simps:
  "fs_bytes (reaped ino f) = fs_bytes f" "fs_inodes (reaped ino f) = fs_inodes f"
  "fs_inode (reaped ino f) = fs_inode f" "fs_dirent (reaped ino f) = fs_dirent f"
  "cache_ok c (reaped ino f) = cache_ok c f" "cache_ok c (cut_chunks ino idxs f) = cache_ok c f"
  "unused i f \<Longrightarrow> unused i (reaped ino f)"
  by (auto simp: reaped_def unused_def cache_ok_def cut_chunks_simps)

lemma wiped_chunk:
  assumes "ks \<subseteq> chunk_keys ino m"
  shows "wiped ks m (key_bytes k) = (case k of KChunk i idx \<Rightarrow> if key_bytes k \<in> ks then None else m (key_bytes k) | _ \<Rightarrow> m (key_bytes k))"
  using assms by (auto simp: wiped_def chunk_keys_def split: rkey.splits)

lemma fs_of_wiped_chunks:
  assumes "ks \<subseteq> chunk_keys ino m"
  obtains idxs where "fs_of E dek (wiped ks m) = cut_chunks ino idxs (fs_of E dek m)"
proof -
  obtain idxs where idxs: "set idxs = {i :: u32. key_bytes (KChunk ino i) \<in> ks}"
    using finite_list [of "{i :: u32. key_bytes (KChunk ino i) \<in> ks}"] by auto
  have "key_bytes (KChunk i j) \<notin> ks" if "i \<noteq> ino" for i j using assms that by (auto simp: chunk_keys_def)
  then have "fs_of E dek (wiped ks m) = cut_chunks ino idxs (fs_of E dek m)"
    by (intro fs.equality) (auto simp: fs_of_def cut_chunks_def idxs fun_eq_iff wiped_chunk [OF assms] split: sum.splits)
  then show ?thesis by (rule that)
qed

lemma fs_of_wiped_data: "fs_of E dek (wiped (data_keys ino m) m) = reaped ino (fs_of E dek m)"
  by (rule fs.equality)
     (auto simp: fs_of_def reaped_def wiped_def data_keys_def chunk_keys_def xattr_keys_def fun_eq_iff split: sum.splits)

lemma wiped_counters:
  "counters_ok (wiped (data_keys ino m) m) = counters_ok m"
  "ks \<subseteq> chunk_keys ino m \<Longrightarrow> counters_ok (wiped ks m) = counters_ok m"
  by (simp add: counters_ok_def wiped_def data_keys_def chunk_keys_def xattr_keys_def)
     (simp add: counters_ok_def wiped_chunk)

lemma reap_orphan_wp:
  assumes E: "env_ok E" and inv: "vol_inv E s" and ino: "ino < al_next (v_alloc s)"
  shows "wp (reap_orphan E ino)
    (\<lambda>_ t. vol_inv E t \<and> hframe s t \<and> vfs E t = reaped ino (vfs E s))
    (\<lambda>e t. vol_inv E t \<and> hframe s t \<and> (\<exists>idxs. vfs E t = cut_chunks ino idxs (vfs E s))) s"
proof -
  note v = vol_invD [OF inv]
  have ne: "ino \<noteq> - 1" using ino by (metis word_not_simps(3))
  note w = reap_orphan_data_wp [OF env_okD(1) [OF E] ne v(2)]
  have in_store: "wp (in_store m) Q R s" if "wp m (\<lambda>x st. Q x (s\<lparr>v_store := st\<rparr>)) (\<lambda>e st. R e (s\<lparr>v_store := st\<rparr>)) (v_store s)"
    for m :: "('a store, core_error, unit) act" and Q R
    using that by (simp add: wp_def in_store_def split: prod.splits sum.splits)
  have hf: "hframe s (s\<lparr>v_store := st\<rparr>)" for st by (simp add: hframe_def vframe_def)
  have ok: "vol_inv E (s\<lparr>v_store := st\<rparr>)" if "st_contents (en_engine E) st = m" "fs_of E (v_dek s) m = f"
    "counters_ok m" "schema_keys m" "f = reaped ino (vfs E s) \<or> f = cut_chunks ino idxs (vfs E s)" for st m f idxs
    by (rule vol_invI [OF inv, of _ f])
       (use that v in \<open>auto simp: reaped_simps cut_chunks_simps quota_usage_def\<close>)
  show ?thesis
    unfolding reap_orphan_def
  proof (intro wp_mapErrI in_store, rule wp_mono [OF w], goal_cases)
    case (1 x st)
    from ok [OF 1 fs_of_wiped_data] v 1 show ?case by (simp add: hf wiped_counters fs_of_wiped_data)
  next
    case (2 e st)
    then obtain ks where ks: "ks \<subseteq> chunk_keys ino (vcontents E s)" and st: "st_contents (en_engine E) st = wiped ks (vcontents E s)"
      by auto
    obtain idxs where i: "fs_of E (v_dek s) (wiped ks (vcontents E s)) = cut_chunks ino idxs (vfs E s)"
      by (rule fs_of_wiped_chunks [OF ks])
    from ok [OF st i] v ks show ?case by (auto simp: hf st i wiped_counters)
  qed
qed

end
