(* ===== verification/Vfs_Unlink.thy ===== *)
theory Vfs_Unlink
  imports Reaper
begin

text \<open>
  Unlinking: what \<open>unlink\<close> does to the file system and what a failure leaves. A failed
  reaping is the one failure after a commit: the entry is gone and the orphan record is
  still there for the next mount. Batches are read as compositions of elementary steps.
\<close>

section \<open>Batches and the steps they perform\<close>

definition batch_does :: "'db env \<Rightarrow> bytes \<Rightarrow> batch_op list \<Rightarrow> (fs \<Rightarrow> fs) \<Rightarrow> bool" where
  "batch_does E dek ops g =
     (\<forall>m. counters_ok m \<longrightarrow>
        (\<exists>m'. apply_batch ops m = Some m' \<and> counters_ok m' \<and> fs_of E dek m' = g (fs_of E dek m) \<and>
              (schema_keys m \<longrightarrow> schema_keys m')))"

lemma batch_does_append: "batch_does E dek a g \<Longrightarrow> batch_does E dek b k \<Longrightarrow> batch_does E dek (a @ b) (\<lambda>f. k (g f))"
  by (fastforce simp: batch_does_def apply_batch_append split: option.split)

lemma batch_does_Nil: "batch_does E dek [] (\<lambda>f. f)"
  by (simp add: batch_does_def)

lemma batch_does_Cons: "batch_does E dek [a] g \<Longrightarrow> batch_does E dek b k \<Longrightarrow> batch_does E dek (a # b) (\<lambda>f. k (g f))"
  using batch_does_append [of E dek "[a]" g b k] by simp

lemma batch_puts:
  "inode_decode (en_codecs E) bs = Inr i \<Longrightarrow> batch_does E dek [Put (key_bytes (KInode ino)) bs] (put_inode ino i)"
  "orphan_decode (en_codecs E) bs = Inr x \<Longrightarrow> batch_does E dek [Put (key_bytes (KOrphan ino)) bs] (put_orphan ino x)"
  "batch_does E dek [Delete (key_bytes (KInode ino))] (del_inode ino)"
  "batch_does E dek [Merge (key_bytes KQuotaBytes) (encode_delta b)] (charge b 0)"
  "batch_does E dek [Merge (key_bytes KQuotaInodes) (encode_delta b)] (charge 0 b)"
  by (auto simp: batch_does_def fs_steps fs_counters)

lemma batch_entry:
  assumes "siv_ok (en_siv E)" "seal_name (en_siv E) dek p name = Inr enc"
  shows "batch_does E dek [Delete (key_bytes (KDirent p enc)), Delete (key_bytes (KDirentIdx p n))] (del_entry p name n)"
    "dirent_decode (en_codecs E) bs = Inr d \<Longrightarrow> d_name d = name \<Longrightarrow> n = d_dirent_id d \<Longrightarrow>
     dirent_idx_decode (en_codecs E) bs' = Inr \<lparr>e_enc_name = enc, e_child_ino = d_child_ino d, e_kind = d_kind d\<rparr> \<Longrightarrow>
     batch_does E dek [Put (key_bytes (KDirent p enc)) bs, Put (key_bytes (KDirentIdx p n)) bs'] (put_entry p d enc)"
  using assms by (auto simp: batch_does_def fs_steps)

text \<open>A commit of a batch whose steps are known.\<close>

lemma commitI:
  assumes E: "env_ok E" and inv: "counters_ok (vcontents E s)" and b: "batch_does E (v_dek s) ops g"
    and Q: "\<And>st h. fs_of E (v_dek s) (st_contents (en_engine E) st) = g (vfs E s) \<Longrightarrow>
      counters_ok (st_contents (en_engine E) st) \<Longrightarrow>
      (schema_keys (vcontents E s) \<Longrightarrow> schema_keys (st_contents (en_engine E) st)) \<Longrightarrow> Q () (settle s st h)"
    and R: "\<And>e st h. same_kv E s st \<Longrightarrow> R e (settle s st h)"
  shows "wp (commit E ops) Q R s"
proof -
  from b inv obtain m' where "apply_batch ops (vcontents E s) = Some m'" "counters_ok m'" "fs_of E (v_dek s) m' = g (vfs E s)"
    "schema_keys (vcontents E s) \<Longrightarrow> schema_keys m'"
    unfolding batch_does_def by blast
  then show ?thesis by (intro wp_commit [OF E] R) (auto intro: Q)
qed

section \<open>Freeing\<close>

definition small_bills :: "fs \<Rightarrow> bool" where
  "small_bills f = (\<forall>ino i. fs_inode f ino = Some i \<longrightarrow> unat (i_billed_bytes i) < 2 ^ 63)"

lemma free_not_positive:
  fixes b :: i64
  assumes "unat b < 2 ^ 63"
  shows "sint (- b) \<le> 0"
proof -
  have "int (unat b) < 2 ^ 63" using assms by (metis of_nat_less_iff of_nat_numeral of_nat_power)
  then have "sint (- b) = - int (unat b)"
    by (simp only: sint_word_minus sint_small [OF assms]) (rule signed_take_bit_int_eq_self, simp_all del: of_nat_unat)
  then show ?thesis by (simp del: of_nat_unat)
qed

text \<open>A freed quota is never refused, and the caller does not look at the answer.\<close>

lemma freeI:
  assumes E: "env_ok E" and "sint db \<le> 0" "sint di \<le> 0"
    and Q: "\<And>st h. same_kv E s st \<Longrightarrow>
      Q () ((settle s st h)\<lparr>v_quota := (v_quota s)\<lparr>qt_bytes := qt_bytes (v_quota s) + db, qt_inodes := qt_inodes (v_quota s) + di\<rparr>\<rparr>)"
  shows "wp (ignoring (v_reserve E db di)) Q R s"
  unfolding ignoring_def by (intro wp_base [OF E] wp_rules) (use Q assms in auto)

lemma reap_orphanI:
  assumes "env_ok E" "vol_inv E s" "ino < al_next (v_alloc s)" and s0: "hframe s0 s" "vfs E s = f"
    and "\<And>t. vol_inv E t \<Longrightarrow> hframe s0 t \<Longrightarrow> vfs E t = reaped ino f \<Longrightarrow> Q () t"
    and "\<And>e t idxs. vol_inv E t \<Longrightarrow> hframe s0 t \<Longrightarrow> vfs E t = cut_chunks ino idxs f \<Longrightarrow> R e t"
  shows "wp (reap_orphan E ino) Q R s"
  by (rule wp_mono [OF reap_orphan_wp [OF assms(1-3)]]) (use assms(6,7) s0 hframe_trans [OF s0(1)] in auto)

section \<open>The last link\<close>

definition orphan_of :: "inode \<Rightarrow> orphan" where
  "orphan_of i = \<lparr>o_size = i_size i, o_kind = i_kind i\<rparr>"

text \<open>An open file stays, with no link; a closed one leaves its data to the reaper.\<close>

definition buried :: "bool \<Rightarrow> timespec \<Rightarrow> u64 \<Rightarrow> inode \<Rightarrow> fs \<Rightarrow> fs" where
  "buried opened ts c i f =
     (if opened then put_inode c (i\<lparr>i_nlink := 0, i_ctime := ts\<rparr>) (put_orphan c (orphan_of i) f)
      else charge (- i_billed_bytes i) (- 1) (del_inode c (put_orphan c (orphan_of i) f)))"

lemma buried_eq:
  "buried True ts c i = (\<lambda>f. put_inode c (i\<lparr>i_nlink := 0, i_ctime := ts\<rparr>) (put_orphan c (orphan_of i) f))"
  "buried False ts c i = (\<lambda>f. charge (- i_billed_bytes i) (- 1) (del_inode c (put_orphan c (orphan_of i) f)))"
  by (simp_all add: buried_def fun_eq_iff)

lemma batch_bury:
  "batch_does E dek (bury_batch c i) (\<lambda>f. charge (- i_billed_bytes i) (- 1) (del_inode c f))"
proof -
  have eq: "charge (- i_billed_bytes i) (- 1) (del_inode c f) =
    charge 0 (- 1) (charge (- i_billed_bytes i) 0 (del_inode c f))" for f
    by (simp add: charge_def)
  show ?thesis
    unfolding bury_batch_def eq
    by (rule batch_does_Cons [OF batch_puts(3) batch_does_Cons [OF batch_puts(4) batch_puts(5)]])
qed

lemma bury_inodeI:
  assumes E: "env_ok E"
    and Q: "\<And>ops ts st h. same_kv E s st \<Longrightarrow> batch_does E (v_dek s) ops (buried (is_open c (v_handles s)) ts c i) \<Longrightarrow>
      Q (ops, \<not> is_open c (v_handles s), if is_open c (v_handles s) then 0 else - i_billed_bytes i,
         if is_open c (v_handles s) then 0 else - 1) (settle s st h)"
  shows "wp (bury_inode E c i) Q R s"
  unfolding bury_inode_def
proof (intro wp_base [OF E] wp_rules, goal_cases)
  case (1 x ts st h bs)
  have "batch_does E (v_dek s) [Put (key_bytes (KOrphan c)) x, Put (key_bytes (KInode c)) bs] (buried True ts c i)"
    using 1 batch_does_Cons [OF batch_puts(2) batch_puts(1)] by (simp add: buried_eq orphan_of_def)
  with 1 Q show ?case by auto
next
  case (2 x)
  have "batch_does E (v_dek s) (Put (key_bytes (KOrphan c)) x # bury_batch c i) (buried False ts c i)" for ts
    using 2 batch_does_Cons [OF batch_puts(2) batch_bury] by (simp add: buried_eq orphan_of_def)
  with 2 Q [of "v_store s" _ undefined "v_health s"] show ?case by (simp add: settle_folds)
qed

section \<open>Unlink\<close>

definition drop_link :: "bool \<Rightarrow> timespec \<Rightarrow> timespec \<Rightarrow> u64 \<Rightarrow> inode \<Rightarrow> fs \<Rightarrow> fs" where
  "drop_link opened ts ts2 c i f =
     (if i_nlink i = 1 then buried opened ts2 c (i\<lparr>i_nlink := 0\<rparr>) f
      else put_inode c (i\<lparr>i_nlink := i_nlink i - 1, i_ctime := ts\<rparr>) f)"

definition unlink_fs ::
  "bool \<Rightarrow> timespec \<Rightarrow> timespec \<Rightarrow> u64 \<Rightarrow> inode \<Rightarrow> bytes \<Rightarrow> dirent \<Rightarrow> inode \<Rightarrow> fs \<Rightarrow> fs" where
  "unlink_fs opened ts ts2 p dir name d i f =
     drop_link opened ts ts2 (d_child_ino d) i (put_inode p (touch_mtime ts dir) (del_entry p name (d_dirent_id d) f))"

definition may_remove :: "credentials \<Rightarrow> u64 \<Rightarrow> inode \<Rightarrow> u64 \<Rightarrow> inode \<Rightarrow> fs \<Rightarrow> bool" where
  "may_remove creds p dir c i f =
     (fs_inode f p = Some dir \<and> i_kind dir = Dir \<and> access creds dir (ACCESS_W OR ACCESS_X) = Inr () \<and>
      fs_inode f c = Some i \<and> check_sticky creds dir i = Inr ())"

text \<open>The file system after \<open>unlink\<close>, and the one a failed reaping leaves.\<close>

definition unlinked :: "'db env \<Rightarrow> credentials \<Rightarrow> 'db volume \<Rightarrow> u64 \<Rightarrow> bytes \<Rightarrow> dirent \<Rightarrow> 'db volume \<Rightarrow> bool" where
  "unlinked E creds s p name d t =
     (let c = d_child_ino d; opened = is_open c (v_handles s) in
      \<exists>dir i ts ts2. may_remove creds p dir c i (vfs E s) \<and> i_kind i \<noteq> Dir \<and>
        vfs E t = (if i_nlink i = 1 \<and> \<not> opened then reaped c else id)
          (unlink_fs opened ts ts2 p dir name d i (vfs E s)))"

definition unlink_torn :: "'db env \<Rightarrow> credentials \<Rightarrow> 'db volume \<Rightarrow> u64 \<Rightarrow> bytes \<Rightarrow> dirent \<Rightarrow> 'db volume \<Rightarrow> bool" where
  "unlink_torn E creds s p name d t =
     (let c = d_child_ino d in
      \<exists>dir i ts ts2 idxs. may_remove creds p dir c i (vfs E s) \<and> i_kind i \<noteq> Dir \<and> i_nlink i = 1 \<and>
        \<not> is_open c (v_handles s) \<and> vfs E t = cut_chunks c idxs (unlink_fs False ts ts2 p dir name d i (vfs E s)))"

lemma drop_linkI:
  fixes E s c child defines "opened \<equiv> is_open c (v_handles s)" and "gone \<equiv> i_nlink child = 0 \<and> \<not> is_open c (v_handles s)"
  assumes E: "env_ok E"
    and Q: "\<And>ops ts2 st h. same_kv E s st \<Longrightarrow>
      (\<forall>i. child = i\<lparr>i_nlink := i_nlink i - 1\<rparr> \<longrightarrow> batch_does E (v_dek s) ops (drop_link opened ts ts2 c i)) \<Longrightarrow>
      Q (ops, gone, if gone then - i_billed_bytes child else 0, if gone then - 1 else 0) (settle s st h)"
  shows "wp (if i_nlink child = 0 then bury_inode E c child
      else bindE (coreR (inode_encode (en_codecs E) (child\<lparr>i_ctime := ts\<rparr>))) (\<lambda>bs.
             returnE ([Put (key_bytes (KInode c)) bs], False, 0, 0))) Q R s"
proof (intro bury_inodeI [OF E] wp_base [OF E] wp_rules, goal_cases)
  case (1 ops ts2 st h)
  have "drop_link opened ts ts2 c i = buried opened ts2 c child" if "child = i\<lparr>i_nlink := i_nlink i - 1\<rparr>" for i
    using 1 by (simp add: fun_eq_iff drop_link_def that)
  with 1(3) have "\<forall>i. child = i\<lparr>i_nlink := i_nlink i - 1\<rparr> \<longrightarrow> batch_does E (v_dek s) ops (drop_link opened ts ts2 c i)"
    by (auto simp: opened_def)
  from Q [OF 1(2) this, of h] 1(1) show ?case by (simp add: gone_def split: if_splits)
next
  case (2 bs)
  have "drop_link opened ts ts2 c i = put_inode c (child\<lparr>i_ctime := ts\<rparr>)" if "child = i\<lparr>i_nlink := i_nlink i - 1\<rparr>" for i ts2
    using 2 by (auto simp: fun_eq_iff drop_link_def that)
  with batch_puts(1) [OF 2(2)] have "\<forall>i. child = i\<lparr>i_nlink := i_nlink i - 1\<rparr> \<longrightarrow>
      batch_does E (v_dek s) [Put (key_bytes (KInode c)) bs] (drop_link opened ts ts2 c i)" for ts2 by metis
  from Q [OF refl this, of "v_health s"] 2(1) show ?case by (simp add: gone_def settle_folds)
qed

lemma drop_link_simps:
  "fs_bytes (drop_link opened ts ts2 c i f) = fs_bytes f + (if i_nlink i = 1 \<and> \<not> opened then - i_billed_bytes i else 0)"
  "fs_inodes (drop_link opened ts ts2 c i f) = fs_inodes f + (if i_nlink i = 1 \<and> \<not> opened then - 1 else 0)"
  "unused k f \<Longrightarrow> k \<noteq> c \<Longrightarrow> unused k (drop_link opened ts ts2 c i f)"
  "cache_ok a f \<Longrightarrow> ac_attrs a c = None \<Longrightarrow> cache_ok a (drop_link opened ts ts2 c i f)"
  by (auto simp: drop_link_def buried_def fs_steps unused_def cache_ok_def)

lemma cache_ok_del_entry:
  "cache_ok a f \<Longrightarrow> cache_ok (cache_insert_negative p name (cache_insert p dir a)) (put_inode p dir (del_entry p name n f))"
  by (auto simp: cache_ok_def cache_defs fs_steps)

lemma cache_remove_ok: "cache_ok a f \<Longrightarrow> cache_ok (cache_remove c a) f" "ac_attrs (cache_remove c a) c = None"
  by (auto simp: cache_ok_def cache_defs)

lemma cache_remove_negative_swap: "cache_insert_negative p n (cache_remove c a) = cache_remove c (cache_insert_negative p n a)"
  by (simp add: cache_defs)

lemma unlink_inv:
  assumes inv: "vol_inv E s" and may: "may_remove creds p dir (d_child_ino d) i (vfs E s)"
    and f: "vfs E t = unlink_fs opened ts ts2 p dir name d i (vfs E s)"
    and m: "counters_ok (vcontents E t)" "schema_keys (vcontents E t)" "v_alloc t = v_alloc s"
    and a: "v_attrs t = cache_insert_negative p name (cache_remove (d_child_ino d) (cache_insert p (touch_mtime ts dir) (v_attrs s)))"
    and q: "qt_bytes (v_quota t) = qt_bytes (v_quota s) + (if i_nlink i = 1 \<and> \<not> opened then - i_billed_bytes i else 0)"
      "qt_inodes (v_quota t) = qt_inodes (v_quota s) + (if i_nlink i = 1 \<and> \<not> opened then - 1 else 0)"
  shows "vol_inv E t"
proof (rule vol_invI [OF inv f m(1,2)])
  let ?g = "put_inode p (touch_mtime ts dir) (del_entry p name (d_dirent_id d) (vfs E s))"
  have u: "p < al_next (v_alloc s)" "d_child_ino d < al_next (v_alloc s)"
    using may used_ino [OF inv] by (auto simp: may_remove_def)
  show "cache_ok (v_attrs t) (unlink_fs opened ts ts2 p dir name d i (vfs E s))"
    unfolding unlink_fs_def a cache_remove_negative_swap
    by (intro drop_link_simps(4) cache_remove_ok cache_ok_del_entry vol_invD(3) [OF inv])
  show "quota_usage (v_quota t) = (fs_bytes (unlink_fs opened ts ts2 p dir name d i (vfs E s)),
    fs_inodes (unlink_fs opened ts ts2 p dir name d i (vfs E s)))"
    using vol_invD(4,5) [OF inv] by (simp add: quota_usage_def unlink_fs_def drop_link_simps q fs_steps)
  show "unused k (unlink_fs opened ts ts2 p dir name d i (vfs E s))"
    if "al_next (v_alloc s) \<le> k" "unused k (vfs E s)" for k
  proof -
    have "k \<noteq> p" "k \<noteq> d_child_ino d" using that u by auto
    then show ?thesis unfolding unlink_fs_def
      by (intro drop_link_simps(3)) (use that in \<open>simp_all add: fs_steps unused_def\<close>)
  qed
qed (simp add: m)

lemma unlink_batch:
  assumes "env_ok E" "seal_name (en_siv E) dek p name = Inr enc" "inode_decode (en_codecs E) bs = Inr (touch_mtime ts dir)"
    and "batch_does E dek ops (drop_link opened ts ts2 (d_child_ino d) i)"
  shows "batch_does E dek ([Delete (key_bytes (KDirent p enc)), Delete (key_bytes (KDirentIdx p (d_dirent_id d))),
      Put (key_bytes (KInode p)) bs] @ ops) (unlink_fs opened ts ts2 p dir name d i)"
  using batch_does_append [OF batch_does_append [OF batch_entry(1) [OF env_okD(3) [OF assms(1)] assms(2)] batch_puts(1) [OF assms(3)]] assms(4)]
  by (simp add: unlink_fs_def [abs_def])

lemma batch_doesD:
  assumes "batch_does E dek ops g" "counters_ok m"
  shows "\<exists>m'. apply_batch ops m = Some m'"
    "Some m' = apply_batch ops m \<Longrightarrow> fs_of E dek m' = g (fs_of E dek m)"
    "Some m' = apply_batch ops m \<Longrightarrow> counters_ok m'"
    "Some m' = apply_batch ops m \<Longrightarrow> schema_keys m \<Longrightarrow> schema_keys m'"
  using assms by (auto simp: batch_does_def)

lemma unlink_locked_wp:
  assumes E: "env_ok E" and inv: "vol_inv E s" and small: "small_bills (vfs E s)"
  shows "wp (unlink_locked E creds p name d)
    (\<lambda>_ t. vol_inv E t \<and> hframe s t \<and> unlinked E creds s p name d t)
    (\<lambda>e t. undone E s t \<or> vol_inv E t \<and> hframe s t \<and> unlink_torn E creds s p name d t) s"
  unfolding unlink_locked_def
proof (intro drop_linkI [OF E] freeI [OF E] wp_base [OF E] wp_rules, goal_cases)
  case (2 dir st h x i sta ha xa ts stb hb dira enc bs child ops ts2 stc hc)
  then show ?case
    using batch_doesD(1) [OF unlink_batch [OF E, of "v_dek s" p name enc bs ts dir ops
      "is_open (d_child_ino d) (v_handles s)" ts2 d i] vol_invD(1) [OF inv]] by simp
next
  case (3 dir st h x i sta ha xa ts stb hb dira enc bs child ops ts2 stc hc std hd)
  then show ?case using small by (auto simp: small_bills_def intro!: free_not_positive)
next
  case (5 dir st h x i sta ha xa ts stb hb dira enc bs child ops ts2 stc hc std hd ste he)
  have i: "i_nlink i = 1" "i_kind i \<noteq> Dir" "\<not> is_open (d_child_ino d) (v_handles s)"
    "may_remove creds p dir (d_child_ino d) i (vfs E s)" using 5 by (auto simp: may_remove_def is_dir_def)
  have b: "batch_does E (v_dek s) ([Delete (key_bytes (KDirent p enc)), Delete (key_bytes (KDirentIdx p (d_dirent_id d))),
      Put (key_bytes (KInode p)) bs] @ ops) (unlink_fs False ts ts2 p dir name d i)"
    using 5 i by (intro unlink_batch [OF E]) simp_all
  note m = batch_doesD(2-4) [OF b vol_invD(1) [OF inv], of "st_contents (en_engine E) std"]
  have "unlinked E creds s p name d t" if "vfs E t = reaped (d_child_ino d) (unlink_fs False ts ts2 p dir name d i (vfs E s))" for t
    using i that by (auto simp: unlinked_def Let_def)
  moreover have "unlink_torn E creds s p name d t"
    if "vfs E t = cut_chunks (d_child_ino d) idxs (unlink_fs False ts ts2 p dir name d i (vfs E s))" for t idxs
    unfolding unlink_torn_def Let_def using i that by blast
  ultimately show ?case
    by (intro reap_orphanI [OF E, of _ _ s "unlink_fs False ts ts2 p dir name d i (vfs E s)"]
        unlink_inv [OF inv i(4), of _ False ts ts2])
       (use 5 m i used_ino [OF inv] vol_invD(2) [OF inv] in \<open>simp_all add: hframe_def vframe_def\<close>)
next
  case (6 dir st h x i sta ha xa ts stb hb dira enc bs child ops ts2 stc hc std hd ste he)
  have i: "\<not> (i_nlink i = 1 \<and> \<not> is_open (d_child_ino d) (v_handles s))" "i_kind i \<noteq> Dir"
    "may_remove creds p dir (d_child_ino d) i (vfs E s)" using 6 by (auto simp: may_remove_def is_dir_def)
  let ?o = "is_open (d_child_ino d) (v_handles s)"
  have b: "batch_does E (v_dek s) ([Delete (key_bytes (KDirent p enc)), Delete (key_bytes (KDirentIdx p (d_dirent_id d))),
      Put (key_bytes (KInode p)) bs] @ ops) (unlink_fs ?o ts ts2 p dir name d i)"
    using 6 by (intro unlink_batch [OF E]) simp_all
  note m = batch_doesD(2-4) [OF b vol_invD(1) [OF inv], of "st_contents (en_engine E) std"]
  show ?case
    by (intro conjI, rule unlink_inv [OF inv i(3), of _ ?o ts ts2])
       (use 6 m i vol_invD(2) [OF inv] in \<open>auto simp: hframe_def vframe_def unlinked_def Let_def\<close>)
qed (simp_all add: idle_undone [OF inv] undone_refl [OF inv])

text \<open>
  The whole call. Between reading the entry and holding the locks other operations may
  run; after such a wait the entry is read again. A wait in which nothing happens leads to
  the outcome at once.
\<close>

lemma removed_idle:
  assumes "idle E s s'"
  shows "unlinked E creds s' p name d t = unlinked E creds s p name d t"
    "unlink_torn E creds s' p name d t = unlink_torn E creds s p name d t"
  using assms by (simp_all add: idle_def hframe_def vframe_def unlinked_def unlink_torn_def)

lemma undone_idle: "vol_inv E s \<Longrightarrow> idle E s s' \<Longrightarrow> undone E s' t \<Longrightarrow> undone E s t"
  by (blast intro: undone_trans idle_undone)

lemma hframe_idle: "idle E s s' \<Longrightarrow> hframe s' t \<Longrightarrow> hframe s t"
  by (auto simp: idle_def intro: hframe_trans)

lemma unlink_lockedI:
  assumes E: "env_ok E" and s: "idle E s0 s" and inv: "vol_inv E s0" and small: "small_bills (vfs E s0)"
    and "\<And>t. vol_inv E t \<Longrightarrow> hframe s0 t \<Longrightarrow> unlinked E creds s0 p name d t \<Longrightarrow> Q () t"
    and "\<And>e t. undone E s0 t \<or> vol_inv E t \<and> hframe s0 t \<and> unlink_torn E creds s0 p name d t \<Longrightarrow> R e t"
  shows "wp (unlink_locked E creds p name d) Q R s"
proof -
  have "vol_inv E s" "small_bills (vfs E s)" using idle_inv [OF inv s] small by simp_all
  from unlink_locked_wp [OF E this] show ?thesis
    by (rule wp_mono)
       (use assms(5,6) undone_idle [OF inv s] hframe_idle [OF s] in \<open>auto simp: removed_idle [OF s]\<close>)
qed

lemma unlink_wp:
  assumes E: "env_ok E" and inv: "vol_inv E s" and small: "small_bills (vfs E s)"
  shows "wp (unlink E creds p name (id # waits))
    (\<lambda>r t. r = Some () \<and> vol_inv E t \<and> hframe s t \<and> validate_name name = Inr () \<and>
       (\<exists>d. fs_dirent (vfs E s) p name = Some d \<and> unlinked E creds s p name d t))
    (\<lambda>e t. undone E s t \<or> vol_inv E t \<and> hframe s t \<and>
       (\<exists>d. fs_dirent (vfs E s) p name = Some d \<and> unlink_torn E creds s p name d t)) s"
  unfolding unlink_def unlink_loop.simps
  by (intro unlink_lockedI [OF E _ inv small] wp_base [OF E] wp_rules)
     (auto simp: idle_undone [OF inv] undone_refl [OF inv] same_entry_def)

end
