(* ===== verification/Vfs_Rmdir.thy ===== *)
theory Vfs_Rmdir
  imports Vfs_Unlink
begin

text \<open>
  Removing directories: \<open>rmdir\<close> takes an empty directory with its extended attributes out
  of its parent in one batch, or changes nothing. Closing handles: the last \<open>close\<close> of an
  unlinked file gives its quota back and removes what is left of it.
\<close>

section \<open>Rmdir\<close>

definition drop_xattrs :: "u64 \<Rightarrow> bytes set \<Rightarrow> fs \<Rightarrow> fs" where
  "drop_xattrs ino ns f = f\<lparr>fs_xattr := (fs_xattr f)(ino := (\<lambda>n. if n \<in> ns then None else fs_xattr f ino n))\<rparr>"

lemma batch_drop_xattrs:
  assumes "set ks = (\<lambda>n. key_bytes (KXattr ino n)) ` ns"
  shows "batch_does E dek (map Delete ks) (drop_xattrs ino ns)"
proof -
  have "fs_of E dek (wiped (set ks) m) = drop_xattrs ino ns (fs_of E dek m)" for m
    by (rule fs.equality) (auto simp: assms fs_of_def drop_xattrs_def wiped_def fun_eq_iff split: sum.splits)
  moreover have "counters_ok (wiped (set ks) m) = counters_ok m" for m
    by (auto simp: assms counters_ok_def wiped_def)
  ultimately show ?thesis by (auto simp: batch_does_def schema_keys_def wiped_def dom_def split: if_splits)
qed

lemma xattr_deletesI:
  assumes E: "env_ok E" and Q: "\<And>st h. same_kv E s st \<Longrightarrow> Q (ops @ map Delete (map fst kvs)) (settle s st h)"
    and R: "\<And>e st h. same_kv E s st \<Longrightarrow> R e (settle s st h)"
  shows "wp (xattr_deletes E kvs ops) Q R s"
  using Q R
proof (induction kvs arbitrary: ops s)
  case Nil
  then show ?case by (auto intro!: wp_base [OF E] wp_rules)
next
  case (Cons kv kvs)
  show ?case
    by (cases kv; simp only: xattr_deletes.simps; intro Cons.IH wp_base [OF E] wp_rules)
       (use Cons.prems in auto)
qed

lemma no_dirents:
  assumes "ino \<noteq> - 1" "scan_of m (dirent_prefix ino) (dirent_prefix (ino + 1)) []"
  shows "fs_dirent (fs_of E dek m) ino = Map.empty"
proof -
  have "m (key_bytes (KDirent ino enc)) = None" for enc
    using assms(2) dirents.in_scan_iff [OF assms(1), of "KDirent ino enc"]
    by (cases "m (key_bytes (KDirent ino enc))") (auto simp: scan_of_def)
  then show ?thesis by (auto simp: fs_of_def fun_eq_iff decoded_def split: sum.splits)
qed

lemma check_emptyI:
  assumes E: "env_ok E" and ino: "ino < al_next (v_alloc s)"
    and Q: "\<And>st h. same_kv E s st \<Longrightarrow> fs_dirent (vfs E s) ino = Map.empty \<Longrightarrow> Q () (settle s st h)"
    and R: "\<And>e st h. same_kv E s st \<Longrightarrow> R e (settle s st h)"
  shows "wp (check_empty E ino) Q R s"
proof -
  have "ino \<noteq> - 1" using ino by (metis word_not_simps(3))
  from no_dirents [OF this, of "vcontents E s" E "v_dek s"] show ?thesis
    unfolding check_empty_def by (intro wp_base [OF E] wp_rules) (use Q R in auto)
qed

definition rmdir_fs :: "timespec \<Rightarrow> u64 \<Rightarrow> inode \<Rightarrow> bytes \<Rightarrow> dirent \<Rightarrow> fs \<Rightarrow> fs" where
  "rmdir_fs ts p dir name d f =
     charge 0 (- 1) (put_inode p ((touch_mtime ts dir)\<lparr>i_nlink := i_nlink dir - 1\<rparr>)
       (drop_xattrs (d_child_ino d) UNIV (del_inode (d_child_ino d) (del_entry p name (d_dirent_id d) f))))"

definition rmdired :: "'db env \<Rightarrow> credentials \<Rightarrow> 'db volume \<Rightarrow> u64 \<Rightarrow> bytes \<Rightarrow> dirent \<Rightarrow> 'db volume \<Rightarrow> bool" where
  "rmdired E creds s p name d t =
     (\<exists>dir i ts. may_remove creds p dir (d_child_ino d) i (vfs E s) \<and> i_kind i = Dir \<and>
        fs_dirent (vfs E s) (d_child_ino d) = Map.empty \<and> vfs E t = rmdir_fs ts p dir name d (vfs E s))"

lemma xattr_names_of:
  assumes "ino \<noteq> - 1" "schema_keys m" "scan_of m (xattr_prefix ino) (xattr_prefix (ino + 1)) kvs"
  shows "set (map fst kvs) = (\<lambda>n. key_bytes (KXattr ino n)) ` dom (fs_xattr (fs_of E dek m) ino)"
  using scan_keys(2) [OF assms] by (auto simp: xattr_keys_def fs_of_def)

lemma drop_xattrs_all: "fs_xattr f ino = xs \<Longrightarrow> drop_xattrs ino (dom xs) f = drop_xattrs ino UNIV f"
  by (rule fs.equality) (auto simp: drop_xattrs_def fun_eq_iff)

lemma rmdir_batch:
  assumes E: "env_ok E" and seal: "seal_name (en_siv E) dek p name = Inr enc"
    and bs: "inode_decode (en_codecs E) bs = Inr ((touch_mtime ts dir)\<lparr>i_nlink := i_nlink dir - 1\<rparr>)"
    and ks: "set ks = (\<lambda>n. key_bytes (KXattr (d_child_ino d) n)) ` dom xs"
  shows "batch_does E dek ([Delete (key_bytes (KDirent p enc)), Delete (key_bytes (KDirentIdx p (d_dirent_id d))),
      Delete (key_bytes (KInode (d_child_ino d)))] @ map Delete ks @
      [Put (key_bytes (KInode p)) bs, Merge (key_bytes KQuotaInodes) (encode_delta (- 1))])
    (\<lambda>f. charge 0 (- 1) (put_inode p ((touch_mtime ts dir)\<lparr>i_nlink := i_nlink dir - 1\<rparr>)
       (drop_xattrs (d_child_ino d) (dom xs)
         (del_inode (d_child_ino d) (del_entry p name (d_dirent_id d) f)))))"
  using batch_does_append [OF batch_does_append [OF batch_entry(1) [OF env_okD(3) [OF E] seal] batch_puts(3)]
      batch_does_append [OF batch_drop_xattrs [OF ks] batch_does_Cons [OF batch_puts(1) [OF bs] batch_puts(5)]]]
  by simp

lemma cache_ok_rmdir:
  "cache_ok a f \<Longrightarrow> cache_ok (cache_insert_negative p name (cache_remove (d_child_ino d)
     (cache_insert p ((touch_mtime ts dir)\<lparr>i_nlink := i_nlink dir - 1\<rparr>) a))) (rmdir_fs ts p dir name d f)"
  by (auto simp: cache_ok_def cache_defs rmdir_fs_def fs_steps drop_xattrs_def)

lemma rmdir_fs_simps:
  "fs_bytes (rmdir_fs ts p dir name d f) = fs_bytes f" "fs_inodes (rmdir_fs ts p dir name d f) = fs_inodes f - 1"
  "unused k f \<Longrightarrow> k \<noteq> p \<Longrightarrow> unused k (rmdir_fs ts p dir name d f)"
  by (auto simp: rmdir_fs_def fs_steps drop_xattrs_def unused_def)

lemma rmdir_locked_wp:
  assumes E: "env_ok E" and inv: "vol_inv E s"
  shows "wp (rmdir_locked E creds p name d)
    (\<lambda>_ t. vol_inv E t \<and> hframe s t \<and> rmdired E creds s p name d t) (\<lambda>e t. undone E s t) s"
  unfolding rmdir_locked_def
proof (intro check_emptyI [OF E] xattr_deletesI [OF E] freeI [OF E] wp_base [OF E] wp_rules, goal_cases)
  case (3 dir st h x i sta ha xa stb hb ts stc hc dir1 dir2 enc kvs std hd ste he bs)
  have ne: "d_child_ino d \<noteq> - 1" using used_ino [OF inv] 3 by (metis settle_simps(1,4) word_not_simps(3))
  have ks: "set (map fst kvs) = (\<lambda>n. key_bytes (KXattr (d_child_ino d) n)) ` dom (fs_xattr (vfs E s) (d_child_ino d))"
    by (rule xattr_names_of [OF ne vol_invD(2) [OF inv]]) (use 3 in simp)
  have b: "inode_decode (en_codecs E) bs = Inr ((touch_mtime ts dir)\<lparr>i_nlink := i_nlink dir - 1\<rparr>)"
    "seal_name (en_siv E) (v_dek s) p name = Inr enc" using 3 by (simp_all add: touch_mtime_def)
  from batch_doesD(1) [OF rmdir_batch [OF E b(2,1) ks] vol_invD(1) [OF inv]] 3 show ?case by simp
next
  case (6 dir st h x i sta ha xa stb hb ts stc hc dir1 dir2 enc kvs std hd ste he bs stf hf stg hg)
  have may: "may_remove creds p dir (d_child_ino d) i (vfs E s)" "i_kind i = Dir" using 6 by (auto simp: may_remove_def is_dir_def)
  have u: "d_child_ino d < al_next (v_alloc s)" "p < al_next (v_alloc s)" using used_ino [OF inv] 6 by simp_all
  then have ne: "d_child_ino d \<noteq> - 1" by (metis word_not_simps(3))
  have ks: "set (map fst kvs) = (\<lambda>n. key_bytes (KXattr (d_child_ino d) n)) ` dom (fs_xattr (vfs E s) (d_child_ino d))"
    by (rule xattr_names_of [OF ne vol_invD(2) [OF inv]]) (use 6 in simp)
  have b: "inode_decode (en_codecs E) bs = Inr ((touch_mtime ts dir)\<lparr>i_nlink := i_nlink dir - 1\<rparr>)"
    "seal_name (en_siv E) (v_dek s) p name = Inr enc" "dir2 = (touch_mtime ts dir)\<lparr>i_nlink := i_nlink dir - 1\<rparr>"
    using 6 by (simp_all add: touch_mtime_def)
  have f: "fs_of E (v_dek s) (st_contents (en_engine E) stf) = rmdir_fs ts p dir name d (vfs E s)"
    "counters_ok (st_contents (en_engine E) stf)" "schema_keys (st_contents (en_engine E) stf)"
    using batch_doesD(2-4) [OF rmdir_batch [OF E b(2,1) ks] vol_invD(1) [OF inv], of "st_contents (en_engine E) stf"] 6 vol_invD(2) [OF inv]
    by (simp_all add: rmdir_fs_def drop_xattrs_all fs_steps)
  have e: "fs_dirent (vfs E s) (d_child_ino d) = Map.empty" "st_contents (en_engine E) stg = st_contents (en_engine E) stf"
    using 6 by simp_all
  have "rmdired E creds s p name d t" if "vfs E t = rmdir_fs ts p dir name d (vfs E s)" for t
    unfolding rmdired_def using may that e(1) by blast
  then show ?case
    by (intro conjI vol_invI [OF inv, of _ "rmdir_fs ts p dir name d (vfs E s)"])
       (use f e(2) u vol_invD [OF inv] in \<open>auto simp: hframe_def vframe_def b cache_ok_rmdir rmdir_fs_simps quota_usage_def\<close>)
qed (simp_all add: idle_undone [OF inv] undone_refl [OF inv] settle_inv [OF inv] used_ino [OF inv])

lemma rmdir_wp:
  assumes E: "env_ok E" and inv: "vol_inv E s"
  shows "wp (rmdir E creds p name (id # waits))
    (\<lambda>r t. r = Some () \<and> vol_inv E t \<and> hframe s t \<and> validate_name name = Inr () \<and>
       (\<exists>d. fs_dirent (vfs E s) p name = Some d \<and> rmdired E creds s p name d t))
    (\<lambda>e t. undone E s t) s"
proof -
  have I: "wp (rmdir_locked E creds p name d) Q R s'"
    if s': "idle E s s'" and Q: "\<And>t. vol_inv E t \<Longrightarrow> hframe s t \<Longrightarrow> rmdired E creds s p name d t \<Longrightarrow> Q () t"
      and R: "\<And>e t. undone E s t \<Longrightarrow> R e t" for s' d Q R
  proof -
    have "rmdired E creds s' p name d t = rmdired E creds s p name d t" for t
      using s' by (simp add: idle_def hframe_def vframe_def rmdired_def)
    then show ?thesis
      using idle_inv [OF inv s'] undone_idle [OF inv s'] hframe_idle [OF s'] Q R
      by (intro wp_mono [OF rmdir_locked_wp [OF E]]) auto
  qed
  show ?thesis
    unfolding rmdir_def rmdir_loop.simps
    by (intro I wp_base [OF E] wp_rules) (auto simp: idle_undone [OF inv] undone_refl [OF inv] same_entry_def)
qed

section \<open>The last close\<close>

definition expunged :: "u64 \<Rightarrow> fs \<Rightarrow> fs" where
  "expunged ino f = (case fs_inode f ino of None \<Rightarrow> f | Some i \<Rightarrow> charge (- i_billed_bytes i) (- 1) (del_inode ino f))"

lemma expunged_simps:
  "unused k f \<Longrightarrow> unused k (expunged ino f)"
  "cache_ok a f \<Longrightarrow> cache_ok (cache_remove ino a) (expunged ino f)"
  "fs_inode f ino = Some i \<Longrightarrow> fs_bytes (expunged ino f) = fs_bytes f - i_billed_bytes i"
  "fs_inode f ino = Some i \<Longrightarrow> fs_inodes (expunged ino f) = fs_inodes f - 1"
  by (auto simp: expunged_def fs_steps unused_def cache_ok_def cache_defs split: option.splits)

lemma cache_le_remove: "cache_le (cache_remove ino a) a"
  by (auto simp: cache_le_def cache_defs map_le_def)

lemma finish_orphan_wp:
  assumes E: "env_ok E" and inv: "vol_inv E s" and small: "small_bills (vfs E s)" and ino: "ino < al_next (v_alloc s)"
  shows "wp (finish_orphan E ino)
    (\<lambda>_ t. vol_inv E t \<and> hframe s t \<and> vfs E t = reaped ino (expunged ino (vfs E s)))
    (\<lambda>e t. undone E s t \<or> vol_inv E t \<and> hframe s t \<and> (\<exists>idxs. vfs E t = cut_chunks ino idxs (expunged ino (vfs E s)))) s"
  unfolding finish_orphan_def
proof (intro reap_orphanI [OF E, where ?s0.0 = s and f = "expunged ino (vfs E s)"] commitI [OF E _ batch_bury] wp_base [OF E] wp_rules,
    goal_cases)
  case (1 st h)
  then show ?case by (intro conjunct1 [OF idle_inv [OF inv]]) (simp add: idle_def hframe_def vframe_def cache_le_remove)
next
  case (4 st h)
  then show ?case by (simp add: expunged_def fs_of_def decoded_def)
next
  case (8 st h bs x sta ha stb hb)
  then have i: "fs_inode (vfs E s) ino = Some x" by (simp add: fs_of_def decoded_def)
  with 8 have "fs_of E (v_dek s) (st_contents (en_engine E) sta) = expunged ino (vfs E s)" by (simp add: expunged_def)
  then show ?case
    by (intro vol_invI [OF inv, of _ "expunged ino (vfs E s)"])
       (use 8(1,5-7) i vol_invD [OF inv] in \<open>simp_all add: expunged_simps quota_usage_def\<close>)
next
  case (11 st h bs x sta ha stb hb)
  then show ?case by (simp add: expunged_def fs_of_def decoded_def)
next
  case (14 st h bs x sta ha stb hb q)
  then have "fs_inode (vfs E s) ino = Some x" by (simp add: fs_of_def decoded_def)
  with small have "sint (- i_billed_bytes x) \<le> 0" by (auto simp: small_bills_def intro: free_not_positive)
  with 14 show ?case by simp
qed (use ino vol_invD [OF inv] in \<open>auto simp: idle_undone [OF inv] undone_refl [OF inv] hframe_def vframe_def\<close>)

lemma cache_ok_handles [simp]: "vol_inv E (s\<lparr>v_handles := ht\<rparr>) = vol_inv E s" "vol_inv E (s\<lparr>v_range_locks := rt\<rparr>) = vol_inv E s"
  by (simp_all add: vol_inv_def)

text \<open>
  A handle that is closed is gone with its locks whatever happens next; the file system
  changes only if it was the last handle of an orphan on a live volume.
\<close>

definition closed_fs :: "bool \<Rightarrow> u64 \<Rightarrow> bool \<Rightarrow> fs \<Rightarrow> fs" where
  "closed_fs dead ino final f =
     (if final \<and> \<not> dead \<and> fs_orphan f ino \<noteq> None then reaped ino (expunged ino f) else f)"

definition handle_gone :: "u64 \<Rightarrow> 'db volume \<Rightarrow> 'db volume \<Rightarrow> bool" where
  "handle_gone h s t =
     (vframe s t \<and> v_handles t = snd (handle_close h (v_handles s)) \<and> v_range_locks t = unlock_owner h (v_range_locks s))"

lemma finish_orphanI:
  assumes E: "env_ok E" and s: "vol_inv E s" "vfs E s = f" "ino < al_next (v_alloc s)" and small: "small_bills f"
    and Q: "\<And>t. vol_inv E t \<Longrightarrow> hframe s t \<Longrightarrow> vfs E t = reaped ino (expunged ino f) \<Longrightarrow> Q () t"
    and R: "\<And>e t. vol_inv E t \<Longrightarrow> hframe s t \<Longrightarrow> vfs E t = f \<or> (\<exists>idxs. vfs E t = cut_chunks ino idxs (expunged ino f)) \<Longrightarrow> R e t"
  shows "wp (finish_orphan E ino) Q R s"
  by (rule wp_mono [OF finish_orphan_wp [OF E s(1)]]) (use s small Q R in \<open>auto simp: undone_def\<close>)

lemma wp_close_handle [wp_rules]:
  "Q (fst (handle_close h (v_handles s))) (s\<lparr>v_handles := snd (handle_close h (v_handles s))\<rparr>) \<Longrightarrow> wp (close_handle h) Q R s"
  by (cases "handle_close h (v_handles s)") (simp add: wp_def close_handle_def)

lemma fs_of_orphan: "fs_orphan (fs_of E dek m) ino = None \<longleftrightarrow> m (key_bytes (KOrphan ino)) = None"
  by (simp add: fs_of_def)

lemma vfs_close_wp:
  assumes E: "env_ok E" and inv: "vol_inv E s" and small: "small_bills (vfs E s)"
  shows "wp (vfs_close E h)
    (\<lambda>_ t. vol_inv E t \<and> handle_gone h s t \<and>
      (\<exists>ino mode final. fst (handle_close h (v_handles s)) = Some (ino, mode, final) \<and>
         vfs E t = closed_fs (h_dead (v_health s)) ino final (vfs E s)))
    (\<lambda>e t. vol_inv E t \<and>
      (fst (handle_close h (v_handles s)) = None \<and> e = BadHandle \<and> vframe s t \<and> vfs E t = vfs E s \<or>
       handle_gone h s t \<and> (\<exists>ino mode. fst (handle_close h (v_handles s)) = Some (ino, mode, True) \<and>
         (vfs E t = vfs E s \<or> fs_orphan (vfs E s) ino \<noteq> None \<and> (\<exists>idxs. vfs E t = cut_chunks ino idxs (expunged ino (vfs E s))))))) s"
proof -
  have u: "ino < al_next (v_alloc s)" if "vcontents E s (key_bytes (KOrphan ino)) = Some v" for ino v
    using inv that by (auto simp: vol_inv_def unused_def fs_of_orphan linorder_not_le [symmetric])
  have inv': "vol_inv E (settle (s\<lparr>v_handles := ht, v_range_locks := rt\<rparr>) st k)" if "same_kv E s st" for ht rt st k
    using settle_inv(1) [of E "s\<lparr>v_handles := ht, v_range_locks := rt\<rparr>" st k] inv that by simp
  show ?thesis
    unfolding vfs_close_def
    by (intro finish_orphanI [OF E, where f = "vfs E s"] wp_base [OF E] wp_rules)
       (use inv small in \<open>auto simp: u inv' handle_gone_def closed_fs_def fs_of_orphan hframe_def vframe_def\<close>)
qed

end
