(* ===== verification/Vfs_Rename.thy ===== *)
theory Vfs_Rename
  imports Vfs_Rmdir
begin

text \<open>
  Renaming: the walk to the root that rules out cycles, the replacement of a target, and
  the one batch that moves the entry.
\<close>

section \<open>The walk to the root\<close>

text \<open>What the walk decides: whether the root is reached before the moved directory.\<close>

fun climb :: "fs \<Rightarrow> u64 \<Rightarrow> nat \<Rightarrow> u64 \<Rightarrow> bool option" where
  "climb f src 0 c = None"
| "climb f src (Suc n) c =
     (if c = src then Some False
      else if c = ROOT_INO then Some True
      else case fs_inode f c of None \<Rightarrow> Some False | Some i \<Rightarrow> climb f src n (i_parent_dir i))"

lemma cycle_walkI:
  assumes E: "env_ok E"
    and Q: "\<And>st h. same_kv E s st \<Longrightarrow> climb (vfs E s) src n c = Some True \<Longrightarrow> Q (Some ()) (settle s st h)"
    and N: "\<And>st h. same_kv E s st \<Longrightarrow> climb (vfs E s) src n c = None \<Longrightarrow> Q None (settle s st h)"
    and R: "\<And>e st h. same_kv E s st \<Longrightarrow> R e (settle s st h)"
  shows "wp (cycle_walk E src n c) Q R s"
  using Q N R
proof (induction n arbitrary: c s)
  case 0
  from 0(2) [of "v_store s" "v_health s"] show ?case by (simp add: wp_simps settle_folds)
next
  case (Suc n)
  have r: "Q (Some ()) s" if "c = ROOT_INO" "c \<noteq> src"
    using Suc.prems(1) [of "v_store s" "v_health s"] that by (simp add: settle_folds)
  have e: "R Invalid s" using Suc.prems(3) [of "v_store s" Invalid "v_health s"] by (simp add: settle_folds)
  show ?case
    unfolding cycle_walk.simps
    by (intro Suc.IH wp_base [OF E] wp_rules) (use r e Suc.prems in auto)
qed

section \<open>The replaced target\<close>

definition target_ok :: "credentials \<Rightarrow> inode \<Rightarrow> inode \<Rightarrow> dirent option \<Rightarrow> (dirent \<times> inode) option \<Rightarrow> fs \<Rightarrow> bool" where
  "target_ok creds moved new_dir dst tgt f =
     (case dst of
        None \<Rightarrow> tgt = None
      | Some d \<Rightarrow>
          (\<exists>i. tgt = Some (d, i) \<and> fs_inode f (d_child_ino d) = Some i \<and> check_sticky creds new_dir i = Inr () \<and>
               (i_kind moved = Dir \<longleftrightarrow> i_kind i = Dir) \<and> (i_kind i = Dir \<longrightarrow> fs_dirent f (d_child_ino d) = Map.empty)))"

definition target_fs ::
  "(u64 \<Rightarrow> bool) \<Rightarrow> timespec \<Rightarrow> timespec \<Rightarrow> u64 \<Rightarrow> bytes \<Rightarrow> (dirent \<times> inode) option \<Rightarrow> fs \<Rightarrow> fs" where
  "target_fs opened ts ts2 p name tgt f =
     (case tgt of
        None \<Rightarrow> f
      | Some (d, i) \<Rightarrow>
          del_entry p name (d_dirent_id d)
            (if i_kind i = Dir then charge 0 (- 1) (del_inode (d_child_ino d) f)
             else drop_link (opened (d_child_ino d)) ts ts2 (d_child_ino d) i f))"

definition target_dir :: "(dirent \<times> inode) option \<Rightarrow> inode \<Rightarrow> inode" where
  "target_dir tgt dir =
     (case tgt of
        None \<Rightarrow> dir
      | Some (d, i) \<Rightarrow> if i_kind i = Dir then dir\<lparr>i_nlink := i_nlink dir - 1\<rparr> else dir)"

definition target_gone :: "(u64 \<Rightarrow> bool) \<Rightarrow> (dirent \<times> inode) option \<Rightarrow> u64 option" where
  "target_gone opened tgt =
     (case tgt of
        None \<Rightarrow> None
      | Some (d, i) \<Rightarrow>
          if i_kind i \<noteq> Dir \<and> i_nlink i = 1 \<and> \<not> opened (d_child_ino d) then Some (d_child_ino d) else None)"

definition target_bytes :: "(u64 \<Rightarrow> bool) \<Rightarrow> (dirent \<times> inode) option \<Rightarrow> i64" where
  "target_bytes opened tgt =
     (case tgt of
        None \<Rightarrow> 0
      | Some (d, i) \<Rightarrow> if target_gone opened tgt \<noteq> None then - i_billed_bytes i else 0)"

definition target_inodes :: "(u64 \<Rightarrow> bool) \<Rightarrow> (dirent \<times> inode) option \<Rightarrow> i64" where
  "target_inodes opened tgt =
     (case tgt of
        None \<Rightarrow> 0
      | Some (d, i) \<Rightarrow> if i_kind i = Dir \<or> target_gone opened tgt \<noteq> None then - 1 else 0)"

lemmas target_defs = target_fs_def target_dir_def target_gone_def target_bytes_def target_inodes_def

lemma rename_targetI:
  fixes E s defines "opened \<equiv> \<lambda>c. is_open c (v_handles s)"
  assumes E: "env_ok E" and used: "\<And>i. fs_inode (vfs E s) (d_child_ino d) = Some i \<Longrightarrow> d_child_ino d < al_next (v_alloc s)"
    and Q: "\<And>tgt ops ts2 st h. same_kv E s st \<Longrightarrow> target_ok creds moved new_dir (Some d) tgt (vfs E s) \<Longrightarrow>
      batch_does E (v_dek s) ops (target_fs opened ts ts2 p name tgt) \<Longrightarrow>
      Q (ops, target_dir tgt new_dir, target_gone opened tgt, target_bytes opened tgt, target_inodes opened tgt) (settle s st h)"
    and R: "\<And>e st h. same_kv E s st \<Longrightarrow> R e (settle s st h)"
  shows "wp (rename_target E creds ts p name moved new_dir d) Q R s"
  unfolding rename_target_def
proof (intro check_emptyI [OF E] bury_inodeI [OF E] wp_base [OF E] wp_rules, goal_cases)
  case (4 i st h x sta ha enc)
  then have i: "i_kind i = Dir" "target_ok creds moved new_dir (Some d) (Some (d, i)) (vfs E s)"
    by (auto simp: target_ok_def is_dir_def)
  have fs: "target_fs opened ts ts2 p name (Some (d, i)) =
    (\<lambda>f. del_entry p name (d_dirent_id d) (charge 0 (- 1) (del_inode (d_child_ino d) f)))" for ts2
    by (simp add: fun_eq_iff target_fs_def i)
  have "batch_does E (v_dek s) ([Delete (key_bytes (KInode (d_child_ino d))), Merge (key_bytes KQuotaInodes) (encode_delta (- 1))] @
      [Delete (key_bytes (KDirent p enc)), Delete (key_bytes (KDirentIdx p (d_dirent_id d)))]) (target_fs opened ts ts2 p name (Some (d, i)))" for ts2
    unfolding fs
    by (rule batch_does_append [OF batch_does_Cons [OF batch_puts(3) batch_puts(5)] batch_entry(1) [OF env_okD(3) [OF E]]]) (use 4 in simp)
  from Q [OF _ i(2) this, of sta ha] 4 i show ?case by (simp add: target_defs)
next
  case (6 i st h x target ops ts2 sta ha enc)
  then have i: "i_kind i \<noteq> Dir" "i_nlink i = 1" "target_ok creds moved new_dir (Some d) (Some (d, i)) (vfs E s)"
    by (auto simp: target_ok_def is_dir_def)
  have fs: "target_fs opened ts ts2 p name (Some (d, i)) =
    (\<lambda>f. del_entry p name (d_dirent_id d) (buried (opened (d_child_ino d)) ts2 (d_child_ino d) target f))"
    using 6 by (simp add: fun_eq_iff target_fs_def drop_link_def i)
  have "batch_does E (v_dek s) (ops @
      [Delete (key_bytes (KDirent p enc)), Delete (key_bytes (KDirentIdx p (d_dirent_id d)))]) (target_fs opened ts ts2 p name (Some (d, i)))"
    unfolding fs by (rule batch_does_append [OF _ batch_entry(1) [OF env_okD(3) [OF E]]]) (use 6 in \<open>simp_all add: opened_def\<close>)
  from Q [OF _ i(3) this, of sta ha] 6 i show ?case by (auto simp: target_defs opened_def)
next
  case (7 i st h x target bs enc)
  then have i: "i_kind i \<noteq> Dir" "i_nlink i \<noteq> 1" "target_ok creds moved new_dir (Some d) (Some (d, i)) (vfs E s)"
    by (auto simp: target_ok_def is_dir_def)
  have fs: "target_fs opened ts ts2 p name (Some (d, i)) =
    (\<lambda>f. del_entry p name (d_dirent_id d) (put_inode (d_child_ino d) (target\<lparr>i_ctime := ts\<rparr>) f))" for ts2
    using 7 by (simp add: fun_eq_iff target_fs_def drop_link_def i)
  have "batch_does E (v_dek s) ([Put (key_bytes (KInode (d_child_ino d))) bs] @
      [Delete (key_bytes (KDirent p enc)), Delete (key_bytes (KDirentIdx p (d_dirent_id d)))]) (target_fs opened ts ts2 p name (Some (d, i)))" for ts2
    unfolding fs by (rule batch_does_append [OF batch_puts(1) batch_entry(1) [OF env_okD(3) [OF E]]]) (use 7 in simp_all)
  from Q [OF _ i(3) this, of st h] 7 i show ?case by (simp add: target_defs)
qed (use used R in auto)

section \<open>The batch\<close>

definition renamed_old :: "timespec \<Rightarrow> bool \<Rightarrow> inode \<Rightarrow> inode" where
  "renamed_old ts dir_moves old_dir =
     touch_mtime ts (if dir_moves then old_dir\<lparr>i_nlink := i_nlink old_dir - 1\<rparr> else old_dir)"

definition renamed_new :: "timespec \<Rightarrow> bool \<Rightarrow> inode \<Rightarrow> inode" where
  "renamed_new ts dir_moves dir =
     (let n = dir\<lparr>i_next_dirent_id := i_next_dirent_id dir + 1\<rparr>
      in touch_mtime ts (if dir_moves then n\<lparr>i_nlink := i_nlink n + 1\<rparr> else n))"

definition renamed_inode :: "timespec \<Rightarrow> bool \<Rightarrow> u64 \<Rightarrow> inode \<Rightarrow> inode" where
  "renamed_inode ts dir_moves new_parent moved =
     (if dir_moves then moved\<lparr>i_parent_dir := new_parent\<rparr> else moved)\<lparr>i_ctime := ts\<rparr>"

definition rename_fs ::
  "(u64 \<Rightarrow> bool) \<Rightarrow> timespec \<Rightarrow> timespec \<Rightarrow> bytes \<Rightarrow> u64 \<Rightarrow> bytes \<Rightarrow> u64 \<Rightarrow> bytes \<Rightarrow> dirent \<Rightarrow>
   (dirent \<times> inode) option \<Rightarrow> inode \<Rightarrow> inode \<Rightarrow> inode \<Rightarrow> fs \<Rightarrow> fs" where
  "rename_fs opened ts ts2 enc op on np nn src tgt old_dir new_dir moved f =
     (let dir_moves = (i_kind moved = Dir \<and> op \<noteq> np); dir = target_dir tgt new_dir;
          entry = \<lparr>d_name = nn, d_child_ino = d_child_ino src, d_kind = i_kind moved, d_dirent_id = i_next_dirent_id dir\<rparr>
      in put_inode np (renamed_new ts dir_moves dir)
           ((if op = np then id else put_inode op (renamed_old ts dir_moves old_dir))
             (put_inode (d_child_ino src) (renamed_inode ts dir_moves np moved)
               (put_entry np entry enc
                 (del_entry op on (d_dirent_id src) (target_fs opened ts ts2 np nn tgt f))))))"

lemma target_fs_simps:
  "fs_bytes (target_fs opened ts ts2 p name tgt f) = fs_bytes f + target_bytes opened tgt"
  "fs_inodes (target_fs opened ts ts2 p name tgt f) = fs_inodes f + target_inodes opened tgt"
  "(\<And>d i. tgt = Some (d, i) \<Longrightarrow> k \<noteq> d_child_ino d) \<Longrightarrow> unused k f \<Longrightarrow> unused k (target_fs opened ts ts2 p name tgt f)"
  "(\<And>d i. tgt = Some (d, i) \<Longrightarrow> k \<noteq> d_child_ino d) \<Longrightarrow> fs_inode (target_fs opened ts ts2 p name tgt f) k = fs_inode f k"
  "fs_dirent f q n = None \<Longrightarrow> fs_dirent (target_fs opened ts ts2 p name tgt f) q n = None"
  by (auto simp: target_defs drop_link_def buried_def fs_steps unused_def split: option.splits)

lemma rename_fs_simps:
  "fs_bytes (rename_fs opened ts ts2 enc op on np nn src tgt old_dir new_dir moved f) = fs_bytes f + target_bytes opened tgt"
  "fs_inodes (rename_fs opened ts ts2 enc op on np nn src tgt old_dir new_dir moved f) = fs_inodes f + target_inodes opened tgt"
  "(\<And>d i. tgt = Some (d, i) \<Longrightarrow> k \<noteq> d_child_ino d) \<Longrightarrow> k \<notin> {op, np, d_child_ino src} \<Longrightarrow> unused k f \<Longrightarrow>
   unused k (rename_fs opened ts ts2 enc op on np nn src tgt old_dir new_dir moved f)"
  by (use target_fs_simps in \<open>auto simp: rename_fs_def Let_def fs_steps unused_def\<close>)

definition rename_cache ::
  "timespec \<Rightarrow> u64 \<Rightarrow> bytes \<Rightarrow> u64 \<Rightarrow> bytes \<Rightarrow> dirent \<Rightarrow> (dirent \<times> inode) option \<Rightarrow> inode \<Rightarrow> inode \<Rightarrow> inode \<Rightarrow> attr_cache \<Rightarrow> attr_cache" where
  "rename_cache ts op on np nn src tgt old_dir new_dir moved a =
     (let dir_moves = (i_kind moved = Dir \<and> op \<noteq> np) in
      cache_remove_negative np nn (cache_insert_negative op on
        ((case tgt of None \<Rightarrow> id | Some (d, i) \<Rightarrow> cache_remove (d_child_ino d))
          (cache_insert np (renamed_new ts dir_moves (target_dir tgt new_dir))
            ((if op = np then id else cache_insert op (renamed_old ts dir_moves old_dir))
              (cache_insert (d_child_ino src) (renamed_inode ts dir_moves np moved) a))))))"

lemma cache_ok_rename:
  assumes a: "cache_ok a f" and ne: "(op, on) \<noteq> (np, nn)"
  shows "cache_ok (rename_cache ts op on np nn src tgt old_dir new_dir moved a)
    (rename_fs opened ts ts2 enc op on np nn src tgt old_dir new_dir moved f)"
  unfolding cache_ok_def
proof (intro conjI allI impI)
  fix ino i
  assume i: "ac_attrs (rename_cache ts op on np nn src tgt old_dir new_dir moved a) ino = Some i"
  then have "\<And>d j. tgt = Some (d, j) \<Longrightarrow> ino \<noteq> d_child_ino d"
    by (auto simp: rename_cache_def Let_def cache_defs)
  then have "fs_inode (target_fs opened ts ts2 np nn tgt f) ino = fs_inode f ino" by (rule target_fs_simps(4))
  with i a show "fs_inode (rename_fs opened ts ts2 enc op on np nn src tgt old_dir new_dir moved f) ino = Some i"
    by (auto simp: rename_cache_def rename_fs_def Let_def cache_defs fs_steps cache_ok_def split: if_splits option.splits)
next
  fix p n
  assume "ac_negative (rename_cache ts op on np nn src tgt old_dir new_dir moved a) p n"
  then have "(p, n) \<noteq> (np, nn)" "(p, n) = (op, on) \<or> ac_negative a p n"
    by (auto simp: rename_cache_def Let_def cache_defs split: if_splits option.splits)
  with a ne target_fs_simps(5) show "fs_dirent (rename_fs opened ts ts2 enc op on np nn src tgt old_dir new_dir moved f) p n = None"
    by (auto simp: rename_fs_def Let_def fs_steps cache_ok_def)
qed

lemma rename_batch:
  fixes E op np src moved ts tgt new_dir old_dir
  defines "dir_moves \<equiv> i_kind moved = Dir \<and> op \<noteq> np" and "dir \<equiv> target_dir tgt new_dir"
  assumes E: "env_ok E" and seals: "seal_name (en_siv E) dek op on = Inr enc0" "seal_name (en_siv E) dek np nn = Inr enc"
    and t: "batch_does E dek ops (target_fs opened ts ts2 np nn tgt)"
    and d: "dirent_decode (en_codecs E) b1 =
      Inr \<lparr>d_name = nn, d_child_ino = d_child_ino src, d_kind = i_kind moved, d_dirent_id = i_next_dirent_id dir\<rparr>"
    and x: "dirent_idx_decode (en_codecs E) b2 = Inr \<lparr>e_enc_name = enc, e_child_ino = d_child_ino src, e_kind = i_kind moved\<rparr>"
    and m: "inode_decode (en_codecs E) b3 = Inr (renamed_inode ts dir_moves np moved)"
    and ds: "batch_does E dek dir_ops (\<lambda>f. put_inode np (renamed_new ts dir_moves dir)
      ((if op = np then id else put_inode op (renamed_old ts dir_moves old_dir)) f))"
  shows "batch_does E dek (ops @ [Delete (key_bytes (KDirent op enc0)), Delete (key_bytes (KDirentIdx op (d_dirent_id src))),
      Put (key_bytes (KDirent np enc)) b1, Put (key_bytes (KDirentIdx np (i_next_dirent_id dir))) b2,
      Put (key_bytes (KInode (d_child_ino src))) b3] @ dir_ops)
    (rename_fs opened ts ts2 enc op on np nn src tgt old_dir new_dir moved)"
proof -
  note siv = env_okD(3) [OF E]
  have e: "batch_does E dek [Put (key_bytes (KDirent np enc)) b1, Put (key_bytes (KDirentIdx np (i_next_dirent_id dir))) b2]
    (put_entry np \<lparr>d_name = nn, d_child_ino = d_child_ino src, d_kind = i_kind moved, d_dirent_id = i_next_dirent_id dir\<rparr> enc)"
    by (rule batch_entry(2) [OF siv seals(2) d]) (simp_all add: x)
  from batch_does_append [OF t batch_does_append [OF batch_entry(1) [OF siv seals(1), of "d_dirent_id src"]
      batch_does_append [OF e batch_does_append [OF batch_puts(1) [OF m, of dek "d_child_ino src"] ds]]]]
  show ?thesis unfolding rename_fs_def [abs_def] Let_def dir_moves_def dir_def by (simp only: append.simps)
qed

definition may_rename ::
  "credentials \<Rightarrow> u64 \<Rightarrow> u64 \<Rightarrow> dirent \<Rightarrow> dirent option \<Rightarrow> (dirent \<times> inode) option \<Rightarrow> inode \<Rightarrow> inode \<Rightarrow> inode \<Rightarrow> fs \<Rightarrow> bool" where
  "may_rename creds op np src dst tgt old_dir new_dir moved f =
     (fs_inode f op = Some old_dir \<and> fs_inode f np = Some new_dir \<and> fs_inode f (d_child_ino src) = Some moved \<and>
      target_ok creds moved new_dir dst tgt f)"

definition rename_done ::
  "'db env \<Rightarrow> credentials \<Rightarrow> 'db volume \<Rightarrow> u64 \<Rightarrow> bytes \<Rightarrow> u64 \<Rightarrow> bytes \<Rightarrow> dirent \<Rightarrow> dirent option \<Rightarrow>
   inode \<Rightarrow> inode \<Rightarrow> inode \<Rightarrow> (fs \<Rightarrow> (dirent \<times> inode) option \<Rightarrow> bool) \<Rightarrow> bool" where
  "rename_done E creds s op on np nn src dst old_dir new_dir moved P =
     (\<exists>tgt ts ts2 enc. target_ok creds moved new_dir dst tgt (vfs E s) \<and> seal_name (en_siv E) (v_dek s) np nn = Inr enc \<and>
        P (rename_fs (\<lambda>c. is_open c (v_handles s)) ts ts2 enc op on np nn src tgt old_dir new_dir moved (vfs E s)) tgt)"

text \<open>The branches of the code on the parents and on the target, each taken in one step.\<close>

lemma target_optI:
  fixes E s defines "opened \<equiv> \<lambda>c. is_open c (v_handles s)"
  assumes E: "env_ok E"
    and used: "\<And>d i. dst = Some d \<Longrightarrow> fs_inode (vfs E s) (d_child_ino d) = Some i \<Longrightarrow> d_child_ino d < al_next (v_alloc s)"
    and Q: "\<And>tgt ops ts2 st h. same_kv E s st \<Longrightarrow> target_ok creds moved new_dir dst tgt (vfs E s) \<Longrightarrow>
      batch_does E (v_dek s) ops (target_fs opened ts ts2 p name tgt) \<Longrightarrow>
      Q (ops, target_dir tgt new_dir, target_gone opened tgt, target_bytes opened tgt, target_inodes opened tgt) (settle s st h)"
    and R: "\<And>e st h. same_kv E s st \<Longrightarrow> R e (settle s st h)"
  shows "wp (case dst of None \<Rightarrow> returnE ([], new_dir, None, 0, 0) | Some d \<Rightarrow> rename_target E creds ts p name moved new_dir d) Q R s"
proof (cases dst)
  case None
  have "batch_does E (v_dek s) [] (target_fs opened ts ts p name None)"
    using batch_does_Nil by (simp add: target_fs_def [abs_def])
  from Q [OF refl _ this, of "v_health s"] None show ?thesis
    by (simp add: wp_simps target_ok_def target_dir_def target_gone_def target_bytes_def target_inodes_def settle_folds)
next
  case (Some d)
  then show ?thesis
    using Q R used by (auto intro!: rename_targetI [OF E, where R = R] simp: opened_def)
qed

lemma dir_opsI:
  assumes E: "env_ok E" and b: "b = (op = np)"
    and Q: "\<And>ops. (\<And>dek. batch_does E dek ops (\<lambda>f. put_inode np new_dir ((if op = np then id else put_inode op old_dir) f))) \<Longrightarrow> Q ops s"
  shows "wp (if b then bindE (coreR (inode_encode (en_codecs E) new_dir)) (\<lambda>b. returnE [Put (key_bytes (KInode np)) b])
      else bindE (coreR (inode_encode (en_codecs E) old_dir)) (\<lambda>a.
           bindE (coreR (inode_encode (en_codecs E) new_dir)) (\<lambda>b.
             returnE [Put (key_bytes (KInode op)) a, Put (key_bytes (KInode np)) b]))) Q R s"
  unfolding b
proof (intro wp_base [OF E] wp_rules, goal_cases)
  case (1 b)
  then show ?case using batch_puts(1) [OF 1(2), of _ np] by (intro Q) (simp add: eta_contract_eq)
next
  case (2 a b)
  then show ?case using batch_does_Cons [OF batch_puts(1) batch_puts(1)] by (intro Q) simp
qed

lemma attrs_stepI:
  "(\<And>t. t = s\<lparr>v_attrs := f (v_attrs s)\<rparr> \<Longrightarrow> Q () t) \<Longrightarrow> wp (on_attrs f) Q R s"
  "(\<And>t. t = s\<lparr>v_attrs := f ((if b then id else g) (v_attrs s))\<rparr> \<Longrightarrow> Q () t) \<Longrightarrow>
   wp (if b then on_attrs f else bindE (on_attrs g) (\<lambda>_. on_attrs f)) Q R s"
  "(\<And>t. t = s\<lparr>v_attrs := (case d of None \<Rightarrow> id | Some x \<Rightarrow> k x) (v_attrs s)\<rparr> \<Longrightarrow> Q () t) \<Longrightarrow>
   wp (case d of None \<Rightarrow> returnE () | Some x \<Rightarrow> on_attrs (k x)) Q R s"
  by (auto simp: wp_simps on_attrs_def split: option.split)

lemma free_stepI:
  assumes "env_ok E" "sint db \<le> 0" "sint di \<le> 0"
    and "\<And>st h t. same_kv E s st \<Longrightarrow>
      t = (settle s st h)\<lparr>v_quota := (v_quota s)\<lparr>qt_bytes := qt_bytes (v_quota s) + db, qt_inodes := qt_inodes (v_quota s) + di\<rparr>\<rparr> \<Longrightarrow> Q () t"
  shows "wp (ignoring (v_reserve E db di)) Q R s"
  using assms by (intro freeI) auto

lemma target_okD:
  assumes "target_ok creds moved new_dir dst tgt f"
  shows "tgt = Some (d, i) \<Longrightarrow> fs_inode f (d_child_ino d) = Some i"
    "(case dst of None \<Rightarrow> id | Some d \<Rightarrow> cache_remove (d_child_ino d)) =
     (case tgt of None \<Rightarrow> id | Some (d, i) \<Rightarrow> cache_remove (d_child_ino d))"
    "small_bills f \<Longrightarrow> sint (target_bytes opened tgt) \<le> 0" "sint (target_inodes opened tgt) \<le> 0"
    "target_gone opened tgt = Some c \<Longrightarrow> fs_inode f c \<noteq> None"
  using assms
  by (auto simp: target_ok_def target_bytes_def target_inodes_def target_gone_def small_bills_def intro!: free_not_positive
      split: option.splits if_splits)

lemma rename_inv:
  assumes inv: "vol_inv E s" and ne: "(op, on) \<noteq> (np, nn)"
    and i: "fs_inode (vfs E s) op = Some old_dir" "fs_inode (vfs E s) np = Some new_dir" "fs_inode (vfs E s) (d_child_ino src) = Some moved"
    and tgt: "target_ok creds moved new_dir dst tgt (vfs E s)"
    and f: "vfs E t = rename_fs opened ts ts2 enc op on np nn src tgt old_dir new_dir moved (vfs E s)"
    and m: "counters_ok (vcontents E t)" "schema_keys (vcontents E t)" "v_alloc t = v_alloc s"
    and a: "v_attrs t = rename_cache ts op on np nn src tgt old_dir new_dir moved (v_attrs s)"
    and q: "qt_bytes (v_quota t) = qt_bytes (v_quota s) + target_bytes opened tgt"
      "qt_inodes (v_quota t) = qt_inodes (v_quota s) + target_inodes opened tgt"
  shows "vol_inv E t"
proof (rule vol_invI [OF inv f m(1,2)])
  let ?f = "rename_fs opened ts ts2 enc op on np nn src tgt old_dir new_dir moved (vfs E s)"
  show "cache_ok (v_attrs t) ?f" unfolding a by (rule cache_ok_rename [OF vol_invD(3) [OF inv] ne])
  show "quota_usage (v_quota t) = (fs_bytes ?f, fs_inodes ?f)"
    using vol_invD(4,5) [OF inv] by (simp add: quota_usage_def rename_fs_simps q)
  show "unused k ?f" if "al_next (v_alloc s) \<le> k" "unused k (vfs E s)" for k
    using that used_ino [OF inv i(1)] used_ino [OF inv i(2)] used_ino [OF inv i(3)] used_ino [OF inv target_okD(1) [OF tgt]]
    by (intro rename_fs_simps(3)) auto
qed (simp add: m)

lemma rename_commitI:
  fixes E s defines "opened \<equiv> \<lambda>c. is_open c (v_handles s)"
  assumes E: "env_ok E" and inv: "vol_inv E s" and small: "small_bills (vfs E s)"
    and Q: "\<And>tgt ts ts2 enc t. target_ok creds moved new_dir dst tgt (vfs E s) \<Longrightarrow> seal_name (en_siv E) (v_dek s) np nn = Inr enc \<Longrightarrow>
      vfs E t = rename_fs opened ts ts2 enc op on np nn src tgt old_dir new_dir moved (vfs E s) \<Longrightarrow>
      counters_ok (vcontents E t) \<Longrightarrow> schema_keys (vcontents E t) \<Longrightarrow> v_alloc t = v_alloc s \<Longrightarrow>
      v_attrs t = rename_cache ts op on np nn src tgt old_dir new_dir moved (v_attrs s) \<Longrightarrow>
      qt_bytes (v_quota t) = qt_bytes (v_quota s) + target_bytes opened tgt \<Longrightarrow>
      qt_inodes (v_quota t) = qt_inodes (v_quota s) + target_inodes opened tgt \<Longrightarrow> hframe s t \<Longrightarrow>
      wp (case target_gone opened tgt of None \<Rightarrow> returnE () | Some c \<Rightarrow> reap_orphan E c) Q R t"
    and R: "\<And>e st h. same_kv E s st \<Longrightarrow> R e (settle s st h)"
  shows "wp (rename_commit E creds op on np nn src dst old_dir new_dir moved) Q R s"
  unfolding rename_commit_def
proof (intro wp_letI wp_bindI wp_vnow [OF E] target_optI [OF E] wp_case_prodI wp_seal [OF E] wp_dirent_encode [OF E]
    wp_dirent_idx_encode [OF E] wp_inode_encode [OF E] dir_opsI [OF E] wp_commit [OF E] attrs_stepI free_stepI [OF E],
    goal_cases)
  case (3 same_parent ts st h tgt ops ts2 sta ha enc0 new_id new_dir2 enc b1 b2 dir_moves old_dir1 new_dir3 moved1 moved' old_dir' new_dir' b3 dir_ops)
  have d: "moved' = renamed_inode ts (i_kind moved = Dir \<and> op \<noteq> np) np moved"
    "old_dir' = renamed_old ts (i_kind moved = Dir \<and> op \<noteq> np) old_dir"
    "new_dir' = renamed_new ts (i_kind moved = Dir \<and> op \<noteq> np) (target_dir tgt new_dir)"
    using 3 by (simp_all add: renamed_inode_def renamed_old_def renamed_new_def is_dir_def Let_def)
  have b: "batch_does E (v_dek s) (ops @ [Delete (key_bytes (KDirent op enc0)), Delete (key_bytes (KDirentIdx op (d_dirent_id src))),
      Put (key_bytes (KDirent np enc)) b1, Put (key_bytes (KDirentIdx np (i_next_dirent_id (target_dir tgt new_dir)))) b2,
      Put (key_bytes (KInode (d_child_ino src))) b3] @ dir_ops)
    (rename_fs opened ts ts2 enc op on np nn src tgt old_dir new_dir moved)"
    by (rule rename_batch [OF E _ _ _ _ _ 3(19) [unfolded d(1)] 3(20) [unfolded d]]) (use 3(1-11) in \<open>simp_all add: opened_def\<close>)
  from batch_doesD(1) [OF b vol_invD(1) [OF inv]] 3 show ?case by simp
next
  case (4 same_parent ts st h tgt)
  then show ?case using small by (simp add: target_okD)
next
  case (5 same_parent ts st h tgt)
  then show ?case by (simp add: target_okD)
next
  case (6 same_parent ts st h tgt ops ts2 sta ha enc0 new_id new_dir2 enc b1 b2 dir_moves old_dir1 new_dir3 moved1 moved' old_dir' new_dir' b3 dir_ops
      stb hb t1 t2 t3 t4 t5 stc hc t)
  have d: "moved' = renamed_inode ts (i_kind moved = Dir \<and> op \<noteq> np) np moved"
    "old_dir' = renamed_old ts (i_kind moved = Dir \<and> op \<noteq> np) old_dir"
    "new_dir' = renamed_new ts (i_kind moved = Dir \<and> op \<noteq> np) (target_dir tgt new_dir)"
    using 6 by (simp_all add: renamed_inode_def renamed_old_def renamed_new_def is_dir_def Let_def)
  have b: "batch_does E (v_dek s) (ops @ [Delete (key_bytes (KDirent op enc0)), Delete (key_bytes (KDirentIdx op (d_dirent_id src))),
      Put (key_bytes (KDirent np enc)) b1, Put (key_bytes (KDirentIdx np (i_next_dirent_id (target_dir tgt new_dir)))) b2,
      Put (key_bytes (KInode (d_child_ino src))) b3] @ dir_ops)
    (rename_fs opened ts ts2 enc op on np nn src tgt old_dir new_dir moved)"
    by (rule rename_batch [OF E _ _ _ _ _ 6(19) [unfolded d(1)] 6(20) [unfolded d]]) (use 6(1-11) in \<open>simp_all add: opened_def\<close>)
  note m = batch_doesD(2-4) [OF b vol_invD(1) [OF inv], of "st_contents (en_engine E) stb"]
  have eqs: "vcontents E t = st_contents (en_engine E) stb" "v_dek t = v_dek s" "v_alloc t = v_alloc s" "hframe s t"
    "qt_bytes (v_quota t) = qt_bytes (v_quota s) + target_bytes opened tgt"
    "qt_inodes (v_quota t) = qt_inodes (v_quota s) + target_inodes opened tgt"
    using 6 by (simp_all add: hframe_def vframe_def opened_def)
  have c: "v_attrs t = rename_cache ts op on np nn src tgt old_dir new_dir moved (v_attrs s)"
    using 6(22-26,28) by (simp add: rename_cache_def target_okD(2) [OF 6(4)] 6(1) d Let_def)
  have "Some (st_contents (en_engine E) stb) = apply_batch (ops @ [Delete (key_bytes (KDirent op enc0)), Delete (key_bytes (KDirentIdx op (d_dirent_id src))),
      Put (key_bytes (KDirent np enc)) b1, Put (key_bytes (KDirentIdx np (i_next_dirent_id (target_dir tgt new_dir)))) b2,
      Put (key_bytes (KInode (d_child_ino src))) b3] @ dir_ops) (vcontents E s)" using 6 by simp
  note m = m [OF this]
  have "wp (case target_gone opened tgt of None \<Rightarrow> returnE () | Some c \<Rightarrow> reap_orphan E c) Q R t"
    by (rule Q [of tgt enc t ts ts2]) (use 6(2,4,9) m vol_invD(2) [OF inv] in \<open>simp_all add: eqs c\<close>)
  then show ?case by (simp add: opened_def)
qed (simp_all add: R used_ino [OF inv])

lemma rename_commit_wp:
  assumes E: "env_ok E" and inv: "vol_inv E s" and small: "small_bills (vfs E s)"
    and i: "fs_inode (vfs E s) op = Some old_dir" "fs_inode (vfs E s) np = Some new_dir" "fs_inode (vfs E s) (d_child_ino src) = Some moved"
    and ne: "(op, on) \<noteq> (np, nn)"
  shows "wp (rename_commit E creds op on np nn src dst old_dir new_dir moved)
    (\<lambda>_ t. vol_inv E t \<and> hframe s t \<and> rename_done E creds s op on np nn src dst old_dir new_dir moved
       (\<lambda>f tgt. vfs E t = (case target_gone (\<lambda>c. is_open c (v_handles s)) tgt of None \<Rightarrow> f | Some c \<Rightarrow> reaped c f)))
    (\<lambda>e t. undone E s t \<or> vol_inv E t \<and> hframe s t \<and> rename_done E creds s op on np nn src dst old_dir new_dir moved
       (\<lambda>f tgt. \<exists>c idxs. target_gone (\<lambda>c. is_open c (v_handles s)) tgt = Some c \<and> vfs E t = cut_chunks c idxs f)) s"
proof (rule rename_commitI [OF E inv small], goal_cases)
  case (1 tgt ts ts2 enc t)
  let ?o = "\<lambda>c. is_open c (v_handles s)"
  let ?f = "rename_fs ?o ts ts2 enc op on np nn src tgt old_dir new_dir moved (vfs E s)"
  have t: "vol_inv E t" by (rule rename_inv [OF inv ne i 1(1,3-9)])
  have d: "rename_done E creds s op on np nn src dst old_dir new_dir moved P" if "P ?f tgt" for P
    unfolding rename_done_def using 1(1,2) that by blast
  show ?case
  proof (cases "target_gone ?o tgt")
    case None
    with t 1 show ?thesis by (auto simp: wp_simps intro!: d)
  next
    case (Some c)
    have u: "c < al_next (v_alloc t)" using target_okD(5) [OF 1(1) Some] used_ino [OF inv] 1(6) by auto
    show ?thesis
      by (simp only: Some option.case) (rule reap_orphanI [OF E t u 1(10,3)], auto intro!: d simp: Some)
  qed
qed (simp add: idle_undone [OF inv])

section \<open>The call\<close>

text \<open>The outcome of \<open>rename\<close>: nothing to do, or the checks passed and the entry moved.\<close>

definition renamed ::
  "'db env \<Rightarrow> nat \<Rightarrow> credentials \<Rightarrow> 'db volume \<Rightarrow> u64 \<Rightarrow> bytes \<Rightarrow> u64 \<Rightarrow> bytes \<Rightarrow> dirent \<Rightarrow> dirent option \<Rightarrow>
   (fs \<Rightarrow> (dirent \<times> inode) option \<Rightarrow> bool) \<Rightarrow> bool" where
  "renamed E fuel creds s op on np nn src dst P =
     (\<exists>old_dir new_dir moved.
        fs_inode (vfs E s) op = Some old_dir \<and> i_kind old_dir = Dir \<and> access creds old_dir (ACCESS_W OR ACCESS_X) = Inr () \<and>
        fs_inode (vfs E s) np = Some new_dir \<and> i_kind new_dir = Dir \<and> access creds new_dir (ACCESS_W OR ACCESS_X) = Inr () \<and>
        fs_inode (vfs E s) (d_child_ino src) = Some moved \<and> check_sticky creds old_dir moved = Inr () \<and>
        (i_kind moved = Dir \<and> op \<noteq> np \<longrightarrow>
           access creds moved ACCESS_W = Inr () \<and> climb (vfs E s) (d_child_ino src) fuel np = Some True) \<and>
        rename_done E creds s op on np nn src dst old_dir new_dir moved P)"

definition rename_noop :: "u64 \<Rightarrow> bytes \<Rightarrow> u64 \<Rightarrow> bytes \<Rightarrow> dirent \<Rightarrow> dirent option \<Rightarrow> bool" where
  "rename_noop op on np nn src dst =
     ((op, on) = (np, nn) \<or> (\<exists>d. dst = Some d \<and> d_child_ino d = d_child_ino src))"

definition rename_post ::
  "'db env \<Rightarrow> nat \<Rightarrow> credentials \<Rightarrow> 'db volume \<Rightarrow> u64 \<Rightarrow> bytes \<Rightarrow> u64 \<Rightarrow> bytes \<Rightarrow> dirent \<Rightarrow> dirent option \<Rightarrow> unit option \<Rightarrow> 'db volume \<Rightarrow> bool" where
  "rename_post E fuel creds s op on np nn src dst r t =
     (case r of
        None \<Rightarrow> undone E s t \<and> op \<noteq> np \<and> climb (vfs E s) (d_child_ino src) fuel np = None
      | Some _ \<Rightarrow>
          if rename_noop op on np nn src dst then undone E s t
          else vol_inv E t \<and> hframe s t \<and> renamed E fuel creds s op on np nn src dst
            (\<lambda>f tgt. vfs E t = (case target_gone (\<lambda>c. is_open c (v_handles s)) tgt of None \<Rightarrow> f | Some c \<Rightarrow> reaped c f)))"

definition rename_torn ::
  "'db env \<Rightarrow> nat \<Rightarrow> credentials \<Rightarrow> 'db volume \<Rightarrow> u64 \<Rightarrow> bytes \<Rightarrow> u64 \<Rightarrow> bytes \<Rightarrow> dirent \<Rightarrow> dirent option \<Rightarrow> 'db volume \<Rightarrow> bool" where
  "rename_torn E fuel creds s op on np nn src dst t =
     (vol_inv E t \<and> hframe s t \<and> \<not> rename_noop op on np nn src dst \<and> renamed E fuel creds s op on np nn src dst
        (\<lambda>f tgt. \<exists>c idxs. target_gone (\<lambda>c. is_open c (v_handles s)) tgt = Some c \<and> vfs E t = cut_chunks c idxs f))"

lemma rename_commit_afterI:
  assumes E: "env_ok E" and s': "idle E s s'" and inv: "vol_inv E s" and small: "small_bills (vfs E s)"
    and i: "fs_inode (vfs E s) op = Some old_dir" "fs_inode (vfs E s) np = Some new_dir" "fs_inode (vfs E s) (d_child_ino src) = Some moved"
    and ne: "(op, on) \<noteq> (np, nn)"
    and Q: "\<And>t. vol_inv E t \<Longrightarrow> hframe s t \<Longrightarrow> rename_done E creds s op on np nn src dst old_dir new_dir moved
       (\<lambda>f tgt. vfs E t = (case target_gone (\<lambda>c. is_open c (v_handles s)) tgt of None \<Rightarrow> f | Some c \<Rightarrow> reaped c f)) \<Longrightarrow> Q () t"
    and R: "\<And>e t. undone E s t \<Longrightarrow> R e t"
    and R': "\<And>e t. vol_inv E t \<Longrightarrow> hframe s t \<Longrightarrow> rename_done E creds s op on np nn src dst old_dir new_dir moved
       (\<lambda>f tgt. \<exists>c idxs. target_gone (\<lambda>c. is_open c (v_handles s)) tgt = Some c \<and> vfs E t = cut_chunks c idxs f) \<Longrightarrow> R e t"
  shows "wp (rename_commit E creds op on np nn src dst old_dir new_dir moved) Q R s'"
proof -
  have v: "vcontents E s' = vcontents E s" "v_handles s' = v_handles s" "v_dek s' = v_dek s"
    using s' by (simp_all add: idle_def hframe_def vframe_def)
  have d: "rename_done E creds s' op on np nn src dst old_dir new_dir moved P =
      rename_done E creds s op on np nn src dst old_dir new_dir moved P" for P
    by (simp add: rename_done_def v)
  show ?thesis
    by (rule wp_mono [OF rename_commit_wp [OF E]])
       (use idle_inv [OF inv s'] small i ne Q R R' undone_idle [OF inv s'] hframe_idle [OF s'] in \<open>auto simp: v d\<close>)
qed

lemma new_dirI:
  assumes E: "env_ok E" and old: "fs_inode (vfs E s) op = Some old_dir" "i_kind old_dir = Dir" "access creds old_dir (ACCESS_W OR ACCESS_X) = Inr u"
    and Q: "\<And>d st h. same_kv E s st \<Longrightarrow> fs_inode (vfs E s) np = Some d \<Longrightarrow> i_kind d = Dir \<Longrightarrow>
      access creds d (ACCESS_W OR ACCESS_X) = Inr () \<Longrightarrow> Q d (settle s st h)"
    and R: "\<And>e st h. same_kv E s st \<Longrightarrow> R e (settle s st h)"
  shows "wp (if op = np then returnE old_dir
      else bindE (load_dir E np) (\<lambda>d. bindE (liftE (access creds d (ACCESS_W OR ACCESS_X))) (\<lambda>_. returnE d))) Q R s"
  by (intro wp_base [OF E] wp_rules)
     (use Q R old Q [of "v_store s" old_dir "v_health s"] in \<open>auto simp: settle_folds\<close>)

lemma guardI:
  "((b \<Longrightarrow> r = Inr ()) \<Longrightarrow> Q () s) \<Longrightarrow> (\<And>e. R e s) \<Longrightarrow> wp (if b then liftE r else returnE ()) Q R s"
  by (cases r) (auto simp: wp_simps)

lemma walkI:
  assumes E: "env_ok E"
    and Q: "\<And>st h. same_kv E s st \<Longrightarrow> (b \<Longrightarrow> climb (vfs E s) src n c = Some True) \<Longrightarrow> Q (Some ()) (settle s st h)"
    and N: "\<And>st h. same_kv E s st \<Longrightarrow> b \<Longrightarrow> climb (vfs E s) src n c = None \<Longrightarrow> Q None (settle s st h)"
    and R: "\<And>e st h. same_kv E s st \<Longrightarrow> R e (settle s st h)"
  shows "wp (if b then cycle_walk E src n c else returnE (Some ())) Q R s"
  by (intro cycle_walkI [OF E] wp_rules) (use Q N R Q [of "v_store s" "v_health s"] in \<open>auto simp: settle_folds\<close>)

lemma rename_locked_wp:
  assumes E: "env_ok E" and inv: "vol_inv E s" and small: "small_bills (vfs E s)"
  shows "wp (rename_locked E fuel creds op on np nn src dst)
    (rename_post E fuel creds s op on np nn src dst)
    (\<lambda>e t. undone E s t \<or> rename_torn E fuel creds s op on np nn src dst t) s"
  unfolding rename_locked_def
proof (intro new_dirI [OF E] guardI walkI [OF E] rename_commit_afterI [OF E _ inv small] wp_ifI wp_bindI wp_load_dir [OF E] wp_liftI
    wp_mapErrI wp_load_inode [OF E] wp_returnI wp_case_optionI(1,2), goal_cases)
  case (11 old_dir st h x new_dir sta ha moved stb hb xa stc hc t)
  then have "renamed E fuel creds s op on np nn src dst
    (\<lambda>f tgt. vfs E t = (case target_gone (\<lambda>c. is_open c (v_handles s)) tgt of None \<Rightarrow> f | Some c \<Rightarrow> reaped c f))"
    unfolding renamed_def by (intro exI conjI) (auto simp: is_dir_def)
  with 11 show ?case by (auto simp: rename_post_def rename_noop_def split: option.splits)
next
  case (13 old_dir st h x new_dir sta ha moved stb hb xa stc hc e t)
  then have "renamed E fuel creds s op on np nn src dst
    (\<lambda>f tgt. \<exists>c idxs. target_gone (\<lambda>c. is_open c (v_handles s)) tgt = Some c \<and> vfs E t = cut_chunks c idxs f)"
    unfolding renamed_def by (intro exI conjI) (auto simp: is_dir_def)
  with 13 show ?case by (auto simp: rename_torn_def rename_noop_def split: option.splits)
qed (auto simp: idle_undone [OF inv] undone_refl [OF inv] rename_post_def rename_noop_def split: option.splits)

lemma rename_idle:
  assumes "vol_inv E s" "idle E s s'"
  shows "rename_post E fuel creds s' op on np nn src dst r t \<Longrightarrow> rename_post E fuel creds s op on np nn src dst r t"
    "rename_torn E fuel creds s' op on np nn src dst t \<Longrightarrow> rename_torn E fuel creds s op on np nn src dst t"
proof -
  have v: "vcontents E s' = vcontents E s" "v_handles s' = v_handles s" "v_dek s' = v_dek s"
    using assms(2) by (simp_all add: idle_def hframe_def vframe_def)
  have d: "renamed E fuel creds s' op on np nn src dst P = renamed E fuel creds s op on np nn src dst P" for P
    by (simp add: renamed_def rename_done_def v)
  show "rename_post E fuel creds s' op on np nn src dst r t \<Longrightarrow> rename_post E fuel creds s op on np nn src dst r t"
    "rename_torn E fuel creds s' op on np nn src dst t \<Longrightarrow> rename_torn E fuel creds s op on np nn src dst t"
    using undone_idle [OF assms] hframe_idle [OF assms(2)]
    by (cases r; auto simp: rename_post_def rename_torn_def d v split: if_splits)+
qed

lemma rename_wp:
  assumes E: "env_ok E" and inv: "vol_inv E s" and small: "small_bills (vfs E s)"
  shows "wp (rename E fuel creds op on np nn (id # waits))
    (\<lambda>r t. validate_name on = Inr () \<and> validate_name nn = Inr () \<and>
       (\<exists>src. fs_dirent (vfs E s) op on = Some src \<and> rename_post E fuel creds s op on np nn src (fs_dirent (vfs E s) np nn) r t))
    (\<lambda>e t. undone E s t \<or>
       (\<exists>src. fs_dirent (vfs E s) op on = Some src \<and> rename_torn E fuel creds s op on np nn src (fs_dirent (vfs E s) np nn) t)) s"
proof -
  have I: "wp (rename_locked E fuel creds op on np nn src dst) Q R s'"
    if s': "idle E s s'" and Q: "\<And>r t. rename_post E fuel creds s op on np nn src dst r t \<Longrightarrow> Q r t"
      and R: "\<And>e t. undone E s t \<or> rename_torn E fuel creds s op on np nn src dst t \<Longrightarrow> R e t" for s' src dst Q R
    using idle_inv [OF inv s'] small rename_idle [OF inv s'] undone_idle [OF inv s'] Q R
    by (intro wp_mono [OF rename_locked_wp [OF E]]) auto
  show ?thesis
    unfolding rename_def rename_loop.simps Let_def
    by (intro I wp_bindI wp_liftI wp_dirent_of [OF E] wp_modifyI wp_ifI wp_throwI wp_case_optionI)
       (auto simp: idle_undone [OF inv] undone_refl [OF inv])
qed

end
