(* ===== verification/Namespace.thy ===== *)
theory Namespace
  imports Vfs_Rename
begin

text \<open>
  The shape of the name space: every entry names an inode of its kind and is paired with
  an index record, link counts are the numbers of entries, directories form a tree under
  the root, and a file without links waits as an orphan. This is what the consistency
  check verifies; here it is an invariant of the abstract file system and every operation
  keeps it.
\<close>

section \<open>Links and parents\<close>

type_synonym dirents = "u64 \<Rightarrow> bytes \<Rightarrow> dirent option"
type_synonym inodes = "u64 \<Rightarrow> inode option"

definition entries :: "dirents \<Rightarrow> (u64 \<times> bytes) set" where
  "entries D = {(p, n). D p n \<noteq> None}"

definition links :: "dirents \<Rightarrow> u64 \<Rightarrow> (u64 \<times> bytes) set" where
  "links D c = {(p, n). \<exists>d. D p n = Some d \<and> d_child_ino d = c}"

definition subdirs :: "dirents \<Rightarrow> u64 \<Rightarrow> bytes set" where
  "subdirs D p = {n. \<exists>d. D p n = Some d \<and> d_kind d = Dir}"

inductive rooted :: "inodes \<Rightarrow> u64 \<Rightarrow> bool" for I where
  rooted_root: "rooted I ROOT_INO"
| rooted_step: "I c = Some i \<Longrightarrow> i_kind i = Dir \<Longrightarrow> rooted I (i_parent_dir i) \<Longrightarrow> rooted I c"

lemma entries_upd [simp]:
  "entries (D(p := (D p)(n \<mapsto> d))) = insert (p, n) (entries D)"
  "entries (D(p := (D p)(n := None))) = entries D - {(p, n)}"
  by (auto simp: entries_def split: if_splits)

lemma links_upd [simp]:
  "links (D(p := (D p)(n \<mapsto> d))) c = (if d_child_ino d = c then insert (p, n) (links D c) else links D c - {(p, n)})"
  "links (D(p := (D p)(n := None))) c = links D c - {(p, n)}"
  by (auto simp: links_def split: if_splits)

lemma subdirs_upd [simp]:
  "subdirs (D(p := (D p)(n \<mapsto> d))) q =
     (if q \<noteq> p then subdirs D q else if d_kind d = Dir then insert n (subdirs D p) else subdirs D p - {n})"
  "subdirs (D(p := (D p)(n := None))) q = (if q \<noteq> p then subdirs D q else subdirs D p - {n})"
  by (auto simp: subdirs_def split: if_splits)

lemma links_finite: "finite (entries D) \<Longrightarrow> finite (links D c)"
  by (rule finite_subset [of _ "entries D"]) (auto simp: links_def entries_def)

lemma subdirs_finite: "finite (entries D) \<Longrightarrow> finite (subdirs D p)"
  by (rule finite_subset [of _ "snd ` entries D"]) (force simp: subdirs_def entries_def image_iff, simp)

lemma rooted_mono:
  assumes "rooted I c"
    and "\<And>c i. I c = Some i \<Longrightarrow> i_kind i = Dir \<Longrightarrow> \<exists>i'. I' c = Some i' \<and> i_kind i' = Dir \<and> i_parent_dir i' = i_parent_dir i"
  shows "rooted I' c"
  using assms(1) by (induction) (auto dest!: assms(2) intro: rooted.intros)

section \<open>The invariant\<close>

definition entry_ok :: "(u64 \<Rightarrow> bytes \<Rightarrow> bytes) \<Rightarrow> fs \<Rightarrow> u64 \<Rightarrow> bytes \<Rightarrow> dirent \<Rightarrow> bool" where
  "entry_ok S f p n d =
     (d_name d = n \<and>
      (\<exists>i. fs_inode f p = Some i \<and> i_kind i = Dir \<and> d_dirent_id d < i_next_dirent_id i) \<and>
      (\<exists>i. fs_inode f (d_child_ino d) = Some i \<and> i_kind i = d_kind d \<and> (i_kind i = Dir \<longrightarrow> i_parent_dir i = p)) \<and>
      fs_index f p (d_dirent_id d) = Some \<lparr>e_enc_name = S p n, e_child_ino = d_child_ino d, e_kind = d_kind d\<rparr>)"

definition dir_ok :: "fs \<Rightarrow> u64 \<Rightarrow> inode \<Rightarrow> bool" where
  "dir_ok f c i =
     (i_nlink i = of_nat (2 + card (subdirs (fs_dirent f) c)) \<and>
      card (links (fs_dirent f) c) = (if c = ROOT_INO then 0 else 1) \<and> rooted (fs_inode f) c)"

definition file_ok :: "fs \<Rightarrow> u64 \<Rightarrow> inode \<Rightarrow> bool" where
  "file_ok f c i =
     (unat (i_nlink i) = card (links (fs_dirent f) c) \<and> (i_nlink i = 0 \<longrightarrow> fs_orphan f c \<noteq> None) \<and>
      (i_kind i = Symlink \<longrightarrow> fs_symlink f c \<noteq> None))"

definition orphan_ok :: "fs \<Rightarrow> u64 \<Rightarrow> bool" where
  "orphan_ok f c = (\<forall>i. fs_inode f c = Some i \<longrightarrow> i_kind i \<noteq> Dir \<and> i_nlink i = 0)"

text \<open>\<open>S\<close> seals the names of a directory.\<close>

definition ns_ok :: "(u64 \<Rightarrow> bytes \<Rightarrow> bytes) \<Rightarrow> fs \<Rightarrow> bool" where
  "ns_ok S f =
     ((\<exists>r. fs_inode f ROOT_INO = Some r \<and> i_kind r = Dir \<and> i_parent_dir r = ROOT_INO) \<and>
      finite (entries (fs_dirent f)) \<and>
      (\<forall>p n d. fs_dirent f p n = Some d \<longrightarrow> entry_ok S f p n d) \<and>
      (\<forall>p k e. fs_index f p k = Some e \<longrightarrow> (\<exists>n d. fs_dirent f p n = Some d \<and> d_dirent_id d = k)) \<and>
      (\<forall>c i. fs_inode f c = Some i \<longrightarrow> (if i_kind i = Dir then dir_ok f c i else file_ok f c i)) \<and>
      (\<forall>c. fs_orphan f c \<noteq> None \<longrightarrow> orphan_ok f c))"

lemma ns_okD:
  assumes "ns_ok S f"
  shows "\<exists>r. fs_inode f ROOT_INO = Some r \<and> i_kind r = Dir \<and> i_parent_dir r = ROOT_INO"
    "finite (entries (fs_dirent f))"
    "fs_dirent f p n = Some d \<Longrightarrow> entry_ok S f p n d"
    "fs_index f p k = Some e \<Longrightarrow> \<exists>n d. fs_dirent f p n = Some d \<and> d_dirent_id d = k"
    "fs_inode f c = Some i \<Longrightarrow> i_kind i = Dir \<Longrightarrow> dir_ok f c i"
    "fs_inode f c = Some i \<Longrightarrow> i_kind i \<noteq> Dir \<Longrightarrow> file_ok f c i"
    "fs_orphan f c \<noteq> None \<Longrightarrow> orphan_ok f c"
  using assms unfolding ns_ok_def by metis+

text \<open>The entry of a directory is in its parent, which is a directory.\<close>

lemma parent_entry:
  assumes ns: "ns_ok S f" and c: "fs_inode f c = Some i" "i_kind i = Dir" "c \<noteq> ROOT_INO"
  shows "\<exists>n d. fs_dirent f (i_parent_dir i) n = Some d \<and> d_child_ino d = c \<and> d_kind d = Dir"
    "\<exists>p. fs_inode f (i_parent_dir i) = Some p \<and> i_kind p = Dir"
proof -
  have "card (links (fs_dirent f) c) = 1" using ns_okD(5) [OF ns c(1,2)] c(3) by (simp add: dir_ok_def)
  then obtain p n where "(p, n) \<in> links (fs_dirent f) c" by (fastforce simp: card_1_singleton_iff)
  then obtain d where d: "fs_dirent f p n = Some d" "d_child_ino d = c" by (auto simp: links_def)
  with ns_okD(3) [OF ns d(1)] c have "p = i_parent_dir i" "d_kind d = Dir" "\<exists>j. fs_inode f p = Some j \<and> i_kind j = Dir"
    by (auto simp: entry_ok_def)
  with d show "\<exists>n d. fs_dirent f (i_parent_dir i) n = Some d \<and> d_child_ino d = c \<and> d_kind d = Dir"
    "\<exists>p. fs_inode f (i_parent_dir i) = Some p \<and> i_kind p = Dir" by auto
qed

text \<open>No two entries of a directory share an identifier.\<close>

lemma dirent_id_inject:
  assumes ns: "ns_ok S f" and S: "\<And>p. inj (S p)"
    and d: "fs_dirent f p n = Some d" "fs_dirent f p n' = Some d'" "d_dirent_id d = d_dirent_id d'"
  shows "n = n'"
proof -
  have "S p n = S p n'" using ns_okD(3) [OF ns d(1)] ns_okD(3) [OF ns d(2)] d(3) by (auto simp: entry_ok_def)
  then show ?thesis using S by (simp add: inj_eq)
qed

section \<open>Updates of an inode\<close>

definition same_shape :: "inode \<Rightarrow> inode \<Rightarrow> bool" where
  "same_shape i i' =
     (i_kind i' = i_kind i \<and> i_nlink i' = i_nlink i \<and> i_parent_dir i' = i_parent_dir i \<and> i_next_dirent_id i \<le> i_next_dirent_id i')"

text \<open>
  Anything that keeps entries, index, orphans and symlinks and replaces inodes by ones of
  the same shape keeps the name space.
\<close>

lemma ns_same_shape:
  assumes ns: "ns_ok S f"
    and m: "fs_dirent g = fs_dirent f" "fs_index g = fs_index f" "fs_orphan g = fs_orphan f" "fs_symlink g = fs_symlink f"
    and i: "\<And>c. rel_option same_shape (fs_inode f c) (fs_inode g c)"
  shows "ns_ok S g"
proof -
  have fg: "\<exists>i'. fs_inode g c = Some i' \<and> same_shape i i'" if "fs_inode f c = Some i" for c i
    using i [of c] that by (cases "fs_inode g c") auto
  have gf: "\<exists>i. fs_inode f c = Some i \<and> same_shape i i'" if "fs_inode g c = Some i'" for c i'
    using i [of c] that by (cases "fs_inode f c") auto
  have r: "rooted (fs_inode g) c" if "rooted (fs_inode f) c" for c
    using that by (rule rooted_mono) (auto dest!: fg simp: same_shape_def)
  have 1: "\<exists>r. fs_inode g ROOT_INO = Some r \<and> i_kind r = Dir \<and> i_parent_dir r = ROOT_INO"
    using ns_okD(1) [OF ns] fg by (fastforce simp: same_shape_def)
  have 2: "entry_ok S g p n d" if "fs_dirent g p n = Some d" for p n d
    using ns_okD(3) [OF ns that [unfolded m]] fg
    unfolding entry_ok_def m by (fastforce simp: same_shape_def)
  have 3: "if i_kind i' = Dir then dir_ok g c i' else file_ok g c i'" if c: "fs_inode g c = Some i'" for c i'
    using gf [OF c] ns_okD(5,6) [OF ns] r by (auto simp: dir_ok_def file_ok_def m same_shape_def)
  have 4: "orphan_ok g c" if "fs_orphan g c \<noteq> None" for c
    using ns_okD(7) [OF ns, of c] that gf by (fastforce simp: orphan_ok_def m same_shape_def)
  show ?thesis
    unfolding ns_ok_def using 1 2 3 4 ns_okD(2,4) [OF ns] by (auto simp: m)
qed

section \<open>A new entry\<close>

lemma no_links:
  assumes ns: "ns_ok S f" and c: "fs_inode f c = None"
  shows "links (fs_dirent f) c = {}" "fs_dirent f c = Map.empty"
proof -
  show "links (fs_dirent f) c = {}"
    using ns_okD(3) [OF ns] c by (fastforce simp: links_def entry_ok_def)
  show "fs_dirent f c = Map.empty"
  proof (rule ext)
    show "fs_dirent f c n = None" for n
      using ns_okD(3) [OF ns, of c n] c by (cases "fs_dirent f c n") (auto simp: entry_ok_def)
  qed
qed

lemma next_id_fresh:
  assumes ns: "ns_ok S f" and p: "fs_inode f p = Some dir" and d: "fs_dirent f p n = Some d"
  shows "d_dirent_id d < i_next_dirent_id dir"
  using ns_okD(3) [OF ns d] p by (auto simp: entry_ok_def)

lemma ns_add_entry:
  assumes ns: "ns_ok S f" and p: "fs_inode f p = Some dir" "i_kind dir = Dir" and free: "fs_dirent f p n = None" "fs_orphan f c = None"
    and c: "c \<noteq> p" "c \<noteq> ROOT_INO"
    and maps: "fs_dirent g = (fs_dirent f)(p := (fs_dirent f p)(n \<mapsto> d))"
      "fs_index g = (fs_index f)(p := (fs_index f p)(d_dirent_id d \<mapsto> \<lparr>e_enc_name = S p n, e_child_ino = c, e_kind = i_kind child\<rparr>))"
      "fs_inode g = (fs_inode f)(c \<mapsto> child, p \<mapsto> dir')" "fs_orphan g = fs_orphan f"
      "\<And>k. fs_symlink f k \<noteq> None \<Longrightarrow> fs_symlink g k \<noteq> None"
    and d: "d_name d = n" "d_child_ino d = c" "d_kind d = i_kind child" "d_dirent_id d = i_next_dirent_id dir"
    and dir': "i_kind dir' = Dir" "i_parent_dir dir' = i_parent_dir dir" "i_next_dirent_id dir < i_next_dirent_id dir'"
      "i_nlink dir' = (if i_kind child = Dir then i_nlink dir + 1 else i_nlink dir)"
    and old: "\<And>i. fs_inode f c = Some i \<Longrightarrow> i_kind i = i_kind child \<and> i_kind child \<noteq> Dir"
    and new_dir: "i_kind child = Dir \<Longrightarrow> i_parent_dir child = p \<and> i_nlink child = 2"
    and plain: "i_kind child \<noteq> Dir \<Longrightarrow> unat (i_nlink child) = Suc (card (links (fs_dirent f) c))"
      "i_kind child = Symlink \<Longrightarrow> fs_symlink g c \<noteq> None"
  shows "ns_ok S g"
proof -
  note D = ns_okD [OF ns]
  have kept: "\<exists>i'. fs_inode g k = Some i' \<and> i_kind i' = i_kind i \<and> (i_kind i = Dir \<longrightarrow> i_parent_dir i' = i_parent_dir i \<and> i_next_dirent_id i \<le> i_next_dirent_id i')"
    if "fs_inode f k = Some i" for k i
  proof -
    consider "k = p" | "k = c" | "k \<noteq> p" "k \<noteq> c" by blast
    then show ?thesis
      by cases (use that p dir' c old [of i] in \<open>auto simp: maps(3)\<close>)
  qed
  have r: "rooted (fs_inode g) k" if "rooted (fs_inode f) k" for k
    using that by (rule rooted_mono) (use kept in metis)
  have pr: "rooted (fs_inode g) p" using D(5) [OF p] r by (simp add: dir_ok_def)
  have fin: "finite (entries (fs_dirent g))" using D(2) by (simp add: maps)
  have ent: "entry_ok S g q m e" if "fs_dirent g q m = Some e" for q m e
  proof (cases "(q, m) = (p, n)")
    case True
    then have "e = d" using that by (simp add: maps)
    with True show ?thesis
      using c d dir' new_dir by (auto simp: entry_ok_def maps)
  next
    case False
    then have e: "fs_dirent f q m = Some e" using that by (auto simp: maps split: if_splits)
    have x: "fs_index g q (d_dirent_id e) = fs_index f q (d_dirent_id e)"
      using next_id_fresh [OF ns p(1), of m e] e d by (auto simp: maps)
    from D(3) [OF e] obtain i j where i: "fs_inode f q = Some i" "i_kind i = Dir" "d_dirent_id e < i_next_dirent_id i"
      and j: "fs_inode f (d_child_ino e) = Some j"
      by (auto simp: entry_ok_def)
    from kept [OF i(1)] i(2,3) obtain i' where "fs_inode g q = Some i'" "i_kind i' = Dir" "d_dirent_id e < i_next_dirent_id i'"
      by (auto intro: less_le_trans)
    with kept [OF j] D(3) [OF e] j show ?thesis by (auto simp: entry_ok_def x)
  qed
  have idx: "\<exists>m e'. fs_dirent g q m = Some e' \<and> d_dirent_id e' = k" if "fs_index g q k = Some e" for q k e
  proof (cases "(q, k) = (p, d_dirent_id d)")
    case True then show ?thesis by (auto simp: maps)
  next
    case False
    then have "fs_index f q k = Some e" using that by (auto simp: maps split: if_splits)
    from D(4) [OF this] obtain m e' where m: "fs_dirent f q m = Some e'" "d_dirent_id e' = k" by blast
    then have "(q, m) \<noteq> (p, n)" using free by auto
    with m show ?thesis by (intro exI [of _ m] exI [of _ e']) (auto simp: maps)
  qed
  have notin: "(p, n) \<notin> links (fs_dirent f) k" "n \<notin> subdirs (fs_dirent f) p" for k
    using free by (simp_all add: links_def subdirs_def)
  have lk: "card (links (fs_dirent g) k) = (if k = c then Suc (card (links (fs_dirent f) c)) else card (links (fs_dirent f) k))" for k
    using notin links_finite [OF D(2)] d by (simp add: maps)
  have sd: "card (subdirs (fs_dirent g) k) = (if k = p \<and> i_kind child = Dir then Suc (card (subdirs (fs_dirent f) p)) else card (subdirs (fs_dirent f) k))" for k
    using notin subdirs_finite [OF D(2)] d by (simp add: maps)
  have ino: "if i_kind i = Dir then dir_ok g k i else file_ok g k i" if k: "fs_inode g k = Some i" for k i
  proof -
    consider "k = p" | "k = c" "i_kind child = Dir" | "k = c" "i_kind child \<noteq> Dir" | "k \<noteq> p" "k \<noteq> c" by blast
    then show ?thesis
    proof cases
      case 1
      then show ?thesis using k D(5) [OF p] pr c dir' by (auto simp: maps(3) dir_ok_def lk sd)
    next
      case 2
      have "fs_inode f c = None" using old 2 by (cases "fs_inode f c") auto
      from no_links [OF ns this] have "links (fs_dirent f) c = {}" "subdirs (fs_dirent f) c = {}" by (simp_all add: subdirs_def)
      moreover have "rooted (fs_inode g) c" using pr 2 new_dir c by (intro rooted_step [of _ c child]) (auto simp: maps)
      ultimately show ?thesis using k 2 new_dir c by (simp add: maps(3) dir_ok_def lk sd)
    next
      case 3
      then show ?thesis using k plain c by (auto simp: maps(3) file_ok_def lk)
    next
      case 4
      then have "fs_inode f k = Some i" using k by (simp add: maps)
      with D(5,6) [OF this] 4 show ?thesis using r maps(5) by (auto simp: dir_ok_def file_ok_def lk sd maps(4))
    qed
  qed
  have orp: "orphan_ok g k" if "fs_orphan g k \<noteq> None" for k
    using D(7) [of k] that free p by (auto simp: orphan_ok_def maps)
  have root: "\<exists>r. fs_inode g ROOT_INO = Some r \<and> i_kind r = Dir \<and> i_parent_dir r = ROOT_INO"
    using D(1) kept [of ROOT_INO] by metis
  show ?thesis
    unfolding ns_ok_def using root fin ent idx ino orp by blast
qed

section \<open>An entry removed\<close>

lemma not_self_parent:
  assumes "rooted I c" "I c = Some i" "i_parent_dir i = c"
  shows "c = ROOT_INO"
  using assms by (induction) auto

lemma root_no_entry:
  assumes ns: "ns_ok S f" and d: "fs_dirent f p n = Some d"
  shows "d_child_ino d \<noteq> ROOT_INO" "d_child_ino d \<noteq> p"
proof -
  have l: "(p, n) \<in> links (fs_dirent f) (d_child_ino d)" using d by (auto simp: links_def)
  then have "card (links (fs_dirent f) (d_child_ino d)) \<noteq> 0" using links_finite [OF ns_okD(2) [OF ns]] by auto
  then show r: "d_child_ino d \<noteq> ROOT_INO"
    using ns_okD(1) [OF ns] ns_okD(5) [OF ns, of ROOT_INO] by (auto simp: dir_ok_def)
  show "d_child_ino d \<noteq> p"
  proof
    assume c: "d_child_ino d = p"
    then obtain i where i: "fs_inode f p = Some i" "i_kind i = Dir" "i_parent_dir i = p"
      using ns_okD(3) [OF ns d] by (auto simp: entry_ok_def)
    with ns_okD(5) [OF ns i(1,2)] not_self_parent [of "fs_inode f" p i] r c show False by (simp add: dir_ok_def)
  qed
qed

text \<open>What climbs to the root does not pass through an empty directory or through a file.\<close>

definition childless :: "fs \<Rightarrow> u64 \<Rightarrow> bool" where
  "childless f c = (c \<noteq> ROOT_INO \<and> (\<forall>i. fs_inode f c = Some i \<longrightarrow> i_kind i = Dir \<longrightarrow> fs_dirent f c = Map.empty))"

lemma rooted_del:
  assumes ns: "ns_ok S f" and e: "childless f t"
    and r: "rooted I k" and k: "k \<noteq> t" and I: "\<And>j i. I j = Some i \<Longrightarrow> fs_inode f j = Some i"
  shows "rooted (I(t := None)) k"
  using r k
proof induction
  case rooted_root
  show ?case by (rule rooted.rooted_root)
next
  case (rooted_step c i)
  show ?case
  proof (cases "c = ROOT_INO")
    case True
    then show ?thesis by (simp add: rooted.rooted_root)
  next
    case False
    from parent_entry [OF ns I [OF rooted_step(1)] rooted_step(2) this] e
    have "i_parent_dir i \<noteq> t" by (auto simp: childless_def)
    then show ?thesis using rooted_step by (intro rooted.rooted_step [of _ c i]) auto
  qed
qed

lemma childless_links:
  assumes ns: "ns_ok S f" and e: "childless f c" and c: "fs_inode f c = Some i"
  shows "subdirs (fs_dirent f) c = {}" "fs_dirent f c = Map.empty"
proof -
  show "fs_dirent f c = Map.empty"
  proof (rule ext)
    show "fs_dirent f c n = None" for n
      using ns_okD(3) [OF ns, of c n] c e by (cases "fs_dirent f c n") (auto simp: entry_ok_def childless_def)
  qed
  then show "subdirs (fs_dirent f) c = {}" by (simp add: subdirs_def)
qed

lemma ns_del_entry:
  assumes ns: "ns_ok S f" and S: "\<And>p. inj (S p)" and d: "fs_dirent f p n = Some d" "d_child_ino d = c"
    and p: "fs_inode f p = Some dir" and i: "fs_inode f c = Some i" and e: "childless f c"
    and maps: "fs_dirent g = (fs_dirent f)(p := (fs_dirent f p)(n := None))"
      "fs_index g = (fs_index f)(p := (fs_index f p)(d_dirent_id d := None))"
      "fs_inode g = (fs_inode f)(c := child, p \<mapsto> dir')"
      "\<And>k. k \<noteq> c \<Longrightarrow> fs_orphan g k = fs_orphan f k" "\<And>k. k \<noteq> c \<Longrightarrow> fs_symlink g k = fs_symlink f k"
    and dir': "i_kind dir' = Dir" "i_parent_dir dir' = i_parent_dir dir" "i_next_dirent_id dir \<le> i_next_dirent_id dir'"
      "i_nlink dir' = (if i_kind i = Dir then i_nlink dir - 1 else i_nlink dir)"
    and gone: "child = None \<Longrightarrow> card (links (fs_dirent f) c) = 1"
    and kept: "\<And>i'. child = Some i' \<Longrightarrow> i_kind i \<noteq> Dir \<and> i_kind i' = i_kind i \<and> Suc (unat (i_nlink i')) = card (links (fs_dirent f) c) \<and>
      (i_nlink i' = 0 \<longleftrightarrow> fs_orphan g c \<noteq> None) \<and> fs_symlink g c = fs_symlink f c"
  shows "ns_ok S g"
proof -
  note D = ns_okD [OF ns]
  note c = root_no_entry [OF ns d(1), unfolded d(2)]
  have pd: "i_kind dir = Dir" using D(3) [OF d(1)] p by (auto simp: entry_ok_def)
  have kd: "d_kind d = i_kind i" using D(3) [OF d(1)] i d by (auto simp: entry_ok_def)
  have lin: "(p, n) \<in> links (fs_dirent f) c" using d by (auto simp: links_def)
  have lone: "child = None \<Longrightarrow> links (fs_dirent f) c = {(p, n)}"
    using gone lin by (metis card_1_singletonE singletonD)
  have same: "fs_inode g k = fs_inode f k" if "k \<noteq> p" "k \<noteq> c" for k using that by (simp add: maps(3))
  have r: "rooted (fs_inode g) k" if "rooted (fs_inode f) k" "k \<noteq> c" for k
  proof -
    have "rooted ((fs_inode f)(c := None)) k" by (rule rooted_del [OF ns e that]) simp
    then show ?thesis
    proof (rule rooted_mono)
      show "\<exists>i'. fs_inode g k = Some i' \<and> i_kind i' = Dir \<and> i_parent_dir i' = i_parent_dir j"
        if "((fs_inode f)(c := None)) k = Some j" "i_kind j = Dir" for k j
        using that p dir' by (cases "k = p") (auto simp: maps(3) split: if_splits)
    qed
  qed
  have kp: "\<exists>j'. fs_inode g k = Some j' \<and> i_kind j' = i_kind j \<and> (i_kind j = Dir \<longrightarrow> i_parent_dir j' = i_parent_dir j \<and> i_next_dirent_id j \<le> i_next_dirent_id j')"
    if k: "fs_inode f k = Some j" and ch: "k = c \<Longrightarrow> child \<noteq> None" for k j
  proof -
    consider "k = p" | "k = c" | "k \<noteq> p" "k \<noteq> c" by blast
    then show ?thesis
    proof cases
      case 2
      then obtain i' where i': "child = Some i'" using ch by blast
      from kept [OF i'] 2 k i i' c show ?thesis by (simp add: maps(3))
    qed (use k p dir' pd in \<open>simp_all add: maps(3)\<close>)
  qed
  have olds: "fs_dirent f q m = Some x" "(q, m) \<noteq> (p, n)" if "fs_dirent g q m = Some x" for q m x
    using that by (auto simp: maps(1) split: if_splits)
  have ent: "entry_ok S g q m x" if x: "fs_dirent g q m = Some x" for q m x
  proof -
    note x' = olds [OF x]
    have idx: "fs_index g q (d_dirent_id x) = fs_index f q (d_dirent_id x)"
      using dirent_id_inject [OF ns S d(1), of m x] x' by (auto simp: maps(2))
    have qc: "q \<noteq> c" using childless_links(2) [OF ns e i] x'(1) by auto
    have "child \<noteq> None" if "d_child_ino x = c"
      using lone x' that by (auto simp: links_def)
    with kp D(3) [OF x'(1)] obtain j' where j': "fs_inode g (d_child_ino x) = Some j'" "i_kind j' = d_kind x" "i_kind j' = Dir \<Longrightarrow> i_parent_dir j' = q"
      unfolding entry_ok_def by metis
    from kp D(3) [OF x'(1)] qc obtain q' where "fs_inode g q = Some q'" "i_kind q' = Dir" "d_dirent_id x < i_next_dirent_id q'"
      unfolding entry_ok_def by (metis less_le_trans)
    with j' D(3) [OF x'(1)] show ?thesis by (simp add: entry_ok_def idx)
  qed
  have idx: "\<exists>m x. fs_dirent g q m = Some x \<and> d_dirent_id x = k" if "fs_index g q k = Some y" for q k y
  proof -
    have k: "fs_index f q k = Some y" "(q, k) \<noteq> (p, d_dirent_id d)" using that by (auto simp: maps(2) split: if_splits)
    from D(4) [OF k(1)] obtain m x where m: "fs_dirent f q m = Some x" "d_dirent_id x = k" by blast
    then have "(q, m) \<noteq> (p, n)" using k d by auto
    with m show ?thesis by (intro exI [of _ m] exI [of _ x]) (auto simp: maps(1))
  qed
  have lk: "card (links (fs_dirent g) k) = (if k = c then card (links (fs_dirent f) c) - 1 else card (links (fs_dirent f) k))" for k
  proof -
    have "k \<noteq> c \<Longrightarrow> (p, n) \<notin> links (fs_dirent f) k" using d by (auto simp: links_def)
    then show ?thesis using lin links_finite [OF D(2)] by (simp add: maps(1))
  qed
  have sdp: "n \<in> subdirs (fs_dirent f) p \<longleftrightarrow> i_kind i = Dir" using d kd by (simp add: subdirs_def)
  have sd: "card (subdirs (fs_dirent g) k) = (if k = p \<and> i_kind i = Dir then card (subdirs (fs_dirent f) p) - 1 else card (subdirs (fs_dirent f) k))" for k
    using sdp subdirs_finite [OF D(2)] by (simp add: maps(1))
  have ino: "if i_kind j = Dir then dir_ok g k j else file_ok g k j" if k: "fs_inode g k = Some j" for k j
  proof -
    consider "k = p" | "k = c" "child = Some j" | "k \<noteq> p" "k \<noteq> c" using k by (auto simp: maps(3) split: if_splits)
    then show ?thesis
    proof cases
      case 1
      have pos: "0 < card (subdirs (fs_dirent f) p)" if "i_kind i = Dir"
        using sdp that subdirs_finite [OF D(2), of p] by (auto simp: card_gt_0_iff)
      from 1 show ?thesis
        using k D(5) [OF p pd] r [of p] c dir' pos by (cases "i_kind i = Dir") (auto simp: maps(3) dir_ok_def lk sd of_nat_diff)
    next
      case 2
      with kept [of j] D(6) [OF i] show ?thesis by (auto simp: file_ok_def lk)
    next
      case 3
      then have "fs_inode f k = Some j" using k same by simp
      with D(5,6) [OF this] 3 show ?thesis using r by (auto simp: dir_ok_def file_ok_def lk sd maps(4,5))
    qed
  qed
  have orp: "orphan_ok g k" if k: "fs_orphan g k \<noteq> None" for k
  proof (cases "k = c")
    case True
    have "i_kind j \<noteq> Dir \<and> i_nlink j = 0" if "child = Some j" for j
      using kept [OF that] k True by simp
    then show ?thesis using c True by (simp add: orphan_ok_def maps(3))
  next
    case False
    with k D(7) [of k] have "orphan_ok f k" by (simp add: maps(4))
    then show ?thesis using False p pd by (auto simp: orphan_ok_def maps(3))
  qed
  have root: "\<exists>r. fs_inode g ROOT_INO = Some r \<and> i_kind r = Dir \<and> i_parent_dir r = ROOT_INO"
    using D(1) same [of ROOT_INO] c p dir' by (cases "p = ROOT_INO") (auto simp: maps(3))
  have fin: "finite (entries (fs_dirent g))" using D(2) by (simp add: maps(1))
  show ?thesis
    unfolding ns_ok_def using root fin ent idx ino orp by blast
qed

section \<open>An entry moved\<close>

lemma card_swap: "finite A \<Longrightarrow> a \<in> A \<Longrightarrow> b \<notin> A \<Longrightarrow> card (insert b (A - {a})) = card A"
  by (metis card_Suc_Diff1 card_insert_disjoint finite_Diff DiffE)

lemma moved_rooted:
  assumes r: "rooted I k" and c: "I' c = Some m" "i_kind m = Dir" "rooted I' (i_parent_dir m)"
    and old: "\<And>j i. j \<noteq> c \<Longrightarrow> I j = Some i \<Longrightarrow> i_kind i = Dir \<Longrightarrow> \<exists>i'. I' j = Some i' \<and> i_kind i' = Dir \<and> i_parent_dir i' = i_parent_dir i"
  shows "rooted I' k"
  using r
proof (induction rule: rooted.induct)
  case rooted_root
  show ?case by (rule rooted.rooted_root)
next
  case (rooted_step j i)
  show ?case
  proof (cases "j = c")
    case True
    then show ?thesis using rooted.rooted_step [OF c] by simp
  next
    case False
    from old [OF this rooted_step(1,2)] obtain i' where "I' j = Some i'" "i_kind i' = Dir" "i_parent_dir i' = i_parent_dir i" by blast
    then show ?thesis using rooted.rooted_step [of I' j i'] rooted_step(4) by simp
  qed
qed

lemma ns_move_entry:
  assumes ns: "ns_ok S f" and S: "\<And>p. inj (S p)" and src: "fs_dirent f op on = Some src" "d_child_ino src = c" and free: "fs_dirent f np nn = None"
    and dirs: "fs_inode f op = Some old_dir" "fs_inode f np = Some new_dir" "i_kind new_dir = Dir" and i: "fs_inode f c = Some i"
    and climb: "i_kind i = Dir \<Longrightarrow> op \<noteq> np \<Longrightarrow> rooted ((fs_inode f)(c := None)) np"
    and maps: "fs_dirent g = (let D = (fs_dirent f)(op := (fs_dirent f op)(on := None)) in D(np := (D np)(nn \<mapsto> d)))"
      "fs_index g = (let X = (fs_index f)(op := (fs_index f op)(d_dirent_id src := None))
         in X(np := (X np)(d_dirent_id d \<mapsto> \<lparr>e_enc_name = S np nn, e_child_ino = c, e_kind = i_kind i\<rparr>)))"
      "fs_inode g = (fs_inode f)(c \<mapsto> i', op \<mapsto> old', np \<mapsto> new')" "fs_orphan g = fs_orphan f" "fs_symlink g = fs_symlink f"
    and d: "d_name d = nn" "d_child_ino d = c" "d_kind d = i_kind i" "d_dirent_id d = i_next_dirent_id new_dir"
    and i': "i_kind i' = i_kind i" "i_nlink i' = i_nlink i" "i_next_dirent_id i' = i_next_dirent_id i" "i_kind i = Dir \<Longrightarrow> i_parent_dir i' = np"
    and old': "i_kind old' = Dir" "i_parent_dir old' = i_parent_dir old_dir" "i_next_dirent_id old_dir \<le> i_next_dirent_id old'"
      "op \<noteq> np \<Longrightarrow> i_nlink old' = (if i_kind i = Dir then i_nlink old_dir - 1 else i_nlink old_dir)"
    and new': "i_kind new' = Dir" "i_parent_dir new' = i_parent_dir new_dir" "i_next_dirent_id new_dir < i_next_dirent_id new'"
      "i_nlink new' = (if i_kind i = Dir \<and> op \<noteq> np then i_nlink new_dir + 1 else i_nlink new_dir)"
  shows "ns_ok S g"
proof -
  note D = ns_okD [OF ns]
  note c0 = root_no_entry [OF ns src(1), unfolded src(2)]
  have od: "i_kind old_dir = Dir" using D(3) [OF src(1)] dirs by (auto simp: entry_ok_def)
  have ks: "d_kind src = i_kind i" "i_kind i = Dir \<Longrightarrow> i_parent_dir i = op" using D(3) [OF src(1)] i src by (auto simp: entry_ok_def)
  have cn: "c \<noteq> np"
  proof
    assume cn: "c = np"
    then have "rooted ((fs_inode f)(c := None)) c" using climb c0 i dirs by auto
    then show False by (cases) (use c0 in auto)
  qed
  have ne: "(op, on) \<noteq> (np, nn)" using src free by auto
  have lin: "(op, on) \<in> links (fs_dirent f) c" using src by (auto simp: links_def)
  have kp: "\<exists>j'. fs_inode g k = Some j' \<and> i_kind j' = i_kind j \<and> i_next_dirent_id j \<le> i_next_dirent_id j' \<and>
      (k \<noteq> c \<longrightarrow> i_parent_dir j' = i_parent_dir j)" if k: "fs_inode f k = Some j" for k j
  proof -
    consider "k = np" | "k = op" "op \<noteq> np" | "k = c" | "k \<noteq> np" "k \<noteq> op" "k \<noteq> c" by blast
    then show ?thesis
      by cases (use k i i' old' new' dirs od c0 cn in \<open>auto simp: maps(3) less_imp_le\<close>)
  qed
  have kq: "\<exists>j'. fs_inode g k = Some j' \<and> i_kind j' = Dir \<and> i_parent_dir j' = i_parent_dir j"
    if "k \<noteq> c" "fs_inode f k = Some j" "i_kind j = Dir" for k j
    using kp [OF that(2)] that by auto
  have gc: "fs_inode g c = Some i'" using c0 cn by (simp add: maps(3))
  have r: "rooted (fs_inode g) k" if k: "rooted (fs_inode f) k" for k
  proof (cases "i_kind i = Dir \<and> op \<noteq> np")
    case True
    have "rooted (fs_inode g) np"
      by (rule rooted_mono [OF climb]) (use True kq in \<open>simp_all split: if_splits\<close>)
    with True i' show ?thesis
      by (intro moved_rooted [of "fs_inode f" k "fs_inode g" c i', OF k gc] kq) simp_all
  next
    case False
    have "i_kind i = Dir \<Longrightarrow> i_parent_dir i' = i_parent_dir i" using False i' ks by auto
    then have "\<exists>j'. fs_inode g k = Some j' \<and> i_kind j' = Dir \<and> i_parent_dir j' = i_parent_dir j"
      if "fs_inode f k = Some j" "i_kind j = Dir" for k j
      using that kq [of k j] gc i i' by (cases "k = c") auto
    then show ?thesis using k by (elim rooted_mono)
  qed
  have olds: "fs_dirent f q m = Some x" "(q, m) \<noteq> (op, on)" if "fs_dirent g q m = Some x" "(q, m) \<noteq> (np, nn)" for q m x
    using that ne by (auto simp: maps(1) Let_def split: if_splits)
  have news: "fs_dirent g np nn = Some d" by (simp add: maps(1) Let_def)
  have ent: "entry_ok S g q m x" if x: "fs_dirent g q m = Some x" for q m x
  proof (cases "(q, m) = (np, nn)")
    case True
    then show ?thesis using x news d new' gc i' by (auto simp: entry_ok_def maps(2,3) Let_def)
  next
    case False
    note x' = olds [OF x False]
    have idx: "fs_index g q (d_dirent_id x) = fs_index f q (d_dirent_id x)"
      using dirent_id_inject [OF ns S src(1), of m x] next_id_fresh [OF ns dirs(2), of m x] x' d by (auto simp: maps(2) Let_def)
    from D(3) [OF x'(1)] obtain j where j: "fs_inode f (d_child_ino x) = Some j" "i_kind j = d_kind x" "i_kind j = Dir \<Longrightarrow> i_parent_dir j = q"
      by (auto simp: entry_ok_def)
    have "i_kind j \<noteq> Dir" if "d_child_ino x = c"
    proof
      assume "i_kind j = Dir"
      then have "card (links (fs_dirent f) c) = 1" using D(5) [OF j(1)] that c0 by (simp add: dir_ok_def)
      moreover have "(q, m) \<in> links (fs_dirent f) c" using x'(1) that by (simp add: links_def)
      ultimately have "(q, m) = (op, on)" using lin by (metis card_1_singletonE singletonD)
      then show False using x' by simp
    qed
    then obtain j' where "fs_inode g (d_child_ino x) = Some j'" "i_kind j' = d_kind x" "i_kind j' = Dir \<Longrightarrow> i_parent_dir j' = q"
      using kp [OF j(1)] j by metis
    moreover from kp D(3) [OF x'(1)] obtain q' where "fs_inode g q = Some q'" "i_kind q' = Dir" "d_dirent_id x < i_next_dirent_id q'"
      unfolding entry_ok_def by (metis less_le_trans)
    ultimately show ?thesis using D(3) [OF x'(1)] by (simp add: entry_ok_def idx)
  qed
  have idx: "\<exists>m x. fs_dirent g q m = Some x \<and> d_dirent_id x = k" if y: "fs_index g q k = Some y" for q k y
  proof (cases "(q, k) = (np, d_dirent_id d)")
    case True
    then show ?thesis using news by auto
  next
    case False
    then have k: "fs_index f q k = Some y" "(q, k) \<noteq> (op, d_dirent_id src)" using y by (auto simp: maps(2) Let_def split: if_splits)
    from D(4) [OF k(1)] obtain m x where m: "fs_dirent f q m = Some x" "d_dirent_id x = k" by blast
    then have "(q, m) \<noteq> (op, on)" "(q, m) \<noteq> (np, nn)" using k src free by auto
    with m show ?thesis by (intro exI [of _ m] exI [of _ x]) (auto simp: maps(1) Let_def)
  qed
  define D1 where "D1 = (fs_dirent f)(op := (fs_dirent f op)(on := None))"
  have g: "fs_dirent g = D1(np := (D1 np)(nn \<mapsto> d))" by (simp only: maps(1) Let_def D1_def)
  have D1: "links D1 k = links (fs_dirent f) k - {(op, on)}" "entries D1 = entries (fs_dirent f) - {(op, on)}"
    "subdirs D1 k = (if k \<noteq> op then subdirs (fs_dirent f) k else subdirs (fs_dirent f) op - {on})" for k
    by (simp_all only: D1_def links_upd entries_upd subdirs_upd)
  have lk: "card (links (fs_dirent g) k) = card (links (fs_dirent f) k)" for k
  proof -
    have n: "(np, nn) \<notin> links (fs_dirent f) k" "k \<noteq> c \<Longrightarrow> (op, on) \<notin> links (fs_dirent f) k"
      using free src by (auto simp: links_def)
    have "links (fs_dirent g) k = (if k = c then insert (np, nn) (links (fs_dirent f) c - {(op, on)}) else links (fs_dirent f) k)"
      using n d by (simp add: g D1)
    then show ?thesis using n(1) card_swap [OF links_finite [OF D(2)] lin] by (cases "k = c") simp_all
  qed
  have sdo: "on \<in> subdirs (fs_dirent f) op \<longleftrightarrow> i_kind i = Dir" "nn \<notin> subdirs (fs_dirent f) np"
    using src free ks by (auto simp: subdirs_def)
  have sd: "card (subdirs (fs_dirent g) k) =
      (if i_kind i = Dir \<and> op \<noteq> np then if k = np then Suc (card (subdirs (fs_dirent f) np))
         else if k = op then card (subdirs (fs_dirent f) op) - 1 else card (subdirs (fs_dirent f) k)
       else card (subdirs (fs_dirent f) k))" for k
  proof -
    note F = subdirs_finite [OF D(2)]
    have sg: "subdirs (fs_dirent g) k =
        (if k \<noteq> np then subdirs D1 k else if i_kind i = Dir then insert nn (subdirs D1 np) else subdirs D1 np - {nn})"
      by (simp only: g subdirs_upd d(3) if_not_P if_P)
    show ?thesis
    proof (cases "i_kind i = Dir \<and> op = np")
      case True
      then show ?thesis using sg D1(3) [of k] sdo card_swap [OF F, of on np nn] by (cases "k = np") auto
    next
      case False
      then show ?thesis using sg D1(3) [of k] sdo F by (cases "k = np"; cases "k = op"; cases "i_kind i = Dir") auto
    qed
  qed
  have pos: "0 < card (subdirs (fs_dirent f) op)" if "i_kind i = Dir"
    using sdo that subdirs_finite [OF D(2), of op] by (auto simp: card_gt_0_iff)
  have ino: "if i_kind j = Dir then dir_ok g k j else file_ok g k j" if k: "fs_inode g k = Some j" for k j
  proof -
    consider "k = np" "j = new'" | "k = op" "op \<noteq> np" "j = old'" | "k = c" "j = i'" | "k \<noteq> np" "k \<noteq> op" "k \<noteq> c" "fs_inode f k = Some j"
      using k by (auto simp: maps(3) split: if_splits)
    then show ?thesis
    proof cases
      case 1
      then show ?thesis using D(5) [OF dirs(2,3)] r [of np] new' by (auto simp: dir_ok_def lk sd)
    next
      case 2
      then show ?thesis using D(5) [OF dirs(1) od] r [of op] old' pos by (auto simp: dir_ok_def lk sd of_nat_diff)
    next
      case 3
      then show ?thesis using D(5,6) [OF i] r [of c] i' c0 cn by (auto simp: dir_ok_def file_ok_def lk sd maps(4,5))
    next
      case 4
      then show ?thesis using D(5,6) [OF 4(4)] r [of k] by (auto simp: dir_ok_def file_ok_def lk sd maps(4,5))
    qed
  qed
  have orp: "orphan_ok g k" if k: "fs_orphan g k \<noteq> None" for k
    using D(7) [of k] k dirs od i i' by (auto simp: orphan_ok_def maps(3,4))
  have root: "\<exists>r. fs_inode g ROOT_INO = Some r \<and> i_kind r = Dir \<and> i_parent_dir r = ROOT_INO"
    using D(1) kq [of ROOT_INO] c0 by auto
  have fin: "finite (entries (fs_dirent g))" using D(2) by (simp add: g D1)
  show ?thesis
    unfolding ns_ok_def using root fin ent idx ino orp by blast
qed

end
