(* ===== verification/Reference.thy ===== *)
theory Reference
  imports Vfs_Rmdir
begin

text \<open>
  A reference environment: the parameters of the model instantiated by executable
  functions. The serializers write the fields of a record one after the other, the name
  cipher is the identity, and the engine is the in-memory one. It shows that the laws the
  theorems assume of the parameters can be met, and is what concrete runs use.
\<close>

section \<open>Coders\<close>

type_synonym 'a coder = "('a \<Rightarrow> bytes) \<times> (bytes \<Rightarrow> ('a \<times> bytes) option)"

definition coder_ok :: "'a coder \<Rightarrow> bool" where
  "coder_ok c = (\<forall>x rest. snd c (fst c x @ rest) = Some (x, rest))"

definition c64 :: "u64 coder" where
  "c64 = (be64, \<lambda>bs. if length bs < 8 then None else Some (from_be64 (take 8 bs), drop 8 bs))"

definition c32 :: "u32 coder" where
  "c32 = (be32, \<lambda>bs. if length bs < 4 then None else Some (from_be32 (take 4 bs), drop 4 bs))"

definition c_bool :: "bool coder" where
  "c_bool = (\<lambda>b. [if b then 1 else 0], \<lambda>bs. case bs of [] \<Rightarrow> None | b # r \<Rightarrow> Some (b = 1, r))"

text \<open>A byte string: every byte is announced by a one, the end by a zero.\<close>

fun bytes_enc :: "bytes \<Rightarrow> bytes" where
  "bytes_enc [] = [0]"
| "bytes_enc (b # bs) = 1 # b # bytes_enc bs"

fun bytes_dec :: "bytes \<Rightarrow> (bytes \<times> bytes) option" where
  "bytes_dec (m # bs) =
     (if m = 0 then Some ([], bs)
      else case bs of [] \<Rightarrow> None | b # r \<Rightarrow> map_option (\<lambda>(x, r'). (b # x, r')) (bytes_dec r))"
| "bytes_dec [] = None"

definition c_bytes :: "bytes coder" where "c_bytes = (bytes_enc, bytes_dec)"

definition c_pair :: "'a coder \<Rightarrow> 'b coder \<Rightarrow> ('a \<times> 'b) coder" where
  "c_pair a b =
     (\<lambda>(x, y). fst a x @ fst b y,
      \<lambda>bs. case snd a bs of None \<Rightarrow> None | Some (x, r) \<Rightarrow> map_option (\<lambda>(y, r'). ((x, y), r')) (snd b r))"

definition c_conv :: "('a \<Rightarrow> 'b) \<Rightarrow> ('b \<Rightarrow> 'a) \<Rightarrow> 'b coder \<Rightarrow> 'a coder" where
  "c_conv f g c = (\<lambda>x. fst c (f x), \<lambda>bs. map_option (\<lambda>(y, r). (g y, r)) (snd c bs))"

lemma coder_okI:
  "coder_ok c64" "coder_ok c32" "coder_ok c_bool" "coder_ok c_bytes"
  "coder_ok a \<Longrightarrow> coder_ok b \<Longrightarrow> coder_ok (c_pair a b)"
  "coder_ok c \<Longrightarrow> (\<And>x. g (f x) = x) \<Longrightarrow> coder_ok (c_conv f g c)"
proof -
  show "coder_ok c64" "coder_ok c32" by (simp_all add: coder_ok_def c64_def c32_def)
  show "coder_ok c_bool" by (simp add: coder_ok_def c_bool_def)
  have "bytes_dec (bytes_enc x @ r) = Some (x, r)" for x r by (induction x) simp_all
  then show "coder_ok c_bytes" by (simp add: coder_ok_def c_bytes_def)
qed (auto simp: coder_ok_def c_pair_def c_conv_def)

section \<open>Serializers of the records\<close>

fun kind_byte :: "file_kind \<Rightarrow> u32" where
  "kind_byte File = 0" | "kind_byte Dir = 1" | "kind_byte Symlink = 2" | "kind_byte Fifo = 3"
| "kind_byte Socket = 4" | "kind_byte CharDev = 5" | "kind_byte BlockDev = 6"

definition byte_kind :: "u32 \<Rightarrow> file_kind" where
  "byte_kind n =
     (if n = 0 then File else if n = 1 then Dir else if n = 2 then Symlink else if n = 3 then Fifo
      else if n = 4 then Socket else if n = 5 then CharDev else BlockDev)"

definition c_kind :: "file_kind coder" where "c_kind = c_conv kind_byte byte_kind c32"

definition c_time :: "timespec coder" where
  "c_time = c_conv (\<lambda>t. (ts_secs t, ts_nanos t)) (\<lambda>(s, n). Timespec s n) (c_pair c64 c32)"

definition c_inode :: "inode coder" where
  "c_inode = c_conv
     (\<lambda>i. ((i_kind i, i_mode i, i_uid i, i_gid i, i_nlink i, i_size i),
           (i_atime i, i_mtime i, i_ctime i),
           (i_rdev i, i_generation i, i_flags i, i_next_dirent_id i, i_billed_bytes i, i_parent_dir i)))
     (\<lambda>((k, m, u, g, l, s), (a, t, c), (r, gen, fl, n, b, p)).
        \<lparr>i_kind = k, i_mode = m, i_uid = u, i_gid = g, i_nlink = l, i_size = s, i_atime = a, i_mtime = t, i_ctime = c,
         i_rdev = r, i_generation = gen, i_flags = fl, i_next_dirent_id = n, i_billed_bytes = b, i_parent_dir = p\<rparr>)
     (c_pair (c_pair c_kind (c_pair c32 (c_pair c32 (c_pair c32 (c_pair c32 c64)))))
       (c_pair (c_pair c_time (c_pair c_time c_time))
         (c_pair c64 (c_pair c32 (c_pair c32 (c_pair c64 (c_pair c64 c64)))))))"

definition c_dirent :: "dirent coder" where
  "c_dirent = c_conv (\<lambda>d. (d_name d, d_child_ino d, d_kind d, d_dirent_id d))
     (\<lambda>(n, c, k, i). \<lparr>d_name = n, d_child_ino = c, d_kind = k, d_dirent_id = i\<rparr>)
     (c_pair c_bytes (c_pair c64 (c_pair c_kind c64)))"

definition c_idx :: "dirent_idx coder" where
  "c_idx = c_conv (\<lambda>e. (e_enc_name e, e_child_ino e, e_kind e))
     (\<lambda>(n, c, k). \<lparr>e_enc_name = n, e_child_ino = c, e_kind = k\<rparr>) (c_pair c_bytes (c_pair c64 c_kind))"

definition c_orphan :: "orphan coder" where
  "c_orphan = c_conv (\<lambda>x. (o_size x, o_kind x)) (\<lambda>(s, k). \<lparr>o_size = s, o_kind = k\<rparr>) (c_pair c64 c_kind)"

definition c_cipher :: "cipher coder" where
  "c_cipher = c_conv (\<lambda>c. c = Aes256Gcm) (\<lambda>b. if b then Aes256Gcm else XChaCha20Poly1305) c_bool"

definition c_vkind :: "volume_kind coder" where
  "c_vkind = c_conv (\<lambda>k. case k of Filesystem \<Rightarrow> (True, 0) | Block n \<Rightarrow> (False, n))
     (\<lambda>(b, n). if b then Filesystem else Block n) (c_pair c_bool c64)"

definition c_superblock :: "superblock coder" where
  "c_superblock = c_conv
     (\<lambda>s. (sb_fsid s, sb_cipher s, sb_chunk_size s, sb_name_enc s, sb_created_at s, sb_kind s))
     (\<lambda>(f, c, z, n, t, k). \<lparr>sb_fsid = f, sb_cipher = c, sb_chunk_size = z, sb_name_enc = n, sb_created_at = t, sb_kind = k\<rparr>)
     (c_pair c64 (c_pair c_cipher (c_pair c32 (c_pair c_bool (c_pair c64 c_vkind)))))"

definition c_superblock_v1 :: "superblock_v1 coder" where
  "c_superblock_v1 = c_conv
     (\<lambda>s. (sb1_fsid s, sb1_cipher s, sb1_chunk_size s, sb1_name_enc s, sb1_created_at s))
     (\<lambda>(f, c, z, n, t). \<lparr>sb1_fsid = f, sb1_cipher = c, sb1_chunk_size = z, sb1_name_enc = n, sb1_created_at = t\<rparr>)
     (c_pair c64 (c_pair c_cipher (c_pair c32 (c_pair c_bool c64))))"

definition pc_of :: "'a coder \<Rightarrow> 'a postcard" where
  "pc_of c = \<lparr>to_allocvec = (\<lambda>x. Some (fst c x)), from_bytes = (\<lambda>bs. map_option fst (snd c bs))\<rparr>"

lemma pc_of_ok: "coder_ok c \<Longrightarrow> postcard_ok (pc_of c)"
proof -
  assume "coder_ok c"
  then have "snd c (fst c x @ []) = Some (x, [])" for x unfolding coder_ok_def by blast
  then show ?thesis by (simp add: postcard_ok_def pc_of_def)
qed

lemma kind_byte [simp]: "byte_kind (kind_byte k) = k"
  by (cases k) (simp_all add: byte_kind_def)

definition ref_codecs :: codecs where
  "ref_codecs = \<lparr>pc_inode = pc_of c_inode, pc_dirent = pc_of c_dirent, pc_dirent_idx = pc_of c_idx, pc_orphan = pc_of c_orphan,
     pc_superblock = pc_of c_superblock, pc_superblock_v1 = pc_of c_superblock_v1\<rparr>"

lemma not_Aes256Gcm: "c \<noteq> Aes256Gcm \<longleftrightarrow> c = XChaCha20Poly1305"
  by (cases c) simp_all

lemma ref_codecs_ok: "codecs_ok ref_codecs"
  unfolding codecs_ok_def ref_codecs_def codecs.simps c_inode_def c_dirent_def c_idx_def c_orphan_def c_superblock_def
    c_superblock_v1_def c_kind_def c_time_def c_cipher_def c_vkind_def
  by (intro conjI pc_of_ok coder_okI) (auto simp: not_Aes256Gcm split: volume_kind.splits)

section \<open>The environment\<close>

definition ref_siv :: siv where
  "ref_siv = \<lparr>hkdf = (\<lambda>ikm info. ikm), siv_encrypt = (\<lambda>key name. Some name), siv_decrypt = (\<lambda>key enc. Some enc)\<rparr>"

definition ref_env :: "(nat \<Rightarrow> slatedb_error option) \<Rightarrow> (bytes \<times> bytes) list env" where
  "ref_env fails = \<lparr>en_engine = mem_engine fails, en_codecs = ref_codecs, en_siv = ref_siv,
     en_now = (\<lambda>n. Timespec (of_nat n) 0), en_unix = of_nat,
     en_evict_attr = (\<lambda>_ _. False), en_evict_neg = (\<lambda>_ _ _. False)\<rparr>"

lemma ref_env_ok: "env_ok (ref_env fails)"
  by (simp add: env_ok_def ref_env_def mem_engine_ok ref_codecs_ok siv_ok_def ref_siv_def)

lemma ref_decode:
  "inode_decode ref_codecs (INODE_VERSION # fst c_inode i) = Inr i"
  "dirent_decode ref_codecs (DIRENT_VERSION # fst c_dirent d) = Inr d"
  "dirent_idx_decode ref_codecs (DIRENT_IDX_VERSION # fst c_idx e) = Inr e"
  using decode_encode [OF ref_codecs_ok]
  by (simp_all add: codec_defs encode_versioned_def ref_codecs_def pc_of_def)

section \<open>A mounted volume\<close>

text \<open>The root directory holds one empty file, \<open>a\<close>.\<close>

definition ref_root :: inode where
  "ref_root = (inode_new Dir 0x1ED 0 0 (Timespec 0 0))\<lparr>i_parent_dir := ROOT_INO, i_next_dirent_id := FIRST_DIRENT_ID + 1\<rparr>"

definition ref_file :: inode where
  "ref_file = inode_new File 0x1A4 0 0 (Timespec 0 0)"

definition ref_entry :: dirent where
  "ref_entry = \<lparr>d_name = [97], d_child_ino = 2, d_kind = File, d_dirent_id = FIRST_DIRENT_ID\<rparr>"

definition ref_idx :: dirent_idx where
  "ref_idx = \<lparr>e_enc_name = [97], e_child_ino = 2, e_kind = File\<rparr>"

definition ref_db :: "(bytes \<times> bytes) list" where
  "ref_db =
     [(key_bytes (KInode ROOT_INO), INODE_VERSION # fst c_inode ref_root),
      (key_bytes (KInode 2), INODE_VERSION # fst c_inode ref_file),
      (key_bytes (KDirent ROOT_INO [97]), DIRENT_VERSION # fst c_dirent ref_entry),
      (key_bytes (KDirentIdx ROOT_INO FIRST_DIRENT_ID), DIRENT_IDX_VERSION # fst c_idx ref_idx),
      (key_bytes KQuotaInodes, le64 2), (key_bytes KNextIno, be64 (3 + LEASE_SIZE))]"

definition ref_vol :: "(bytes \<times> bytes) list volume" where
  "ref_vol =
     \<lparr>v_store = \<lparr>st_db = ref_db, st_ticks = 0\<rparr>,
      v_superblock = \<lparr>sb_fsid = 7, sb_cipher = Aes256Gcm, sb_chunk_size = 0x1000, sb_name_enc = True, sb_created_at = 0, sb_kind = Filesystem\<rparr>,
      v_health = health_new (Some 7), v_dek = [], v_range_locks = Map.empty,
      v_quota = quota_new 0 2 \<lparr>ql_bytes = \<lparr>ql_soft = None, ql_hard = None, ql_grace_until = None\<rparr>,
                               ql_inodes = \<lparr>ql_soft = None, ql_hard = None, ql_grace_until = None\<rparr>\<rparr>,
      v_alloc = \<lparr>al_next = 3, al_lease_end = 3 + LEASE_SIZE\<rparr>, v_handles = handles_empty, v_chunk_size = 0x1000,
      v_attrs = attr_cache_default, v_readahead = []\<rparr>"

definition ref_fs :: fs where
  "ref_fs =
     \<lparr>fs_inode = [ROOT_INO \<mapsto> ref_root, 2 \<mapsto> ref_file],
      fs_dirent = (\<lambda>p. if p = ROOT_INO then [[97] \<mapsto> ref_entry] else Map.empty),
      fs_index = (\<lambda>p. if p = ROOT_INO then [FIRST_DIRENT_ID \<mapsto> ref_idx] else Map.empty),
      fs_chunk = (\<lambda>_. Map.empty), fs_symlink = Map.empty, fs_xattr = (\<lambda>_. Map.empty), fs_orphan = Map.empty,
      fs_bytes = 0, fs_inodes = 2\<rparr>"

lemma ref_contents: "vcontents (ref_env fails) ref_vol = map_of ref_db"
  by (simp add: ref_env_def ref_vol_def mem_engine_def)

lemma ref_seal: "seal_name (en_siv (ref_env fails)) dek p n = Inr n"
  by (simp add: seal_name_def ref_env_def ref_siv_def)

lemma ref_vol_fs: "vfs (ref_env fails) ref_vol = ref_fs"
proof -
  have c: "en_codecs (ref_env fails) = ref_codecs" by (simp add: ref_env_def)
  have q: "decode_counter None = 0" "decode_counter (Some (le64 2)) = 2" by (simp_all add: decode_counter_def)
  show ?thesis
    unfolding ref_contents
    by (rule fs.equality)
       (simp_all add: fs_of_def ref_fs_def ref_db_def ref_seal c decoded_def ref_decode q fun_eq_iff ROOT_INO_def split: sum.splits)
qed

lemma ref_vol_inv: "vol_inv (ref_env fails) ref_vol"
proof -
  have "counters_ok (map_of ref_db)" by (auto simp: counters_ok_def ref_db_def)
  moreover have "schema_keys (map_of ref_db)" by (auto simp: schema_keys_def ref_db_def split: if_splits)
  moreover have "cache_ok (v_attrs ref_vol) ref_fs" by (simp add: cache_ok_def ref_vol_def attr_cache_default_def)
  moreover have "unused ino ref_fs" if "3 \<le> ino" for ino
    using that by (auto simp: unused_def ref_fs_def ROOT_INO_def word_le_nat_alt)
  moreover have "quota_usage (v_quota ref_vol) = (fs_bytes ref_fs, fs_inodes ref_fs)" "al_next (v_alloc ref_vol) = 3"
    by (simp_all add: ref_vol_def ref_fs_def quota_usage_def quota_new_def)
  ultimately show ?thesis unfolding vol_inv_def ref_vol_fs by (simp add: ref_contents)
qed

lemma ref_small: "small_bills (vfs (ref_env fails) ref_vol)"
  by (auto simp: ref_vol_fs small_bills_def ref_fs_def ref_root_def ref_file_def inode_new_def split: if_splits)

end
