(* ===== verification/Namespace_Ops.thy ===== *)
theory Namespace_Ops
  imports Namespace Reference
begin

text \<open>
  Every effect of an operation keeps the name space: creating and linking, unlinking and
  removing a directory, renaming, and what files and orphans go through besides.
\<close>

section \<open>Sealed names\<close>

definition sealed :: "'db env \<Rightarrow> bytes \<Rightarrow> u64 \<Rightarrow> bytes \<Rightarrow> bytes" where
  "sealed E dek p n = projr (seal_name (en_siv E) dek p n)"

lemma sealed_inj: "env_ok E \<Longrightarrow> inj (sealed E dek p)"
  using seal_name_total [OF env_okD(3)] seal_name_inject [OF env_okD(3)]
  unfolding inj_def sealed_def by (metis sum.sel(2))

lemma sealed_eq: "seal_name (en_siv E) dek p n = Inr enc \<Longrightarrow> sealed E dek p n = enc"
  by (simp add: sealed_def)

text \<open>No directory has handed out its last entry identifier.\<close>

definition ids_left :: "fs \<Rightarrow> bool" where
  "ids_left f = (\<forall>p i. fs_inode f p = Some i \<longrightarrow> i_next_dirent_id i \<noteq> - 1)"

lemma next_id_less: "(x :: u64) \<noteq> - 1 \<Longrightarrow> x < x + 1"
  by (simp add: word_less_Suc)

lemma unat_Suc: "(x :: u32) \<noteq> - 1 \<Longrightarrow> unat (x + 1) = Suc (unat x)"
  using unatSuc [of x] by (simp add: add.commute [of x] add_eq_0_iff)

section \<open>Entries added\<close>

lemma ns_add_node:
  assumes ns: "ns_ok S f" and p: "fs_inode f p = Some dir" "i_kind dir = Dir" and free: "fs_dirent f p name = None" "unused c f"
    and room: "i_next_dirent_id dir \<noteq> - 1" and enc: "enc = S p name"
    and child: "i_kind child = Dir \<Longrightarrow> i_parent_dir child = p \<and> i_nlink child = 2" "i_kind child \<noteq> Dir \<Longrightarrow> i_nlink child = 1"
      "i_kind child = Symlink \<Longrightarrow> target \<noteq> None"
  shows "ns_ok S (add_node ts enc p dir name c child target f)"
proof (rule ns_add_entry [OF ns p free(1), where c = c and child = child and d = "entry_of name c child dir" and dir' = "grown_dir ts child dir"])
  have u: "fs_inode f c = None" using free by (simp add: unused_def)
  show "c \<noteq> ROOT_INO" "c \<noteq> p" using ns_okD(1) [OF ns] p u by auto
  show "unat (i_nlink child) = Suc (card (links (fs_dirent f) c))" if "i_kind child \<noteq> Dir"
    using child(2) [OF that] no_links [OF ns u] by simp
qed (use p free child next_id_less [OF room] in
      \<open>auto simp: enc unused_def add_node_def fs_steps entry_of_def grown_dir_def is_dir_def touch_mtime_def Let_def split: option.splits if_splits\<close>)

lemma ns_add_link:
  assumes ns: "ns_ok S f" and p: "fs_inode f p = Some dir" "i_kind dir = Dir" and free: "fs_dirent f p name = None"
    and i: "fs_inode f c = Some i" "i_kind i \<noteq> Dir" "i_nlink i \<noteq> 0" "i_nlink i \<noteq> - 1"
    and room: "i_next_dirent_id dir \<noteq> - 1" and enc: "enc = S p name"
  shows "ns_ok S (add_link ts enc p dir name c i f)"
proof (rule ns_add_entry [OF ns p free, where c = c and child = "i\<lparr>i_nlink := i_nlink i + 1, i_ctime := ts\<rparr>" and
      d = "entry_of name c i dir" and dir' = "touch_mtime ts (dir\<lparr>i_next_dirent_id := i_next_dirent_id dir + 1\<rparr>)"])
  note fok = ns_okD(6) [OF ns i(1,2)]
  show "fs_orphan f c = None" using ns_okD(7) [OF ns, of c] i by (cases "fs_orphan f c") (auto simp: orphan_ok_def)
  show "c \<noteq> ROOT_INO" using ns_okD(1) [OF ns] i by auto
  show "unat (i_nlink (i\<lparr>i_nlink := i_nlink i + 1, i_ctime := ts\<rparr>)) = Suc (card (links (fs_dirent f) c))"
    using fok unat_Suc [OF i(4)] by (simp add: file_ok_def)
  show "fs_symlink (add_link ts enc p dir name c i f) c \<noteq> None"
    if "i_kind (i\<lparr>i_nlink := i_nlink i + 1, i_ctime := ts\<rparr>) = Symlink"
    using fok that by (simp add: file_ok_def add_link_def fs_steps)
qed (use p i free next_id_less [OF room] in \<open>auto simp: enc add_link_def fs_steps entry_of_def touch_mtime_def\<close>)

section \<open>Entries removed\<close>

lemma ns_reaped:
  assumes ns: "ns_ok S f" and c: "fs_inode f c = None"
  shows "ns_ok S (reaped c f)"
proof -
  have e: "entry_ok S (reaped c f) = entry_ok S f" "dir_ok (reaped c f) = dir_ok f" "orphan_ok (reaped c f) = orphan_ok f"
    by (simp_all add: fun_eq_iff entry_ok_def dir_ok_def orphan_ok_def reaped_def)
  have "file_ok (reaped c f) k i" if "file_ok f k i" "fs_inode f k = Some i" for k i
    using that c by (auto simp: file_ok_def reaped_def)
  with ns show ?thesis unfolding ns_ok_def e by (auto simp: reaped_def)
qed

lemma ns_chunks: "ns_ok S (f\<lparr>fs_chunk := c\<rparr>) = ns_ok S f" "ns_ok S (cut_chunks ino idxs f) = ns_ok S f"
  "ns_ok S (f\<lparr>fs_xattr := x\<rparr>) = ns_ok S f" "ns_ok S (charge a b f) = ns_ok S f" "ns_ok S (drop_xattrs ino ns f) = ns_ok S f"
  by (simp_all add: ns_ok_def entry_ok_def dir_ok_def orphan_ok_def file_ok_def cut_chunks_def charge_def drop_xattrs_def)

text \<open>The inode that one link less leaves, and the general form of its removal.\<close>

definition inode_less :: "bool \<Rightarrow> timespec \<Rightarrow> timespec \<Rightarrow> inode \<Rightarrow> inode option" where
  "inode_less opened ts ts2 i =
     (if i_nlink i = 1 then if opened then Some (i\<lparr>i_nlink := 0, i_ctime := ts2\<rparr>) else None
      else Some (i\<lparr>i_nlink := i_nlink i - 1, i_ctime := ts\<rparr>))"

lemma drop_link_maps:
  "fs_inode (drop_link opened ts ts2 c i f) = (fs_inode f)(c := inode_less opened ts ts2 i)"
  "fs_orphan (drop_link opened ts ts2 c i f) = (if i_nlink i = 1 then (fs_orphan f)(c \<mapsto> orphan_of i) else fs_orphan f)"
  "fs_dirent (drop_link opened ts ts2 c i f) = fs_dirent f" "fs_index (drop_link opened ts ts2 c i f) = fs_index f"
  "fs_symlink (drop_link opened ts ts2 c i f) = fs_symlink f"
  by (simp_all add: drop_link_def buried_def fs_steps inode_less_def orphan_of_def)

lemma ns_drop_link:
  assumes ns: "ns_ok S f" and S: "\<And>p. inj (S p)" and d: "fs_dirent f p name = Some d"
    and p: "fs_inode f p = Some dir" and i: "fs_inode f (d_child_ino d) = Some i" "i_kind i \<noteq> Dir"
    and maps: "fs_dirent g = (fs_dirent f)(p := (fs_dirent f p)(name := None))"
      "fs_index g = (fs_index f)(p := (fs_index f p)(d_dirent_id d := None))"
      "fs_inode g = (fs_inode f)(d_child_ino d := inode_less opened ts ts2 i, p \<mapsto> dir')"
      "fs_orphan g = (if i_nlink i = 1 then (fs_orphan f)(d_child_ino d \<mapsto> orphan_of i) else fs_orphan f)"
      "fs_symlink g = fs_symlink f"
    and dir': "i_kind dir' = i_kind dir" "i_parent_dir dir' = i_parent_dir dir" "i_next_dirent_id dir' = i_next_dirent_id dir" "i_nlink dir' = i_nlink dir"
  shows "ns_ok S g"
proof (rule ns_del_entry [OF ns S d refl p i(1), where dir' = dir' and child = "inode_less opened ts ts2 i"])
  let ?c = "d_child_ino d"
  have fok: "file_ok f ?c i" by (rule ns_okD(6) [OF ns i])
  have "(p, name) \<in> links (fs_dirent f) ?c" using d by (auto simp: links_def)
  then have pos: "0 < card (links (fs_dirent f) ?c)" using links_finite [OF ns_okD(2) [OF ns], of ?c] by (auto simp: card_gt_0_iff)
  then have n0: "i_nlink i \<noteq> 0" using fok by (auto simp: file_ok_def)
  have o: "fs_orphan f ?c = None" using ns_okD(7) [OF ns, of ?c] i n0 by (cases "fs_orphan f ?c") (auto simp: orphan_ok_def)
  show "childless f ?c" using i root_no_entry(1) [OF ns d] by (simp add: childless_def)
  show "i_kind dir' = Dir" using ns_okD(3) [OF ns d] p dir' by (auto simp: entry_ok_def)
  show "card (links (fs_dirent f) ?c) = 1" if "inode_less opened ts ts2 i = None"
    using that fok by (simp add: inode_less_def file_ok_def split: if_splits)
  show "i_kind i \<noteq> Dir \<and> i_kind i' = i_kind i \<and> Suc (unat (i_nlink i')) = card (links (fs_dirent f) ?c) \<and>
      (i_nlink i' = 0 \<longleftrightarrow> fs_orphan g ?c \<noteq> None) \<and> fs_symlink g ?c = fs_symlink f ?c"
    if "inode_less opened ts ts2 i = Some i'" for i'
    using that i fok pos n0 o by (auto simp: file_ok_def inode_less_def maps unat_minus_one split: if_splits)
qed (use i in \<open>auto simp: maps dir'\<close>)

lemma ns_unlink:
  assumes ns: "ns_ok S f" and S: "\<And>p. inj (S p)" and d: "fs_dirent f p name = Some d"
    and p: "fs_inode f p = Some dir" and i: "fs_inode f (d_child_ino d) = Some i" "i_kind i \<noteq> Dir"
  shows "ns_ok S (unlink_fs opened ts ts2 p dir name d i f)"
  by (rule ns_drop_link [OF ns S d p i, where dir' = "touch_mtime ts dir" and opened = opened and ts = ts and ?ts2.0 = ts2])
     (use root_no_entry(2) [OF ns d] in \<open>auto simp: unlink_fs_def drop_link_maps put_inode_def del_entry_def touch_mtime_def\<close>)

lemma ns_del_dir:
  assumes ns: "ns_ok S f" and S: "\<And>p. inj (S p)" and d: "fs_dirent f p name = Some d" and p: "fs_inode f p = Some dir"
    and i: "fs_inode f (d_child_ino d) = Some i" "i_kind i = Dir" "fs_dirent f (d_child_ino d) = Map.empty"
    and maps: "fs_dirent g = (fs_dirent f)(p := (fs_dirent f p)(name := None))"
      "fs_index g = (fs_index f)(p := (fs_index f p)(d_dirent_id d := None))"
      "fs_inode g = (fs_inode f)(d_child_ino d := None, p \<mapsto> dir')" "fs_orphan g = fs_orphan f" "fs_symlink g = fs_symlink f"
    and dir': "i_kind dir' = i_kind dir" "i_parent_dir dir' = i_parent_dir dir" "i_next_dirent_id dir' = i_next_dirent_id dir" "i_nlink dir' = i_nlink dir - 1"
  shows "ns_ok S g"
proof (rule ns_del_entry [OF ns S d refl p i(1), where dir' = dir' and child = None])
  note r = root_no_entry(1) [OF ns d]
  show "childless f (d_child_ino d)" using i r by (simp add: childless_def)
  show "i_kind dir' = Dir" using ns_okD(3) [OF ns d] p dir' by (auto simp: entry_ok_def)
  show "card (links (fs_dirent f) (d_child_ino d)) = 1" using ns_okD(5) [OF ns i(1,2)] r by (simp add: dir_ok_def)
qed (use i in \<open>auto simp: maps dir'\<close>)

lemma ns_rmdir:
  assumes ns: "ns_ok S f" and S: "\<And>p. inj (S p)" and d: "fs_dirent f p name = Some d" and p: "fs_inode f p = Some dir"
    and i: "fs_inode f (d_child_ino d) = Some i" "i_kind i = Dir" "fs_dirent f (d_child_ino d) = Map.empty"
  shows "ns_ok S (rmdir_fs ts p dir name d f)"
  by (rule ns_del_dir [OF ns S d p i, where dir' = "(touch_mtime ts dir)\<lparr>i_nlink := i_nlink dir - 1\<rparr>"])
     (auto simp: rmdir_fs_def fs_steps drop_xattrs_def touch_mtime_def)

text \<open>The last close of a file without links.\<close>

lemma ns_expunged:
  assumes ns: "ns_ok S f" and c: "fs_orphan f c \<noteq> None"
  shows "ns_ok S (expunged c f)"
proof (cases "fs_inode f c")
  case None
  then show ?thesis using ns by (simp add: expunged_def)
next
  case (Some i)
  have i: "i_kind i \<noteq> Dir" "i_nlink i = 0" using ns_okD(7) [OF ns c] Some by (auto simp: orphan_ok_def)
  have "card (links (fs_dirent f) c) = 0" using ns_okD(6) [OF ns Some i(1)] i(2) by (simp add: file_ok_def)
  then have l: "links (fs_dirent f) c = {}" using links_finite [OF ns_okD(2) [OF ns]] by simp
  have lc: "d_child_ino d \<noteq> c" "p \<noteq> c" if "fs_dirent f p n = Some d" for p n d
    using l ns_okD(3) [OF ns that] that Some i by (auto simp: links_def entry_ok_def)
  have I: "fs_inode (expunged c f) = (fs_inode f)(c := None)" using Some by (simp add: expunged_def fs_steps)
  have R: "rooted (fs_inode (expunged c f)) k" if "rooted (fs_inode f) k" for k
    using that by (rule rooted_mono) (use Some i in \<open>auto simp: I\<close>)
  have D: "fs_dirent (expunged c f) = fs_dirent f" "fs_index (expunged c f) = fs_index f" "fs_orphan (expunged c f) = fs_orphan f"
    "fs_symlink (expunged c f) = fs_symlink f" using Some by (simp_all add: expunged_def fs_steps)
  have e: "entry_ok S (expunged c f) p n d" if "fs_dirent f p n = Some d" for p n d
    using ns_okD(3) [OF ns that] lc [OF that] by (simp add: entry_ok_def I D)
  have k: "if i_kind j = Dir then dir_ok (expunged c f) k j else file_ok (expunged c f) k j" if "fs_inode (expunged c f) k = Some j" for k j
    using that ns_okD(5,6) [OF ns, of k j] R [of k] by (auto simp: I D dir_ok_def file_ok_def split: if_splits)
  have o: "orphan_ok (expunged c f) k" if "fs_orphan f k \<noteq> None" for k
    using ns_okD(7) [OF ns that] by (simp add: orphan_ok_def I)
  have "c \<noteq> ROOT_INO" using ns_okD(1) [OF ns] Some i by auto
  with ns_okD(1,2,4) [OF ns] e k o show ?thesis unfolding ns_ok_def by (simp add: D) (auto simp: I)
qed

lemma ns_closed:
  assumes ns: "ns_ok S f"
  shows "ns_ok S (closed_fs dead c final f)"
proof (cases "final \<and> \<not> dead \<and> fs_orphan f c \<noteq> None")
  case True
  then have "ns_ok S (reaped c (expunged c f))"
    by (intro ns_reaped ns_expunged [OF ns]) (auto simp: expunged_def fs_steps split: option.split)
  with True show ?thesis by (simp add: closed_fs_def)
qed (use ns in \<open>auto simp: closed_fs_def\<close>)

section \<open>Renaming\<close>

lemma climb_rooted:
  assumes ns: "ns_ok S f" and k: "fs_inode f k = Some i" "i_kind i = Dir" and c: "climb f c n k = Some True"
  shows "rooted ((fs_inode f)(c := None)) k"
  using k c
proof (induction n arbitrary: k i)
  case (Suc n)
  show ?case
  proof (cases "k = ROOT_INO")
    case True
    then show ?thesis by (simp add: rooted_root)
  next
    case False
    then have k: "k \<noteq> c" "climb f c n (i_parent_dir i) = Some True" using Suc.prems by (auto split: if_splits)
    obtain j where "fs_inode f (i_parent_dir i) = Some j" "i_kind j = Dir"
      using parent_entry(2) [OF ns Suc.prems(1,2) False] by blast
    then have r: "rooted ((fs_inode f)(c := None)) (i_parent_dir i)" by (rule Suc.IH) (rule k)
    show ?thesis by (rule rooted_step [OF _ Suc.prems(2) r]) (use Suc.prems k in simp)
  qed
qed simp

definition target_wf :: "inode \<Rightarrow> u64 \<Rightarrow> bytes \<Rightarrow> dirent \<Rightarrow> (dirent \<times> inode) option \<Rightarrow> fs \<Rightarrow> bool" where
  "target_wf moved np nn src tgt f =
     (case tgt of
        None \<Rightarrow> fs_dirent f np nn = None
      | Some (d, i) \<Rightarrow>
          fs_dirent f np nn = Some d \<and> fs_inode f (d_child_ino d) = Some i \<and> d_child_ino d \<noteq> d_child_ino src \<and>
          (i_kind moved = Dir \<longleftrightarrow> i_kind i = Dir) \<and> (i_kind i = Dir \<longrightarrow> fs_dirent f (d_child_ino d) = Map.empty))"

lemma target_wfD:
  assumes "target_wf moved np nn src (Some (d, i)) f"
  shows "fs_dirent f np nn = Some d" "fs_inode f (d_child_ino d) = Some i" "d_child_ino d \<noteq> d_child_ino src"
    "i_kind i = Dir \<Longrightarrow> fs_dirent f (d_child_ino d) = Map.empty"
  using assms by (simp_all add: target_wf_def)

text \<open>The replaced target is taken out first.\<close>

lemma ns_target:
  assumes ns: "ns_ok S f" and S: "\<And>p. inj (S p)" and np: "fs_inode f np = Some new_dir" and t: "target_wf moved np nn src tgt f"
  shows "ns_ok S (put_inode np (target_dir tgt new_dir) (target_fs opened ts ts2 np nn tgt f))"
proof (cases tgt)
  case None
  have "f\<lparr>fs_inode := (fs_inode f)(np \<mapsto> new_dir)\<rparr> = f" using np by (simp add: fun_upd_idem)
  with None ns show ?thesis by (simp add: target_defs fs_steps)
next
  case (Some x)
  then obtain d i where x: "tgt = Some (d, i)" by (cases x) simp
  note T = target_wfD [OF t [unfolded x]]
  show ?thesis
  proof (cases "i_kind i = Dir")
    case True
    show ?thesis
      by (rule ns_del_dir [OF ns S T(1) np T(2) True T(4) [OF True], where dir' = "target_dir tgt new_dir"])
         (use True in \<open>simp_all add: x target_defs fs_steps\<close>)
  next
    case False
    show ?thesis
      by (rule ns_drop_link [OF ns S T(1) np T(2) False, where dir' = "target_dir tgt new_dir" and
            opened = "opened (d_child_ino d)" and ts = ts and ?ts2.0 = ts2])
         (use False in \<open>simp_all add: x target_defs drop_link_maps put_inode_def del_entry_def\<close>)
  qed
qed

lemma ns_rename:
  assumes ns: "ns_ok S f" and S: "\<And>p. inj (S p)" and src: "fs_dirent f op on = Some src" and ne: "(op, on) \<noteq> (np, nn)"
    and dirs: "fs_inode f op = Some old_dir" "fs_inode f np = Some new_dir" "i_kind new_dir = Dir"
    and mv: "fs_inode f (d_child_ino src) = Some moved" and t: "target_wf moved np nn src tgt f"
    and climb: "i_kind moved = Dir \<Longrightarrow> op \<noteq> np \<Longrightarrow> climb f (d_child_ino src) fuel np = Some True"
    and room: "i_next_dirent_id new_dir \<noteq> - 1" and enc: "enc = S np nn"
  shows "ns_ok S (rename_fs opened ts ts2 enc op on np nn src tgt old_dir new_dir moved f)"
proof -
  let ?c = "d_child_ino src" and ?dir = "target_dir tgt new_dir" and ?dm = "i_kind moved = Dir \<and> op \<noteq> np"
  let ?f = "put_inode np ?dir (target_fs opened ts ts2 np nn tgt f)"
  let ?old = "if op = np then ?dir else old_dir"
  have nsf: "ns_ok S ?f" by (rule ns_target [OF ns S dirs(2) t])
  have td: "i_kind ?dir = Dir" "i_parent_dir ?dir = i_parent_dir new_dir" "i_next_dirent_id ?dir = i_next_dirent_id new_dir"
    using dirs by (simp_all add: target_dir_def split: option.splits)
  have D: "fs_dirent ?f = (fs_dirent f)(np := (fs_dirent f np)(nn := None))"
    using t by (cases tgt) (auto simp: target_wf_def target_fs_def fs_steps drop_link_maps fun_upd_idem split: prod.splits)
  have I: "fs_inode ?f k = (if k = np then Some ?dir else fs_inode f k)" if "\<And>d i. tgt = Some (d, i) \<Longrightarrow> k \<noteq> d_child_ino d" for k
    using that by (cases tgt) (auto simp: target_fs_def fs_steps drop_link_maps split: prod.splits)
  have tc: "d_child_ino d \<noteq> ?c" "d_child_ino d \<noteq> op" "d_child_ino d \<noteq> np" if "tgt = Some (d, i)" for d i
  proof -
    note T = target_wfD [OF t [unfolded that]]
    show "d_child_ino d \<noteq> ?c" by (rule T)
    show "d_child_ino d \<noteq> np" by (rule root_no_entry(2) [OF ns T(1)])
    show "d_child_ino d \<noteq> op" using T ns_okD(3) [OF ns src] src by (auto simp: entry_ok_def)
  qed
  have cn: "?c \<noteq> np"
  proof
    assume c: "?c = np"
    then have "i_kind moved = Dir" "op \<noteq> np" using mv dirs root_no_entry(2) [OF ns src] by auto
    from climb [OF this] show False using c by (cases fuel) auto
  qed
  have r: "rooted ((fs_inode ?f)(?c := None)) np" if m: "i_kind moved = Dir" "op \<noteq> np"
  proof -
    have r0: "rooted ((fs_inode f)(?c := None)) np" by (rule climb_rooted [OF ns dirs(2,3) climb [OF m]])
    define J where "J = (case tgt of None \<Rightarrow> (fs_inode f)(?c := None) | Some (d, i) \<Rightarrow> (fs_inode f)(?c := None, d_child_ino d := None))"
    have "rooted J np"
    proof (cases tgt)
      case None
      then show ?thesis using r0 by (simp add: J_def)
    next
      case (Some x)
      then obtain d i where x: "tgt = Some (d, i)" by (cases x) simp
      note T = target_wfD [OF t [unfolded x]]
      have "childless f (d_child_ino d)" using T root_no_entry(1) [OF ns T(1)] by (simp add: childless_def)
      then have "rooted ((fs_inode f)(?c := None, d_child_ino d := None)) np"
        by (rule rooted_del [OF ns _ r0]) (use tc(3) [OF x] in \<open>auto split: if_splits\<close>)
      then show ?thesis by (simp add: J_def x)
    qed
    then show ?thesis
    proof (rule rooted_mono)
      fix k j assume k: "J k = Some j" "i_kind j = Dir"
      then have kf: "fs_inode f k = Some j" "k \<noteq> ?c" "\<And>d i. tgt = Some (d, i) \<Longrightarrow> k \<noteq> d_child_ino d"
        by (auto simp: J_def split: option.splits if_splits)
      show "\<exists>j'. ((fs_inode ?f)(?c := None)) k = Some j' \<and> i_kind j' = Dir \<and> i_parent_dir j' = i_parent_dir j"
        using I [OF kf(3)] kf(1,2) k(2) td dirs by (cases "k = np") auto
    qed
  qed
  show ?thesis
  proof (rule ns_move_entry [OF nsf S, where old' = "renamed_old ts ?dm ?old" and new' = "renamed_new ts ?dm ?dir" and
        i' = "renamed_inode ts ?dm np moved" and old_dir = ?old and new_dir = ?dir and i = moved and op = op and on = on and np = np and nn = nn and src = src and
        d = "\<lparr>d_name = nn, d_child_ino = ?c, d_kind = i_kind moved, d_dirent_id = i_next_dirent_id ?dir\<rparr>"])
    show "fs_dirent ?f op on = Some src" using src ne by (auto simp: D)
    show "fs_inode ?f ?c = Some moved" using I [of ?c] tc mv cn by metis
    show "fs_inode ?f op = Some ?old" using I [of op] tc dirs by metis
    show "i_kind moved = Dir \<Longrightarrow> op \<noteq> np \<Longrightarrow> rooted ((fs_inode ?f)(?c := None)) np" by (rule r)
    show "fs_dirent ?f np nn = None" by (simp add: D)
    show "i_kind moved = Dir \<Longrightarrow> i_parent_dir (renamed_inode ts ?dm np moved) = np"
      using ns_okD(3) [OF ns src] mv by (auto simp: entry_ok_def renamed_inode_def)
    show "i_next_dirent_id ?dir < i_next_dirent_id (renamed_new ts ?dm ?dir)"
      using next_id_less [OF room] td by (simp add: renamed_new_def touch_mtime_def Let_def)
  qed (use td dirs ns_okD(3) [OF ns src] in
        \<open>auto simp: D fs_steps rename_fs_def renamed_old_def renamed_new_def renamed_inode_def touch_mtime_def enc Let_def entry_ok_def\<close>)
qed

end
