(* ===== verification/Vfs_Tree.thy ===== *)
theory Vfs_Tree
  imports Namespace_Ops
begin

text \<open>
  The operations of \<^verbatim>\<open>vfs_impl.rs\<close> keep the name space well-formed, whether they
  succeed or fail. \<open>tree_ok\<close> reads the invariant of the abstract file system off a volume;
  each lemma takes the effect of an operation to the invariant of the state after it.
\<close>

definition tree_ok :: "'db env \<Rightarrow> 'db volume \<Rightarrow> bool" where
  "tree_ok E s = ns_ok (sealed E (v_dek s)) (vfs E s)"

lemma tree_frame: "tree_ok E s \<Longrightarrow> hframe s t \<Longrightarrow> vfs E t = vfs E s \<Longrightarrow> tree_ok E t"
  by (simp add: tree_ok_def hframe_def vframe_def)

lemma tree_undone: "tree_ok E s \<Longrightarrow> undone E s t \<Longrightarrow> tree_ok E t"
  by (auto simp: undone_def intro: tree_frame)

lemma tree_frameI: "ns_ok (sealed E (v_dek s)) (vfs E t) \<Longrightarrow> hframe s t \<Longrightarrow> tree_ok E t"
  by (simp add: tree_ok_def hframe_def vframe_def)

lemma tree_made:
  assumes inv: "vol_inv E s" and tree: "tree_ok E s" and ids: "ids_left (vfs E s)" and hf: "hframe s t"
    and may: "may_add creds p name dir (vfs E s)" and made: "made E s p dir name mk target a t"
    and mk: "\<And>ts. i_kind (mk ts) = Dir \<Longrightarrow> i_parent_dir (mk ts) = p \<and> i_nlink (mk ts) = 2" "\<And>ts. i_kind (mk ts) \<noteq> Dir \<Longrightarrow> i_nlink (mk ts) = 1"
      "\<And>ts. i_kind (mk ts) = Symlink \<Longrightarrow> target \<noteq> None"
  shows "tree_ok E t"
proof -
  from made obtain ts ts' enc where m: "seal_name (en_siv E) (v_dek s) p name = Inr enc"
    "vfs E t = add_node ts' enc p dir name (al_next (v_alloc s)) (mk ts) target (vfs E s)" by (auto simp: made_def)
  have "ns_ok (sealed E (v_dek s)) (vfs E t)"
    unfolding m(2)
    by (rule ns_add_node [OF tree [unfolded tree_ok_def]])
       (use may ids inv mk sealed_eq [OF m(1)] in \<open>auto simp: may_add_def ids_left_def vol_inv_def\<close>)
  then show ?thesis using hf by (rule tree_frameI)
qed

lemma tree_linked:
  assumes tree: "tree_ok E s" and ids: "ids_left (vfs E s)" and hf: "hframe s t"
    and l: "linked E creds s ino p name a t" and alive: "\<And>i. fs_inode (vfs E s) ino = Some i \<Longrightarrow> i_nlink i \<noteq> 0"
  shows "tree_ok E t"
proof -
  from l obtain dir i ts enc where m: "may_add creds p name dir (vfs E s)" "fs_inode (vfs E s) ino = Some i" "i_kind i \<noteq> Dir"
    "i_nlink i \<noteq> - 1" "seal_name (en_siv E) (v_dek s) p name = Inr enc" "vfs E t = add_link ts enc p dir name ino i (vfs E s)"
    by (auto simp: linked_def)
  have "ns_ok (sealed E (v_dek s)) (vfs E t)"
    unfolding m(6)
    by (rule ns_add_link [OF tree [unfolded tree_ok_def]])
       (use m ids alive sealed_eq [OF m(5)] in \<open>auto simp: may_add_def ids_left_def\<close>)
  then show ?thesis using hf by (rule tree_frameI)
qed

lemma ns_put_inode:
  assumes "ns_ok S f" "fs_inode f c = Some i" "same_shape i i'"
  shows "ns_ok S (put_inode c i' f)"
  by (rule ns_same_shape [OF assms(1)]) (use assms in \<open>auto simp: put_inode_def same_shape_def option.rel_refl\<close>)

lemma tree_wrote:
  assumes tree: "tree_ok E s" and hf: "hframe s t" and w: "wrote E creds s ino off dat t"
  shows "tree_ok E t"
proof -
  from w obtain i plan ts where i: "fs_inode (vfs E s) ino = Some i"
    "vfs E t = charge (wpl_billed_delta plan) 0 (put_inode ino (written_inode creds ts plan i) (put_file ino (wpl_puts plan) (vfs E s)))"
    by (auto simp: wrote_def)
  have "ns_ok (sealed E (v_dek s)) (vfs E t)"
    unfolding i(2) ns_chunks
    by (rule ns_put_inode [of _ _ _ i])
       (use tree i in \<open>auto simp: put_file_def ns_chunks tree_ok_def same_shape_def written_inode_def touch_mtime_def Let_def\<close>)
  then show ?thesis using hf by (rule tree_frameI)
qed

lemma same_shape_trans: "same_shape i j \<Longrightarrow> same_shape j k \<Longrightarrow> same_shape i k"
  by (auto simp: same_shape_def)

lemma setattr_gate_shape:
  "setattr_mode creds own m i = Inr i' \<Longrightarrow> same_shape i i'" "setattr_uid creds own u i = Inr i' \<Longrightarrow> same_shape i i'"
  "setattr_gid creds own g i = Inr i' \<Longrightarrow> same_shape i i'" "setattr_time creds own ts atime slot i = Inr i' \<Longrightarrow> same_shape i i'"
  by (auto simp: same_shape_def Let_def setattr_mode_def setattr_uid_def setattr_gid_def setattr_time_def set_time_of_def
      split: option.splits if_splits time_set.splits sum.splits)

lemma setattr_gates_shape: "setattr_gates creds ts attrs i = Inr i' \<Longrightarrow> same_shape i i'"
  unfolding setattr_gates_def and_then_Inr Let_def by (elim exE conjE) (meson setattr_gate_shape same_shape_trans)

lemma tree_attrs_set:
  assumes tree: "tree_ok E s" and hf: "hframe s t" and a: "attrs_set E creds s ino attrs i plan"
    and t: "vfs E t = set_attr_fs ino i plan dels (vfs E s)"
  shows "tree_ok E t"
proof -
  from a obtain i0 ts i1 i2 where i: "fs_inode (vfs E s) ino = Some i0" "setattr_gates creds ts attrs i0 = Inr i1"
    "sized E creds s ino ts (s_size attrs) i1 i2 plan" "i = i2\<lparr>i_ctime := ts\<rparr>" by (auto simp: attrs_set_def)
  have "same_shape i0 i"
    using setattr_gates_shape [OF i(2)] i(3,4) by (auto simp: sized_def same_shape_def split: option.splits if_splits)
  then have "ns_ok (sealed E (v_dek s)) (vfs E t)"
    unfolding t set_attr_fs_def ns_chunks
    by (intro ns_put_inode [of _ _ _ i0])
       (use tree i in \<open>auto simp: cut_chunks_simps put_file_def ns_chunks tree_ok_def\<close>)
  then show ?thesis using hf by (rule tree_frameI)
qed

lemma tree_touched:
  assumes tree: "tree_ok E s" and hf: "hframe s t" and w: "touched E creds s ino name v t"
  shows "tree_ok E t"
proof -
  from w obtain i ts where i: "fs_inode (vfs E s) ino = Some i" "vfs E t = put_inode ino (i\<lparr>i_ctime := ts\<rparr>) (put_xattr ino name v (vfs E s))"
    by (auto simp: touched_def)
  have "ns_ok (sealed E (v_dek s)) (vfs E t)"
    unfolding i(2)
    by (rule ns_put_inode [of _ _ _ i]) (use tree i in \<open>auto simp: put_xattr_def ns_chunks tree_ok_def same_shape_def\<close>)
  then show ?thesis using hf by (rule tree_frameI)
qed

lemma tree_unlinked:
  assumes E: "env_ok E" and tree: "tree_ok E s" and hf: "hframe s t"
    and d: "fs_dirent (vfs E s) p name = Some d" and u: "unlinked E creds s p name d t"
  shows "tree_ok E t"
proof -
  let ?o = "is_open (d_child_ino d) (v_handles s)"
  from u obtain dir i ts ts2 where m: "may_remove creds p dir (d_child_ino d) i (vfs E s)" "i_kind i \<noteq> Dir"
    "vfs E t = (if i_nlink i = 1 \<and> \<not> ?o then reaped (d_child_ino d) else id) (unlink_fs ?o ts ts2 p dir name d i (vfs E s))"
    unfolding unlinked_def Let_def by blast
  have f: "ns_ok (sealed E (v_dek s)) (unlink_fs ?o ts ts2 p dir name d i (vfs E s))"
    by (rule ns_unlink [OF tree [unfolded tree_ok_def] sealed_inj [OF E] d]) (use m in \<open>auto simp: may_remove_def\<close>)
  have "ns_ok (sealed E (v_dek s)) (vfs E t)"
  proof (cases "i_nlink i = 1 \<and> \<not> ?o")
    case True
    have "fs_inode (unlink_fs ?o ts ts2 p dir name d i (vfs E s)) (d_child_ino d) = None"
      using True by (simp add: unlink_fs_def drop_link_maps inode_less_def)
    from ns_reaped [OF f this] True m(3) show ?thesis by simp
  qed (use f m(3) in auto)
  then show ?thesis using hf by (rule tree_frameI)
qed

lemma tree_unlink_torn:
  assumes E: "env_ok E" and tree: "tree_ok E s" and hf: "hframe s t"
    and d: "fs_dirent (vfs E s) p name = Some d" and u: "unlink_torn E creds s p name d t"
  shows "tree_ok E t"
proof -
  from u obtain dir i ts ts2 idxs where m: "may_remove creds p dir (d_child_ino d) i (vfs E s)" "i_kind i \<noteq> Dir"
    "vfs E t = cut_chunks (d_child_ino d) idxs (unlink_fs False ts ts2 p dir name d i (vfs E s))"
    unfolding unlink_torn_def Let_def by blast
  have "ns_ok (sealed E (v_dek s)) (vfs E t)"
    unfolding m(3) ns_chunks
    by (rule ns_unlink [OF tree [unfolded tree_ok_def] sealed_inj [OF E] d]) (use m in \<open>auto simp: may_remove_def\<close>)
  then show ?thesis using hf by (rule tree_frameI)
qed

lemma tree_rmdired:
  assumes E: "env_ok E" and tree: "tree_ok E s" and hf: "hframe s t"
    and d: "fs_dirent (vfs E s) p name = Some d" and u: "rmdired E creds s p name d t"
  shows "tree_ok E t"
proof -
  from u obtain dir i ts where m: "may_remove creds p dir (d_child_ino d) i (vfs E s)" "i_kind i = Dir"
    "fs_dirent (vfs E s) (d_child_ino d) = Map.empty" "vfs E t = rmdir_fs ts p dir name d (vfs E s)"
    unfolding rmdired_def by blast
  have "ns_ok (sealed E (v_dek s)) (vfs E t)"
    unfolding m(4) by (rule ns_rmdir [OF tree [unfolded tree_ok_def] sealed_inj [OF E] d]) (use m in \<open>auto simp: may_remove_def\<close>)
  then show ?thesis using hf by (rule tree_frameI)
qed

lemma tree_renamed:
  assumes E: "env_ok E" and tree: "tree_ok E s" and ids: "ids_left (vfs E s)"
    and src: "fs_dirent (vfs E s) op on = Some src" and noop: "\<not> rename_noop op on np nn src (fs_dirent (vfs E s) np nn)"
    and r: "renamed E fuel creds s op on np nn src (fs_dirent (vfs E s) np nn) P"
  shows "\<exists>f tgt. P f tgt \<and> ns_ok (sealed E (v_dek s)) f \<and>
    (\<forall>c. target_gone (\<lambda>c. is_open c (v_handles s)) tgt = Some c \<longrightarrow> fs_inode f c = None)"
proof -
  from r obtain old_dir new_dir moved tgt ts ts2 enc where m:
    "fs_inode (vfs E s) op = Some old_dir" "fs_inode (vfs E s) np = Some new_dir" "i_kind new_dir = Dir"
    "fs_inode (vfs E s) (d_child_ino src) = Some moved"
    "i_kind moved = Dir \<and> op \<noteq> np \<longrightarrow> climb (vfs E s) (d_child_ino src) fuel np = Some True"
    "target_ok creds moved new_dir (fs_dirent (vfs E s) np nn) tgt (vfs E s)"
    "seal_name (en_siv E) (v_dek s) np nn = Inr enc"
    "P (rename_fs (\<lambda>c. is_open c (v_handles s)) ts ts2 enc op on np nn src tgt old_dir new_dir moved (vfs E s)) tgt"
    unfolding renamed_def rename_done_def by blast
  have t: "target_wf moved np nn src tgt (vfs E s)"
    using m(6) noop by (auto simp: target_ok_def target_wf_def rename_noop_def split: option.splits)
  have ns: "ns_ok (sealed E (v_dek s)) (rename_fs (\<lambda>c. is_open c (v_handles s)) ts ts2 enc op on np nn src tgt old_dir new_dir moved (vfs E s))"
    by (rule ns_rename [OF tree [unfolded tree_ok_def] sealed_inj [OF E] src _ m(1-4) t])
       (use m noop ids sealed_eq [OF m(7)] in \<open>auto simp: rename_noop_def ids_left_def\<close>)
  have "fs_inode (rename_fs (\<lambda>c. is_open c (v_handles s)) ts ts2 enc op on np nn src tgt old_dir new_dir moved (vfs E s)) c = None"
    if g: "target_gone (\<lambda>c. is_open c (v_handles s)) tgt = Some c" for c
  proof -
    from g obtain d i where x: "tgt = Some (d, i)" "i_kind i \<noteq> Dir" "i_nlink i = 1" "\<not> is_open c (v_handles s)" "c = d_child_ino d"
      by (auto simp: target_gone_def split: option.splits if_splits)
    have "c \<noteq> d_child_ino src" "c \<noteq> np" "c \<noteq> op"
      using target_wfD [OF t [unfolded x(1)]] x m(1,3) m(2) ns_okD(3) [OF tree [unfolded tree_ok_def] src]
      by (auto simp: entry_ok_def)
    with x show ?thesis
      by (simp add: rename_fs_def Let_def target_fs_def fs_steps drop_link_maps inode_less_def)
  qed
  with m(8) ns show ?thesis by blast
qed

lemma tree_rename_post:
  assumes E: "env_ok E" and tree: "tree_ok E s" and ids: "ids_left (vfs E s)" and src: "fs_dirent (vfs E s) op on = Some src"
    and r: "rename_post E fuel creds s op on np nn src (fs_dirent (vfs E s) np nn) r t \<or>
      rename_torn E fuel creds s op on np nn src (fs_dirent (vfs E s) np nn) t"
  shows "tree_ok E t"
proof (cases "undone E s t")
  case True
  then show ?thesis by (rule tree_undone [OF tree])
next
  case False
  let ?g = "target_gone (\<lambda>c. is_open c (v_handles s))" and ?S = "sealed E (v_dek s)"
  have n: "\<not> rename_noop op on np nn src (fs_dirent (vfs E s) np nn)" and hf: "hframe s t"
    using r False by (auto simp: rename_post_def rename_torn_def split: option.splits if_splits)
  consider
      "renamed E fuel creds s op on np nn src (fs_dirent (vfs E s) np nn) (\<lambda>f tgt. vfs E t = (case ?g tgt of None \<Rightarrow> f | Some c \<Rightarrow> reaped c f))"
    | "renamed E fuel creds s op on np nn src (fs_dirent (vfs E s) np nn) (\<lambda>f tgt. \<exists>c idxs. ?g tgt = Some c \<and> vfs E t = cut_chunks c idxs f)"
    using r False n by (cases r) (auto simp: rename_post_def rename_torn_def)
  then have "ns_ok ?S (vfs E t)"
  proof cases
    case 1
    from tree_renamed [OF E tree ids src n 1] show ?thesis by (auto simp: ns_reaped split: option.splits)
  next
    case 2
    from tree_renamed [OF E tree ids src n 2] show ?thesis by (auto simp: ns_chunks)
  qed
  then show ?thesis using hf by (rule tree_frameI)
qed

section \<open>The operations\<close>

text \<open>Each operation, on success and on failure.\<close>

abbreviation tree_kept :: "'db env \<Rightarrow> ('db volume, fs_error, 'a) act \<Rightarrow> 'db volume \<Rightarrow> bool" where
  "tree_kept E m s \<equiv> wp m (\<lambda>_ t. vol_inv E t \<and> tree_ok E t) (\<lambda>_ t. vol_inv E t \<and> tree_ok E t) s"

lemma undone_inv: "undone E s t \<Longrightarrow> vol_inv E t"
  by (simp add: undone_def)

lemma new_child_shape:
  "i_kind (new_child creds dir k mode ts) = k" "i_nlink (new_child creds dir k mode ts) = (if k = Dir then 2 else 1)"
  "i_kind (new_symlink creds target dir ts) = Symlink" "i_nlink (new_symlink creds target dir ts) = 1"
  by (simp_all add: new_child_def new_symlink_def inode_new_def is_dir_def split: prod.split)

lemma tree_creates:
  assumes E: "env_ok E" and inv: "vol_inv E s" and tree: "tree_ok E s" and ids: "ids_left (vfs E s)"
    and room: "al_next (v_alloc s) \<noteq> - 1"
  shows "tree_kept E (create E creds p name mode exclusive) s" "tree_kept E (mkdir E creds p name mode) s"
    "tree_kept E (mknod E creds p name mode kind rdev) s" "tree_kept E (symlink E creds p name target) s"
proof -
  note U = tree_undone [OF tree] undone_inv
  note M = tree_made [OF inv tree ids]
  show "tree_kept E (create E creds p name mode exclusive) s"
    by (rule wp_mono [OF create_wp [OF E inv room]]) (auto intro: U tree_frame [OF tree] M simp: new_child_shape)
  show "tree_kept E (mkdir E creds p name mode) s"
    by (rule wp_mono [OF mkdir_wp [OF E inv room]]) (auto intro: U M simp: new_child_shape)
  show "tree_kept E (symlink E creds p name target) s"
    by (rule wp_mono [OF symlink_wp [OF E inv room]]) (auto intro: U M simp: new_child_shape)
  have k: "kind \<noteq> Dir" "kind \<noteq> Symlink" if "mknod_allowed creds kind = Inr ()"
    using that by (auto simp: mknod_allowed_def)
  show "tree_kept E (mknod E creds p name mode kind rdev) s"
    by (rule wp_mono [OF mknod_wp [OF E inv room]]) (auto intro: U M simp: new_child_shape k)
qed

lemma tree_links:
  assumes E: "env_ok E" and inv: "vol_inv E s" and tree: "tree_ok E s" and ids: "ids_left (vfs E s)"
    and alive: "\<And>i. fs_inode (vfs E s) ino = Some i \<Longrightarrow> i_nlink i \<noteq> 0"
  shows "tree_kept E (link E creds ino p name) s"
  by (rule wp_mono [OF link_wp [OF E inv]])
     (use alive in \<open>auto intro: tree_undone [OF tree] undone_inv tree_linked [OF tree ids]\<close>)

lemma tree_files:
  assumes E: "env_ok E" and inv: "vol_inv E s" and tree: "tree_ok E s"
  shows "tree_kept E (vfs_write E creds ino off dat) s" "tree_kept E (setattr E creds ino attrs) s"
    "tree_kept E (setxattr E creds ino name val) s" "tree_kept E (removexattr E creds ino name) s"
proof -
  note U = tree_undone [OF tree] undone_inv tree_frame [OF tree]
  show "tree_kept E (vfs_write E creds ino off dat) s"
    by (rule wp_mono [OF vfs_write_wp [OF E inv]]) (auto intro: U tree_wrote [OF tree] split: if_splits)
  show "tree_kept E (setattr E creds ino attrs) s"
    by (rule wp_mono [OF setattr_wp [OF E inv]]) (auto intro: U tree_attrs_set [OF tree])
  show "tree_kept E (setxattr E creds ino name val) s"
    by (rule wp_mono [OF setxattr_wp [OF E inv]]) (auto intro: U tree_touched [OF tree])
  show "tree_kept E (removexattr E creds ino name) s"
    by (rule wp_mono [OF removexattr_wp [OF E inv]]) (auto intro: U tree_touched [OF tree])
qed

lemma tree_removes:
  assumes E: "env_ok E" and inv: "vol_inv E s" and tree: "tree_ok E s" and small: "small_bills (vfs E s)"
  shows "tree_kept E (unlink E creds p name (id # waits)) s" "tree_kept E (rmdir E creds p name (id # waits)) s"
proof -
  note U = tree_undone [OF tree] undone_inv
  show "tree_kept E (unlink E creds p name (id # waits)) s"
    by (rule wp_mono [OF unlink_wp [OF E inv small]]) (auto intro: U tree_unlinked [OF E tree] tree_unlink_torn [OF E tree])
  show "tree_kept E (rmdir E creds p name (id # waits)) s"
    by (rule wp_mono [OF rmdir_wp [OF E inv]]) (auto intro: U tree_rmdired [OF E tree])
qed

lemma rename_post_inv:
  "rename_post E fuel creds s op on np nn src dst r t \<Longrightarrow> vol_inv E t" "rename_torn E fuel creds s op on np nn src dst t \<Longrightarrow> vol_inv E t"
  by (auto simp: rename_post_def rename_torn_def undone_def split: option.splits if_splits)

lemma tree_renames:
  assumes E: "env_ok E" and inv: "vol_inv E s" and tree: "tree_ok E s" and small: "small_bills (vfs E s)" and ids: "ids_left (vfs E s)"
  shows "tree_kept E (rename E fuel creds op on np nn (id # waits)) s"
  by (rule wp_mono [OF rename_wp [OF E inv small]])
     (auto intro: tree_undone [OF tree] undone_inv rename_post_inv tree_rename_post [OF E tree ids])

lemma tree_vframeI: "vframe s t \<Longrightarrow> ns_ok (sealed E (v_dek s)) (vfs E t) \<Longrightarrow> tree_ok E t"
  by (simp add: tree_ok_def vframe_def)

lemma tree_closes:
  assumes E: "env_ok E" and inv: "vol_inv E s" and tree: "tree_ok E s" and small: "small_bills (vfs E s)"
  shows "tree_kept E (vfs_close E h) s"
proof -
  note ns = tree [unfolded tree_ok_def]
  show ?thesis
    by (rule wp_mono [OF vfs_close_wp [OF E inv small]])
       (auto simp: handle_gone_def ns_chunks ns ns_closed [OF ns] ns_expunged [OF ns] intro!: tree_vframeI)
qed

end
