(* ===== verification/Accounting.thy ===== *)
theory Accounting
  imports Vfs_Tree
begin

text \<open>
  The counters of a volume are what a recount would find: the number of inodes, the sum of
  what the inodes are billed, and every bill the sum of its chunks by the rule of the
  quota. Chunks belong to a file or to an orphan, and lie inside the file.
\<close>

section \<open>The invariant\<close>

type_synonym chunks = "u32 \<Rightarrow> bytes option"

definition chunks_billed :: "u64 \<Rightarrow> chunks \<Rightarrow> u64 \<Rightarrow> u64" where
  "chunks_billed cs C sz = (\<Sum>idx \<in> UNIV. chunk_billed cs sz idx (C idx))"

definition chunks_inside :: "u64 \<Rightarrow> chunks \<Rightarrow> u64 \<Rightarrow> bool" where
  "chunks_inside cs C sz = (\<forall>idx c. C idx = Some c \<longrightarrow> length c \<le> unat cs \<and> unat idx * unat cs + length c \<le> unat sz)"

definition bill_ok :: "u64 \<Rightarrow> chunks \<Rightarrow> inode \<Rightarrow> bool" where
  "bill_ok cs C i =
     (i_billed_bytes i = chunks_billed cs C (i_size i) \<and> chunks_inside cs C (i_size i) \<and>
      (i_kind i = File \<longrightarrow> unat (i_size i) \<le> unat cs * 2 ^ 32) \<and> (i_kind i \<noteq> File \<longrightarrow> C = Map.empty))"

definition acct_ok :: "u64 \<Rightarrow> fs \<Rightarrow> bool" where
  "acct_ok cs f =
     (finite (dom (fs_inode f)) \<and> fs_inodes f = of_nat (card (dom (fs_inode f))) \<and>
      fs_bytes f = (\<Sum>c \<in> dom (fs_inode f). i_billed_bytes (the (fs_inode f c))) \<and>
      (\<forall>c i. fs_inode f c = Some i \<longrightarrow> bill_ok cs (fs_chunk f c) i) \<and>
      (\<forall>c. fs_inode f c = None \<longrightarrow> fs_chunk f c \<noteq> Map.empty \<longrightarrow> fs_orphan f c \<noteq> None))"

lemma acct_okD:
  assumes "acct_ok cs f"
  shows "finite (dom (fs_inode f))" "fs_inodes f = of_nat (card (dom (fs_inode f)))"
    "fs_bytes f = (\<Sum>c \<in> dom (fs_inode f). i_billed_bytes (the (fs_inode f c)))"
    "fs_inode f c = Some i \<Longrightarrow> bill_ok cs (fs_chunk f c) i"
    "fs_inode f c = None \<Longrightarrow> fs_chunk f c \<noteq> Map.empty \<Longrightarrow> fs_orphan f c \<noteq> None"
  using assms unfolding acct_ok_def by auto

text \<open>Names, index, links and attributes do not count.\<close>

lemma acct_names [simp]:
  "acct_ok cs (del_entry p n k f) = acct_ok cs f" "acct_ok cs (put_entry p d enc f) = acct_ok cs f"
  "acct_ok cs (put_symlink c t f) = acct_ok cs f" "acct_ok cs (put_xattr c n v f) = acct_ok cs f"
  "acct_ok cs (drop_xattrs c ns f) = acct_ok cs f"
  by (simp_all add: acct_ok_def del_entry_def put_entry_def put_symlink_def put_xattr_def drop_xattrs_def split: option.split)

lemma step_inode [simp]:
  "fs_inode (put_inode c i f) = (fs_inode f)(c \<mapsto> i)" "fs_inode (del_inode c f) = (fs_inode f)(c := None)"
  "fs_inode (del_entry p n k f) = fs_inode f" "fs_inode (put_entry p d enc f) = fs_inode f" "fs_inode (put_symlink c t f) = fs_inode f"
  "fs_inode (put_xattr c n v f) = fs_inode f" "fs_inode (drop_xattrs c ns f) = fs_inode f" "fs_inode (put_orphan c x f) = fs_inode f"
  "fs_inode (charge a b f) = fs_inode f"
  by (simp_all add: fs_steps drop_xattrs_def split: option.split)

lemma step_chunk [simp]:
  "fs_chunk (put_inode c i f) = fs_chunk f" "fs_chunk (del_inode c f) = fs_chunk f"
  "fs_chunk (del_entry p n k f) = fs_chunk f" "fs_chunk (put_entry p d enc f) = fs_chunk f" "fs_chunk (put_symlink c t f) = fs_chunk f"
  "fs_chunk (put_xattr c n v f) = fs_chunk f" "fs_chunk (drop_xattrs c ns f) = fs_chunk f" "fs_chunk (put_orphan c x f) = fs_chunk f"
  "fs_chunk (charge a b f) = fs_chunk f"
  by (simp_all add: fs_steps drop_xattrs_def split: option.split)

lemma charge_commute:
  "charge a b (put_inode c i f) = put_inode c i (charge a b f)" "charge a b (del_entry p n k f) = del_entry p n k (charge a b f)"
  "charge a b (put_entry p d enc f) = put_entry p d enc (charge a b f)" "charge a b (put_symlink c t f) = put_symlink c t (charge a b f)"
  "charge a b (drop_xattrs c ns f) = drop_xattrs c ns (charge a b f)"
  by (simp_all add: fs_steps drop_xattrs_def split: option.split cong del: if_weak_cong)

lemma sum_upd:
  assumes "finite (dom I)" "I c = Some i"
  shows "(\<Sum>k \<in> dom I. g (the ((I(c \<mapsto> i')) k))) = (\<Sum>k \<in> dom I. g (the (I k))) + (g i' - g i :: 'a :: ab_group_add)"
proof -
  have c: "c \<in> dom I" using assms by auto
  have "(\<Sum>k \<in> dom I - {c}. g (the ((I(c \<mapsto> i')) k))) = (\<Sum>k \<in> dom I - {c}. g (the (I k)))" by (intro sum.cong) auto
  then show ?thesis
    using assms(2) by (simp only: sum.remove [OF assms(1) c]) simp
qed

text \<open>An inode and its chunks replaced, with the difference charged.\<close>

lemma acct_change:
  assumes a: "acct_ok cs f" and i: "fs_inode f c = Some i" and b: "bill_ok cs C i'"
    and g: "fs_inode g = (fs_inode f)(c \<mapsto> i')" "fs_chunk g = (fs_chunk f)(c := C)" "fs_inodes g = fs_inodes f"
      "fs_bytes g = fs_bytes f + (i_billed_bytes i' - i_billed_bytes i)" "\<And>k. fs_orphan f k \<noteq> None \<Longrightarrow> fs_orphan g k \<noteq> None"
  shows "acct_ok cs g"
proof -
  note A = acct_okD [OF a]
  have d: "dom (fs_inode g) = dom (fs_inode f)" using i by (auto simp: g)
  have "fs_bytes g = (\<Sum>k \<in> dom (fs_inode g). i_billed_bytes (the (fs_inode g k)))"
    unfolding d using sum_upd [OF A(1) i, of i_billed_bytes i'] by (simp add: g A(3))
  moreover have "bill_ok cs (fs_chunk g k) j" if "fs_inode g k = Some j" for k j
    using that A(4) [of k j] b by (auto simp: g split: if_splits)
  moreover have "fs_orphan g k \<noteq> None" if "fs_inode g k = None" "fs_chunk g k \<noteq> Map.empty" for k
    using that A(5) [of k] by (intro g(5)) (simp add: g(1,2) split: if_splits)
  ultimately show ?thesis unfolding acct_ok_def using A(1,2) g(3) d by auto
qed

lemma acct_put_inode:
  assumes a: "acct_ok cs f" and i: "fs_inode f c = Some i"
    and s: "i_billed_bytes i' = i_billed_bytes i" "i_size i' = i_size i" "i_kind i' = i_kind i"
  shows "acct_ok cs (put_inode c i' f)"
  by (rule acct_change [OF a i, where C = "fs_chunk f c" and i' = i'])
     (use acct_okD(4) [OF a i] s in \<open>auto simp: put_inode_def bill_ok_def\<close>)

lemma chunks_billed_empty [simp]: "chunks_billed cs Map.empty sz = 0"
  by (simp add: chunks_billed_def chunk_billed_def)

lemma acct_new:
  assumes a: "acct_ok cs f" and c: "fs_inode f c = None" "fs_chunk f c = Map.empty"
    and i: "i_billed_bytes i = 0" "i_kind i = File \<Longrightarrow> i_size i = 0"
  shows "acct_ok cs (put_inode c i (charge 0 1 f))"
proof -
  note A = acct_okD [OF a]
  have d: "dom (fs_inode (put_inode c i (charge 0 1 f))) = insert c (dom (fs_inode f))" "c \<notin> dom (fs_inode f)"
    using c by (auto simp: fs_steps)
  have "fs_inodes (put_inode c i (charge 0 1 f)) = of_nat (card (dom (fs_inode (put_inode c i (charge 0 1 f)))))"
    unfolding d(1) using A(1,2) d(2) by (simp add: fs_steps)
  moreover have "fs_bytes (put_inode c i (charge 0 1 f)) =
      (\<Sum>k \<in> dom (fs_inode (put_inode c i (charge 0 1 f))). i_billed_bytes (the (fs_inode (put_inode c i (charge 0 1 f)) k)))"
    unfolding d(1) using A(1,3) d(2) i
    by (simp add: fs_steps) (intro sum.cong, auto)
  moreover have "bill_ok cs Map.empty i" using i by (simp add: bill_ok_def chunks_inside_def)
  ultimately show ?thesis
    unfolding acct_ok_def using A(1,4,5) c by (auto simp: fs_steps)
qed

lemma acct_gone:
  assumes a: "acct_ok cs f" and c: "fs_inode f c = Some i"
    and g: "fs_inode g = (fs_inode f)(c := None)" "fs_chunk g = fs_chunk f" "fs_inodes g = fs_inodes f - 1"
      "fs_bytes g = fs_bytes f - i_billed_bytes i" "\<And>k. fs_orphan f k \<noteq> None \<Longrightarrow> fs_orphan g k \<noteq> None"
    and o: "fs_chunk f c \<noteq> Map.empty \<Longrightarrow> fs_orphan g c \<noteq> None"
  shows "acct_ok cs g"
proof -
  note A = acct_okD [OF a]
  have d: "dom (fs_inode g) = dom (fs_inode f) - {c}" "c \<in> dom (fs_inode f)" using c by (auto simp: g)
  then have "0 < card (dom (fs_inode f))" using A(1) by (auto simp: card_gt_0_iff)
  then have "fs_inodes g = of_nat (card (dom (fs_inode g)))"
    using A(1,2) d by (simp add: g of_nat_diff Suc_leI)
  moreover have "fs_bytes g = (\<Sum>k \<in> dom (fs_inode g). i_billed_bytes (the (fs_inode g k)))"
    unfolding d(1) using sum.remove [OF A(1) d(2), of "\<lambda>k. i_billed_bytes (the (fs_inode f k))"] c
    by (simp add: g(1,4) A(3))
  moreover have "fs_orphan g k \<noteq> None" if "fs_inode g k = None" "fs_chunk g k \<noteq> Map.empty" for k
  proof (cases "k = c")
    case True
    then show ?thesis using o that by (simp add: g(2))
  next
    case False
    show ?thesis by (rule g(5)) (use that A(5) [of k] False in \<open>simp add: g(1,2)\<close>)
  qed
  ultimately show ?thesis
    unfolding acct_ok_def using A(1,4) d by (auto simp: g(1,2) split: if_splits)
qed

section \<open>Effects on names\<close>

lemma acct_add_node:
  assumes a: "acct_ok cs f" and p: "fs_inode f p = Some dir" and c: "unused c f"
    and child: "i_billed_bytes child = 0" "i_kind child = File \<Longrightarrow> i_size child = 0"
  shows "acct_ok cs (add_node ts enc p dir name c child target f)"
proof -
  have "acct_ok cs (put_inode c child (charge 0 1 f))"
    by (rule acct_new [OF a]) (use c child in \<open>auto simp: unused_def\<close>)
  moreover have "p \<noteq> c" using p c by (auto simp: unused_def)
  ultimately show ?thesis
    using p unfolding add_node_def charge_commute
    by (auto simp: grown_dir_def touch_mtime_def Let_def intro!: acct_put_inode [where i = dir])
qed

lemma acct_add_link:
  assumes a: "acct_ok cs f" and p: "fs_inode f p = Some dir" "fs_inode f c = Some i" "i_kind dir = Dir" "i_kind i \<noteq> Dir"
  shows "acct_ok cs (add_link ts enc p dir name c i f)"
proof -
  have "acct_ok cs (put_inode c (i\<lparr>i_nlink := i_nlink i + 1, i_ctime := ts\<rparr>) f)" by (rule acct_put_inode [OF a p(2)]) simp_all
  moreover have "p \<noteq> c" using p by auto
  ultimately show ?thesis
    unfolding add_link_def by (intro acct_put_inode [of _ _ p dir]) (use p in \<open>auto simp: touch_mtime_def\<close>)
qed

lemma acct_drop_link:
  assumes a: "acct_ok cs f" and i: "fs_inode f c = Some i"
  shows "acct_ok cs (drop_link opened ts ts2 c i f)"
proof -
  have o: "acct_ok cs (put_orphan c x f)" for x using a by (auto simp: acct_ok_def put_orphan_def)
  show ?thesis
  proof (cases "i_nlink i = 1 \<and> \<not> opened")
    case True
    then show ?thesis
      by (intro acct_gone [OF o [of "orphan_of i"], of c i]) (use i in \<open>auto simp: drop_link_def buried_def fs_steps orphan_of_def\<close>)
  next
    case False
    then show ?thesis
      using i a o by (auto simp: drop_link_def buried_def orphan_of_def intro!: acct_put_inode [where i = i])
  qed
qed

lemma acct_unlink:
  assumes a: "acct_ok cs f" and p: "fs_inode f p = Some dir" "fs_inode f (d_child_ino d) = Some i" "p \<noteq> d_child_ino d"
  shows "acct_ok cs (unlink_fs opened ts ts2 p dir name d i f)"
  unfolding unlink_fs_def
  by (rule acct_drop_link) (use a p in \<open>auto simp: touch_mtime_def intro!: acct_put_inode [where i = dir]\<close>)

lemma acct_reaped:
  assumes a: "acct_ok cs f" and c: "fs_inode f c = None"
  shows "acct_ok cs (reaped c f)"
  using a c by (auto simp: acct_ok_def reaped_def)

lemma acct_cut_dead:
  assumes a: "acct_ok cs f" and c: "fs_inode f c = None"
  shows "acct_ok cs (cut_chunks c idxs f)"
proof -
  have "fs_chunk f c \<noteq> Map.empty" if "(\<lambda>idx. if idx \<in> set idxs then None else fs_chunk f c idx) \<noteq> Map.empty"
    using that by auto
  then show ?thesis using a c by (auto simp: acct_ok_def cut_chunks_def)
qed

lemma acct_del_dir:
  assumes a: "acct_ok cs f" and c: "fs_inode f c = Some i" "i_kind i = Dir"
  shows "acct_ok cs (del_inode c (charge 0 (- 1) f))"
proof (rule acct_gone [OF a c(1)])
  have "bill_ok cs (fs_chunk f c) i" by (rule acct_okD(4) [OF a c(1)])
  then show "fs_bytes (del_inode c (charge 0 (- 1) f)) = fs_bytes f - i_billed_bytes i"
    "fs_chunk f c \<noteq> Map.empty \<Longrightarrow> fs_orphan (del_inode c (charge 0 (- 1) f)) c \<noteq> None"
    using c by (auto simp: bill_ok_def fs_steps)
qed (simp_all add: fs_steps)

lemma acct_rmdir:
  assumes a: "acct_ok cs f" and p: "fs_inode f p = Some dir" and i: "fs_inode f (d_child_ino d) = Some i" "i_kind i = Dir" "p \<noteq> d_child_ino d"
  shows "acct_ok cs (rmdir_fs ts p dir name d f)"
proof -
  have c: "charge 0 (- 1) (del_inode (d_child_ino d) g) = del_inode (d_child_ino d) (charge 0 (- 1) g)" for g by (simp add: fs_steps)
  show ?thesis
    unfolding rmdir_fs_def charge_commute(1,5) c
    by (rule acct_put_inode [where i = dir]) (use a p i in \<open>auto simp: touch_mtime_def intro!: acct_del_dir [where i = i]\<close>)
qed

lemma acct_expunged:
  assumes a: "acct_ok cs f" and c: "fs_orphan f c \<noteq> None"
  shows "acct_ok cs (expunged c f)"
proof (cases "fs_inode f c")
  case (Some i)
  show ?thesis by (rule acct_gone [OF a Some]) (use Some c in \<open>auto simp: expunged_def fs_steps\<close>)
qed (use a in \<open>simp add: expunged_def\<close>)

lemma expunged_gone: "fs_inode (expunged c f) c = None"
  by (simp add: expunged_def split: option.split)

lemma acct_closed: "acct_ok cs f \<Longrightarrow> acct_ok cs (closed_fs dead c final f)"
  unfolding closed_fs_def by (auto intro!: acct_reaped acct_expunged expunged_gone)

lemma acct_target:
  assumes a: "acct_ok cs f" and t: "target_wf moved np nn src tgt f"
  shows "acct_ok cs (target_fs opened ts ts2 np nn tgt f)"
    "(\<And>d i. tgt = Some (d, i) \<Longrightarrow> k \<noteq> d_child_ino d) \<Longrightarrow> fs_inode (target_fs opened ts ts2 np nn tgt f) k = fs_inode f k"
proof -
  have c: "charge 0 (- 1) (del_inode k f) = del_inode k (charge 0 (- 1) f)" for k by (simp add: fs_steps)
  show "acct_ok cs (target_fs opened ts ts2 np nn tgt f)"
    using a target_wfD [of moved np nn src _ _ f] t
    by (auto simp: target_fs_def c split: option.split intro!: acct_drop_link acct_del_dir)
  show "fs_inode (target_fs opened ts ts2 np nn tgt f) k = fs_inode f k" if "\<And>d i. tgt = Some (d, i) \<Longrightarrow> k \<noteq> d_child_ino d"
    using that by (auto simp: target_fs_def drop_link_maps split: option.split)
qed

lemma acct_rename:
  assumes a: "acct_ok cs f" and t: "target_wf moved np nn src tgt f"
    and dirs: "fs_inode f op = Some old_dir" "fs_inode f np = Some new_dir" and mv: "fs_inode f (d_child_ino src) = Some moved"
    and tc: "\<And>d i. tgt = Some (d, i) \<Longrightarrow> d_child_ino d \<noteq> op \<and> d_child_ino d \<noteq> np" and c: "d_child_ino src \<noteq> op" "d_child_ino src \<noteq> np"
  shows "acct_ok cs (rename_fs opened ts ts2 enc op on np nn src tgt old_dir new_dir moved f)"
proof -
  let ?f = "target_fs opened ts ts2 np nn tgt f"
  note A = acct_target [OF a t, where opened = opened and ts = ts and ?ts2.0 = ts2]
  have i: "fs_inode ?f op = Some old_dir" "fs_inode ?f np = Some new_dir" "fs_inode ?f (d_child_ino src) = Some moved"
    using A(2) tc dirs mv target_wfD(3) [of moved np nn src _ _ f] t by metis+
  have m: "acct_ok cs (put_inode (d_child_ino src) (renamed_inode ts dm np moved) (put_entry np e enc (del_entry op on k ?f)))" for dm e k
    by (rule acct_put_inode [where i = moved]) (use A(1) i in \<open>simp_all add: renamed_inode_def\<close>)
  have o: "acct_ok cs ((if op = np then id else put_inode op (renamed_old ts dm old_dir))
      (put_inode (d_child_ino src) (renamed_inode ts dm np moved) (put_entry np e enc (del_entry op on k ?f))))" for dm e k
  proof (cases "op = np")
    case False
    have "acct_ok cs (put_inode op (renamed_old ts dm old_dir)
        (put_inode (d_child_ino src) (renamed_inode ts dm np moved) (put_entry np e enc (del_entry op on k ?f))))"
      by (rule acct_put_inode [OF m, where i = old_dir]) (use i c in \<open>simp_all add: renamed_old_def touch_mtime_def\<close>)
    with False show ?thesis by simp
  qed (use m in simp)
  show ?thesis
    unfolding rename_fs_def Let_def
    by (rule acct_put_inode [where i = new_dir, OF o])
       (use i c in \<open>auto simp: renamed_new_def target_dir_def touch_mtime_def Let_def split: option.split\<close>)
qed

section \<open>Effects on files\<close>

lemma chunk_view: "fs_chunk (fs_of E dek m) ino = (\<lambda>idx. chunk_at m ino idx)"
  by (simp add: fs_of_def)

lemma billed_view: "file_billed m cs ino sz = chunks_billed cs (fs_chunk (fs_of E dek m) ino) sz"
  "chunks_wf m cs ino sz = chunks_inside cs (fs_chunk (fs_of E dek m) ino) sz"
  by (simp_all add: file_billed_def chunks_billed_def chunks_wf_def chunks_inside_def chunk_view)

lemma fits_wrote:
  assumes "cs_ok cs" "dat \<noteq> []" "length dat < 2 ^ 64"
    and "unat off + unat (of_nat (length dat) :: u64) < 2 ^ 64" "off + of_nat (length dat) \<le> cs * 0xFFFFFFFF"
  shows "write_fits cs off dat" "unat off + length dat \<le> unat cs * 2 ^ 32"
proof -
  have l: "unat (of_nat (length dat) :: u64) = length dat" using assms(3) by (simp add: unat_of_nat_lt)
  have m: "unat (cs * 0xFFFFFFFF) = unat cs * 0xFFFFFFFF"
    using assms(1) by (subst unat_mult_lem [THEN iffD1]) (auto simp: cs_ok_def)
  have "unat (off + of_nat (length dat)) = unat off + length dat"
    using assms(4) l by (subst unat_add_lem [THEN iffD1]) auto
  with assms(5) m have "unat off + length dat \<le> unat cs * 0xFFFFFFFF" by (simp add: word_le_nat_alt)
  then show "unat off + length dat \<le> unat cs * 2 ^ 32" by simp
  then show "write_fits cs off dat" using assms l by (simp add: write_fits_def)
qed

lemma acct_wrote:
  assumes E: "env_ok E" and a: "acct_ok (v_chunk_size s) (vfs E s)" and cs: "cs_ok (v_chunk_size s)"
    and dat: "dat \<noteq> []" "length dat < 2 ^ 64" and w: "wrote E creds s ino off dat t"
  shows "acct_ok (v_chunk_size s) (vfs E t)"
proof -
  let ?cs = "v_chunk_size s" and ?m = "vcontents E s"
  from w obtain i plan ts st st' where i: "fs_inode (vfs E s) ino = Some i" "i_kind i = File"
    and len: "unat off + unat (of_nat (length dat) :: u64) < 2 ^ 64" "off + of_nat (length dat) \<le> ?cs * 0xFFFFFFFF"
    and st: "same_kv E s st" and run: "plan_write (en_engine E) ?cs ino (i_size i) off dat st = (Inr plan, st')"
    and t: "vfs E t = charge (wpl_billed_delta plan) 0 (put_inode ino (written_inode creds ts plan i) (put_file ino (wpl_puts plan) (vfs E s)))"
    unfolding wrote_def planned_write_def by blast
  have m: "st_contents (en_engine E) st = ?m" using st by simp
  note fits = fits_wrote [OF cs dat len]
  note b = acct_okD(4) [OF a i(1)]
  have wf: "chunks_wf (st_contents (en_engine E) st) ?cs ino (i_size i)"
    using b by (simp add: m billed_view(2) [of _ _ _ _ E "v_dek s"] bill_ok_def)
  note P = plan_write_wf [OF env_okD(1) [OF E] fits(1) wf run] plan_write_billed [OF env_okD(1) [OF E] fits(1) wf run]
  have sz: "unat (wpl_new_size plan) \<le> unat ?cs * 2 ^ 32"
    using b i fits(2) by (simp add: plan_write_puts [OF env_okD(1) [OF E] run] unat_max write_window [OF fits(1)] bill_ok_def)
  let ?C = "fs_chunk (put_file ino (wpl_puts plan) (vfs E s)) ino"
  show ?thesis
  proof (rule acct_change [OF a i(1), where C = ?C and i' = "written_inode creds ts plan i"])
    show "bill_ok ?cs ?C (written_inode creds ts plan i)"
      using P sz b i(2)
      by (simp add: m billed_view [of _ _ _ _ E "v_dek s"] bill_ok_def written_inode_def touch_mtime_def Let_def)
  qed (simp_all add: t put_file_simps put_file_def written_inode_def touch_mtime_def Let_def fs_steps)
qed

definition same_bill :: "inode \<Rightarrow> inode \<Rightarrow> bool" where
  "same_bill i i' = (i_billed_bytes i' = i_billed_bytes i \<and> i_size i' = i_size i \<and> i_kind i' = i_kind i)"

lemma same_bill_trans: "same_bill i j \<Longrightarrow> same_bill j k \<Longrightarrow> same_bill i k"
  by (simp add: same_bill_def)

lemma setattr_gate_bill:
  "setattr_mode creds own m i = Inr i' \<Longrightarrow> same_bill i i'" "setattr_uid creds own u i = Inr i' \<Longrightarrow> same_bill i i'"
  "setattr_gid creds own g i = Inr i' \<Longrightarrow> same_bill i i'" "setattr_time creds own ts atime slot i = Inr i' \<Longrightarrow> same_bill i i'"
  by (auto simp: same_bill_def Let_def setattr_mode_def setattr_uid_def setattr_gid_def setattr_time_def set_time_of_def
      split: option.splits if_splits time_set.splits sum.splits)

lemma setattr_gates_bill: "setattr_gates creds ts attrs i = Inr i' \<Longrightarrow> same_bill i i'"
  unfolding setattr_gates_def and_then_Inr Let_def by (elim exE conjE) (meson setattr_gate_bill same_bill_trans)

lemma put_tail_chunks: "put_tail ino (tp_tail_put plan) m = put_chunks ino (tail_puts plan) m"
  by (simp add: put_tail_def tail_puts_def put_chunks_def split: option.split)

lemma cut_file_view:
  "fs_chunk (cut_chunks ino (tp_deletes plan) (put_file ino (tail_puts plan) (fs_of E dek m))) = fs_chunk (fs_of E dek (cut_file ino plan m))"
  by (simp add: cut_file_def put_tail_chunks)

text \<open>The new size of a file, and what its chunks are billed then.\<close>

lemma bill_resized:
  assumes E: "env_ok E" and sk: "schema_keys (vcontents E s)" and ino: "ino \<noteq> - 1" and cs: "cs_ok (v_chunk_size s)"
    and b: "bill_ok (v_chunk_size s) (fs_chunk (vfs E s) ino) i" and k: "i_kind i = File"
    and lim: "unat n < unat (v_chunk_size s) * 2 ^ 32" and p: "planned_truncate E s ino (i_size i) n plan"
  shows "bill_ok (v_chunk_size s) (fs_chunk (fs_of E dek (cut_file ino plan (vcontents E s))) ino)
    (i\<lparr>i_size := n, i_billed_bytes := i_billed_bytes i + tp_billed_delta plan, i_mtime := ts\<rparr>)"
proof -
  let ?cs = "v_chunk_size s" and ?m = "vcontents E s"
  from p obtain st st' where st: "st_contents (en_engine E) st = ?m"
    and run: "plan_truncate (en_engine E) ?cs ino (i_size i) n st = (Inr plan, st')" by (auto simp: planned_truncate_def)
  have wf: "chunks_wf ?m ?cs ino (i_size i)" and bill: "i_billed_bytes i = file_billed ?m ?cs ino (i_size i)"
    using b by (simp_all add: billed_view [of _ _ _ _ E "v_dek s"] bill_ok_def)
  have "chunks_wf (cut_file ino plan ?m) ?cs ino n \<and>
    tp_billed_delta plan = file_billed (cut_file ino plan ?m) ?cs ino n - file_billed ?m ?cs ino (i_size i)"
  proof (cases "i_size i \<le> n")
    case True
    then have "plan = no_plan" using run by (simp add: plan_truncate_def Let_def returnE_def no_plan_def)
    then have "cut_file ino plan ?m = ?m" "tp_billed_delta plan = 0" by (simp_all add: cut_file_def put_tail_def drop_chunks_def no_plan_def)
    moreover have le: "unat (i_size i) \<le> unat n" using True by (simp add: word_le_nat_alt)
    ultimately show ?thesis using grow_wf [OF wf le] grow_billed [OF wf cs le] by simp
  next
    case False
    note T = env_okD(1) [OF E] cs ino sk [folded st]
    from truncate_wf [OF T wf [folded st] False lim run] truncate_billed [OF T chunks_wfD(1) [OF wf [folded st]] False lim run]
    show ?thesis by (simp add: st)
  qed
  with lim k bill show ?thesis
    by (simp add: billed_view [of _ _ _ _ E dek] billed_view [of ?m _ _ _ E "v_dek s"] bill_ok_def)
qed

lemma acct_attrs_set:
  assumes E: "env_ok E" and inv: "vol_inv E s" and a: "acct_ok (v_chunk_size s) (vfs E s)" and cs: "cs_ok (v_chunk_size s)"
    and lim: "\<And>n. s_size attrs = Some n \<Longrightarrow> unat n < unat (v_chunk_size s) * 2 ^ 32"
    and set: "attrs_set E creds s ino attrs i plan" and t: "vfs E t = set_attr_fs ino i plan (tp_deletes plan) (vfs E s)"
  shows "acct_ok (v_chunk_size s) (vfs E t)"
proof -
  let ?cs = "v_chunk_size s" and ?m = "vcontents E s"
  from set obtain i0 ts i1 i2 where i: "fs_inode (vfs E s) ino = Some i0" "setattr_gates creds ts attrs i0 = Inr i1"
    "sized E creds s ino ts (s_size attrs) i1 i2 plan" "i = i2\<lparr>i_ctime := ts\<rparr>" by (auto simp: attrs_set_def)
  note g = setattr_gates_bill [OF i(2), unfolded same_bill_def]
  have b: "bill_ok ?cs (fs_chunk (vfs E s) ino) i1" using acct_okD(4) [OF a i(1)] g by (simp add: bill_ok_def)
  have ino: "ino \<noteq> - 1" using used_ino [OF inv i(1)] by (metis word_not_simps(3))
  have n: "fs_of E (v_dek s) (cut_file ino no_plan ?m) = vfs E s"
    by (simp add: cut_file_def put_tail_def drop_chunks_def no_plan_def)
  have "bill_ok ?cs (fs_chunk (fs_of E (v_dek s) (cut_file ino plan ?m)) ino) i \<and> i_billed_bytes i = i_billed_bytes i0 + tp_billed_delta plan"
  proof (cases "i2 = i1 \<and> plan = no_plan")
    case True
    then show ?thesis using b g i(4) by (simp add: n bill_ok_def) (simp add: no_plan_def)
  next
    case False
    then obtain n where n: "s_size attrs = Some n" "i_kind i1 = File" "planned_truncate E s ino (i_size i1) n plan"
      "i2 = i1\<lparr>i_size := n, i_billed_bytes := i_billed_bytes i1 + tp_billed_delta plan, i_mtime := ts\<rparr>"
      using i(3) by (auto simp: sized_def split: option.splits if_splits)
    from bill_resized [OF E vol_invD(2) [OF inv] ino cs b n(2) lim [OF n(1)] n(3)] g show ?thesis
      by (simp add: i(4) n(4) bill_ok_def)
  qed
  then show ?thesis
    by (intro acct_change [OF a i(1), where i' = i and C = "fs_chunk (fs_of E (v_dek s) (cut_file ino plan ?m)) ino"])
       (auto simp: t set_attr_fs_def cut_file_view [symmetric] cut_chunks_def put_file_def fs_steps)
qed

end
