(* ===== verification/Vfs_Reads.thy ===== *)
theory Vfs_Reads
  imports Accounting
begin

text \<open>
  The operations that look: \<open>lookup\<close>, \<open>getattr\<close>, \<open>read\<close>, \<open>readlink\<close>, \<open>readdir\<close>,
  extended attributes, permissions, usage, and handles and locks. Whatever they return is
  what the abstract file system holds, cached or not; only \<open>read\<close> changes anything, the
  access time of the file it reads.
\<close>

section \<open>Loading through the cache\<close>

lemma cache_get_ok:
  assumes inv: "vol_inv E s" and c: "cache_le c (v_attrs s)" "ac_attrs c ino = Some i"
  shows "fs_inode (vfs E s) ino = Some i"
proof -
  have "ac_attrs (v_attrs s) ino = Some i" using c by (auto simp: cache_le_def map_le_def dom_def)
  then show ?thesis using vol_invD(3) [OF inv] by (auto simp: cache_ok_def)
qed

lemma cache_insert_ok:
  assumes inv: "vol_inv E s" and i: "fs_inode (vfs E s) ino = Some i"
    and t: "same_kv E s (v_store t)" "cache_le c (v_attrs s)" "v_attrs t = cache_insert ino i c" "v_alloc t = v_alloc s"
      "quota_usage (v_quota t) = quota_usage (v_quota s)" "hframe s t"
  shows "undone E s t"
proof -
  have d: "v_dek t = v_dek s" using t by (simp add: hframe_def vframe_def)
  have v: "vfs E t = vfs E s" using t d by simp
  have "cache_ok c (vfs E s)" using t(2) vol_invD(3) [OF inv] by (rule cache_ok_le)
  then have "cache_ok (v_attrs t) (vfs E s)" using i t(3) by (auto simp: cache_ok_def cache_insert_def)
  then have "vol_inv E t"
    using inv t v by (intro vol_invI [OF inv v]) (auto simp: vol_inv_def)
  with t v show ?thesis by (simp add: undone_def)
qed

lemma load_inode_cachedI:
  assumes E: "env_ok E" and u: "undone E s0 s"
    and Q: "\<And>i t. undone E s0 t \<Longrightarrow> fs_inode (vfs E s0) ino = Some i \<Longrightarrow> Q i t" and R: "\<And>e t. undone E s0 t \<Longrightarrow> R e t"
  shows "wp (load_inode_cached E ino) Q R s"
proof -
  have inv: "vol_inv E s" and v: "vfs E s = vfs E s0" using u by (auto simp: undone_def)
  have i: "undone E s0 t" if "idle E s t" for t
    by (rule undone_trans [OF u idle_undone [OF inv that]])
  show ?thesis
    unfolding load_inode_cached_def
  proof (intro wp_base [OF E] wp_rules, goal_cases)
    case (1 c st h i sta ha)
    then show ?case
      by (intro Q undone_trans [OF u cache_insert_ok [OF inv]]) (auto simp: hframe_def vframe_def simp flip: v)
  next
    case (2 c st h e sta ha)
    then show ?case by (intro R i) (auto simp: idle_def hframe_def vframe_def)
  next
    case (3 c st h i)
    then show ?case
      by (intro Q i) (auto simp: idle_def hframe_def vframe_def dest: cache_get_ok [OF inv] simp flip: v)
  qed (use R u in auto)
qed

lemma undone_settle [simp]: "undone E s t \<Longrightarrow> same_kv E t st \<Longrightarrow> undone E s (settle t st h)"
  using idle_undone [of E t "settle t st h"] undone_trans [of E s t "settle t st h"] by (auto simp: undone_def)

lemma undone_view: "undone E s t \<Longrightarrow> vfs E t = vfs E s"
  by (simp add: undone_def)

lemma undone_handles: "undone E s t \<Longrightarrow> v_chunk_size t = v_chunk_size s"
  by (simp add: undone_def hframe_def vframe_def)

section \<open>Names and attributes\<close>

definition looked_up :: "credentials \<Rightarrow> u64 \<Rightarrow> bytes \<Rightarrow> file_attr \<Rightarrow> fs \<Rightarrow> bool" where
  "looked_up creds p name a f =
     (\<exists>dir. fs_inode f p = Some dir \<and> i_kind dir = Dir \<and> access creds dir ACCESS_X = Inr () \<and>
        (if name = [46] then a = make_attr p dir
         else if name = [46, 46] then \<exists>i. fs_inode f (i_parent_dir dir) = Some i \<and> a = make_attr (i_parent_dir dir) i
         else validate_name name = Inr () \<and>
           (\<exists>d i. fs_dirent f p name = Some d \<and> fs_inode f (d_child_ino d) = Some i \<and> a = make_attr (d_child_ino d) i)))"

lemma load_dir_cachedI:
  assumes E: "env_ok E" and u: "undone E s0 s"
    and Q: "\<And>i t. undone E s0 t \<Longrightarrow> fs_inode (vfs E s0) ino = Some i \<Longrightarrow> i_kind i = Dir \<Longrightarrow> Q i t" and R: "\<And>e t. undone E s0 t \<Longrightarrow> R e t"
  shows "wp (load_dir_cached E ino) Q R s"
  unfolding load_dir_cached_def
  by (intro load_inode_cachedI [OF E u] wp_rules) (use Q R in \<open>auto simp: is_dir_def\<close>)

lemma negative_idle:
  assumes u: "undone E s0 t" and st: "same_kv E t st" and c: "cache_le c (v_attrs t)"
  shows "undone E s0 ((settle t st h)\<lparr>v_attrs := c\<rparr>)"
  by (rule undone_trans [OF u idle_undone]) (use u st c in \<open>auto simp: undone_def idle_def hframe_def vframe_def\<close>)

lemma negative_settled:
  assumes u: "undone E s0 t" and st: "same_kv E t st" and c: "cache_le c (v_attrs t)" and sta: "same_kv E t sta"
  shows "undone E s0 (settle ((settle t st h)\<lparr>v_attrs := c\<rparr>) sta ha)"
  by (rule undone_settle [OF negative_idle [OF u st c]]) (use st sta in simp)

lemma insert_negative_undone:
  assumes u: "undone E s0 t" and d: "fs_dirent (vfs E s0) p name = None"
  shows "undone E s0 (t\<lparr>v_attrs := cache_insert_negative p name (v_attrs t)\<rparr>)"
  using u d by (auto simp: undone_def vol_inv_def cache_ok_def cache_insert_negative_def hframe_def vframe_def)

lemma negative_inserted:
  assumes "undone E s0 t" "same_kv E t st" "cache_le c (v_attrs t)" "same_kv E t sta" "fs_dirent (vfs E s0) p name = None"
  shows "undone E s0 ((settle ((settle t st h)\<lparr>v_attrs := c\<rparr>) sta ha)\<lparr>v_attrs := cache_insert_negative p name c\<rparr>)"
  using insert_negative_undone [OF negative_settled [OF assms(1-4), of h ha] assms(5)] by simp

lemma lookup_wp:
  assumes E: "env_ok E" and inv: "vol_inv E s"
  shows "wp (lookup E creds p name) (\<lambda>a t. undone E s t \<and> looked_up creds p name a (vfs E s))
    (\<lambda>e t. undone E s t) s"
  unfolding lookup_def
  by (intro load_dir_cachedI [OF E undone_refl [OF inv]] load_inode_cachedI [OF E] wp_base [OF E] wp_rules)
     (auto simp: looked_up_def undone_view intro: negative_idle negative_settled negative_inserted)

lemma getattr_wp:
  assumes E: "env_ok E" and inv: "vol_inv E s"
  shows "wp (getattr E creds ino) (\<lambda>a t. undone E s t \<and> (\<exists>i. fs_inode (vfs E s) ino = Some i \<and> a = make_attr ino i))
    (\<lambda>e t. undone E s t) s"
  unfolding getattr_def
  by (intro load_inode_cachedI [OF E undone_refl [OF inv]] wp_rules) auto

lemma readlink_wp:
  assumes E: "env_ok E" and inv: "vol_inv E s"
  shows "wp (readlink E creds ino) (\<lambda>b t. undone E s t \<and> fs_symlink (vfs E s) ino = Some b) (\<lambda>e t. undone E s t) s"
  unfolding readlink_def
  by (intro wp_base [OF E] wp_rules) (auto simp: idle_undone [OF inv] fs_of_def)

lemma getxattr_wp:
  assumes E: "env_ok E" and inv: "vol_inv E s"
  shows "wp (getxattr E creds ino name)
    (\<lambda>b t. undone E s t \<and> fs_xattr (vfs E s) ino name = Some b \<and> (\<exists>i. fs_inode (vfs E s) ino = Some i \<and> access creds i ACCESS_R = Inr ()))
    (\<lambda>e t. undone E s t) s"
  unfolding getxattr_def
  by (intro wp_base [OF E] wp_rules) (auto simp: idle_undone [OF inv] undone_refl [OF inv] fs_of_def)

lemma xattr_namesI:
  assumes E: "env_ok E" and Q: "\<And>st h. same_kv E s st \<Longrightarrow> Q (names @ map (\<lambda>(k, v). drop 9 k) kvs) (settle s st h)"
    and R: "\<And>e st h. same_kv E s st \<Longrightarrow> R e (settle s st h)"
  shows "wp (xattr_names E kvs names) Q R s"
  using Q R
proof (induction kvs arbitrary: names s)
  case Nil
  then show ?case by (auto intro!: wp_base [OF E] wp_rules)
next
  case (Cons kv kvs)
  show ?case
    by (cases kv; simp only: xattr_names.simps; intro Cons.IH wp_base [OF E] wp_rules) (use Cons.prems in auto)
qed

lemma listxattr_wp:
  assumes E: "env_ok E" and inv: "vol_inv E s"
  shows "wp (listxattr E creds ino)
    (\<lambda>ns t. undone E s t \<and> distinct ns \<and> set ns = dom (fs_xattr (vfs E s) ino)) (\<lambda>e t. undone E s t) s"
  unfolding listxattr_def
proof (intro xattr_namesI [OF E] wp_base [OF E] wp_rules, goal_cases)
  case (1 i st h x kvs sta ha stb hb)
  have ne: "ino \<noteq> - 1" using used_ino [OF inv, of ino i] 1 by (metis word_not_simps(3))
  have sc: "scan_of (vcontents E s) (xattr_prefix ino) (xattr_prefix (ino + 1)) kvs" using 1 by simp
  have ks: "set (map fst kvs) = (\<lambda>n. key_bytes (KXattr ino n)) ` dom (fs_xattr (vfs E s) ino)"
    by (rule xattr_names_of [OF ne vol_invD(2) [OF inv] sc])
  have key: "drop 9 (key_bytes (KXattr ino n)) = n" for n by (simp add: key_defs)
  have ns: "map (\<lambda>(k, v). drop 9 k) kvs = map (drop 9) (map fst kvs)" by (simp add: case_prod_beta)
  have "inj_on (drop 9) (set (map fst kvs))" unfolding ks by (auto simp: inj_on_def key)
  moreover have "distinct (map fst kvs)" using sc by (simp add: scan_of_def sorted_wrt_less_distinct)
  ultimately have D: "distinct (map (\<lambda>(k, v). drop 9 k) kvs)" unfolding ns by (subst distinct_map) simp
  have "drop 9 ` set (map fst kvs) = dom (fs_xattr (vfs E s) ino)" unfolding ks by (force simp: key)
  then have S: "set (map (\<lambda>(k, v). drop 9 k) kvs) = dom (fs_xattr (vfs E s) ino)" unfolding ns set_map .
  show ?case using 1 D S by (simp add: idle_undone [OF inv])
qed (simp_all add: idle_undone [OF inv])

section \<open>Reading\<close>

text \<open>What a read may leave behind: a newer access time.\<close>

definition read_fs :: "u64 \<Rightarrow> fs \<Rightarrow> fs \<Rightarrow> bool" where
  "read_fs ino f g = (g = f \<or> (\<exists>i ts. fs_inode f ino = Some i \<and> g = put_inode ino (i\<lparr>i_atime := ts\<rparr>) f))"

lemma tree_read:
  assumes tree: "tree_ok E s" and hf: "hframe s t" and r: "read_fs ino (vfs E s) (vfs E t)"
  shows "tree_ok E t"
proof -
  have "ns_ok (sealed E (v_dek s)) (vfs E t)"
    using r tree unfolding read_fs_def tree_ok_def by (auto intro!: ns_put_inode simp: same_shape_def)
  then show ?thesis using hf by (rule tree_frameI)
qed

lemma acct_read: "acct_ok cs f \<Longrightarrow> read_fs ino f g \<Longrightarrow> acct_ok cs g"
  by (auto simp: read_fs_def intro!: acct_put_inode)

lemma wp_plan_readahead:
  assumes "\<And>r ra. Q r (s\<lparr>v_readahead := ra\<rparr>)"
  shows "wp (plan_readahead ino off stop sz) Q R s"
  using assms [of _ "v_readahead s"] assms
  by (auto simp: wp_def plan_readahead_def Let_def split: prod.splits)

lemma undone_readahead [simp]: "undone E s0 (t\<lparr>v_readahead := ra\<rparr>) = undone E s0 t"
  by (simp add: undone_def vol_inv_def hframe_def vframe_def)

definition read_end :: "'db env \<Rightarrow> 'db volume \<Rightarrow> u64 \<Rightarrow> 'db volume \<Rightarrow> bool" where
  "read_end E s ino t = (vol_inv E t \<and> hframe s t \<and> read_fs ino (vfs E s) (vfs E t))"

lemma undone_read_end: "undone E s t \<Longrightarrow> read_end E s ino t"
  by (simp add: undone_def read_end_def read_fs_def)

lemma undone_health [simp]: "undone E s0 (t\<lparr>v_health := h\<rparr>) = undone E s0 t"
  by (simp add: undone_def vol_inv_def hframe_def vframe_def)

lemma wp_raw_get:
  assumes E: "env_ok E" and Q: "\<And>r st h. same_kv E s st \<Longrightarrow> (\<And>v. r = Inr v \<Longrightarrow> v = vcontents E s k) \<Longrightarrow> Q r (settle s st h)"
  shows "wp (attemptE (in_store (store_get (en_engine E) k))) Q R s"
proof -
  have "Q (eg_get (en_engine E) (st_db (v_store s)) (st_ticks (v_store s)) k) (settle s (tick (v_store s)) (v_health s))"
    by (rule Q) (use engine_getD [OF env_okD(1) [OF E]] in auto)
  then show ?thesis by (simp add: wp_def attemptE_def in_store_def store_get_def settle_folds)
qed

lemma atime_put:
  assumes u: "undone E s0 s" and i: "fs_inode (vfs E s0) ino = Some i" and bs: "inode_decode (en_codecs E) bs = Inr (i\<lparr>i_atime := ts\<rparr>)"
    and st: "st_contents (en_engine E) st = (vcontents E s)(key_bytes (KInode ino) \<mapsto> bs)"
  shows "read_end E s0 ino ((settle s st h)\<lparr>v_attrs := cache_insert ino (i\<lparr>i_atime := ts\<rparr>) (v_attrs s)\<rparr>)"
proof -
  let ?t = "(settle s st h)\<lparr>v_attrs := cache_insert ino (i\<lparr>i_atime := ts\<rparr>) (v_attrs s)\<rparr>"
  let ?f = "put_inode ino (i\<lparr>i_atime := ts\<rparr>) (vfs E s)"
  have inv: "vol_inv E s" and v: "vfs E s = vfs E s0" and hf: "hframe s0 s" using u by (auto simp: undone_def)
  have f: "vfs E ?t = ?f" using st bs by (simp add: put_inode_def)
  have un: "ino < al_next (v_alloc s)" by (rule used_ino [OF inv]) (use i v in simp)
  have c: "cache_ok (v_attrs ?t) ?f" using vol_invD(3) [OF inv] by (auto simp: cache_ok_def cache_defs put_inode_def)
  have "vol_inv E ?t"
    by (rule vol_invI [OF inv f _ _ c]) (use vol_invD [OF inv] st un in \<open>auto simp: put_inode_simps quota_usage_def\<close>)
  moreover have "read_fs ino (vfs E s0) (vfs E ?t)" unfolding f v read_fs_def using i by blast
  ultimately show ?thesis using hf by (simp add: read_end_def hframe_def vframe_def)
qed

lemma maybe_update_atimeI:
  fixes R :: "'e \<Rightarrow> 'db volume \<Rightarrow> bool"
  assumes E: "env_ok E" and u: "undone E s0 s" and Q: "\<And>t. read_end E s0 ino t \<Longrightarrow> Q () t"
  shows "wp (maybe_update_atime E ino i policy) Q R s"
proof -
  have q: "Q () t" if "undone E s0 t" for t by (rule Q [OF undone_read_end [OF that]])
  show ?thesis
    unfolding maybe_update_atime_def
  proof (intro wp_raw_get [OF E] wp_base [OF E] wp_rules, goal_cases)
    case (7 ts st h r sta ha x bs current current' encoded stb hb)
    have "vcontents E s (key_bytes (KInode ino)) = Some bs" using 7 by simp
    then have "fs_inode (vfs E s0) ino = Some current"
      unfolding undone_view [OF u, symmetric] using 7 by (simp add: fs_of_def)
    moreover have "inode_decode (en_codecs E) encoded = Inr (current\<lparr>i_atime := ts\<rparr>)"
      using 7 decode_encode(1) [OF env_okD(2) [OF E]] by simp
    ultimately show ?case
      using 7 atime_put [OF undone_settle [OF undone_settle [OF u, of st h], of sta ha], of ino current encoded ts stb hb]
      by (intro Q) auto
  qed (use u q in auto)
qed

text \<open>The bytes of a file in the abstract file system, and those a read returns.\<close>

definition content :: "u64 \<Rightarrow> fs \<Rightarrow> u64 \<Rightarrow> bytes" where
  "content cs f ino =
     (case fs_inode f ino of
        None \<Rightarrow> []
      | Some i \<Rightarrow> map (\<lambda>j. byte_of (fs_chunk f ino (of_nat (j div unat cs))) (j mod unat cs)) [0 ..< unat (i_size i)])"

lemma content_view: "fs_inode (fs_of E dek m) ino = Some i \<Longrightarrow> content cs (fs_of E dek m) ino = file_bytes m cs ino (i_size i)"
  by (simp add: content_def file_bytes_def byte_at_def [abs_def] chunk_view)

lemma read_with_atime_policy_wp:
  assumes E: "env_ok E" and inv: "vol_inv E s" and acct: "acct_ok (v_chunk_size s) (vfs E s)" and cs: "cs_ok (v_chunk_size s)"
    and ov: "unat off + unat len < 2 ^ 64"
  shows "wp (read_with_atime_policy E creds ino off len policy)
    (\<lambda>bs t. read_end E s ino t \<and> (\<exists>i. fs_inode (vfs E s) ino = Some i \<and> i_kind i = File \<and> access creds i ACCESS_R = Inr ()) \<and>
       bs = segment (unat off) (unat off + unat len) (content (v_chunk_size s) (vfs E s) ino))
    (\<lambda>e t. undone E s t) s"
proof -
  have rd: "bs = segment (unat off) (unat off + unat len) (content (v_chunk_size s) (vfs E s) ino)"
    if u: "undone E s t" and i: "fs_inode (vfs E s) ino = Some i" "i_kind i = File"
      and run: "read_range (en_engine E) (v_chunk_size t) ino (i_size i) off len (v_store t) = (Inr bs, st)" for i t bs st
  proof -
    have b: "bill_ok (v_chunk_size s) (fs_chunk (vfs E s) ino) i" by (rule acct_okD(4) [OF acct i(1)])
    have c: "chunk_at (vcontents E t) ino = chunk_at (vcontents E s) ino"
      using chunk_view [of E "v_dek t" "vcontents E t" ino] chunk_view [of E "v_dek s" "vcontents E s" ino] undone_view [OF u] by simp
    have "bs = segment (unat off) (unat off + unat len) (file_bytes (vcontents E t) (v_chunk_size s) ino (i_size i))"
      by (rule read_range_segment [OF env_okD(1) [OF E] cs _ _ ov run [unfolded undone_handles [OF u]]])
         (use b i(2) c in \<open>auto simp: bill_ok_def chunks_inside_def chunk_view fun_eq_iff\<close>)
    also have "file_bytes (vcontents E t) (v_chunk_size s) ino (i_size i) = content (v_chunk_size s) (vfs E s) ino"
      using content_view [of E "v_dek t" "vcontents E t" ino i] i undone_view [OF u] by simp
    finally show ?thesis .
  qed
  show ?thesis
    unfolding read_with_atime_policy_def
    by (intro load_inode_cachedI [OF E undone_refl [OF inv]] wp_plan_readahead maybe_update_atimeI [OF E, where ?s0.0 = s]
        wp_storage_coreI [where E = E] frame wp_rules)
       (auto intro: rd)
qed

section \<open>Listing\<close>

definition listed :: "fs \<Rightarrow> u64 \<Rightarrow> u64 \<Rightarrow> nat \<Rightarrow> read_dir \<Rightarrow> bool" where
  "listed f p cookie n r =
     (sorted_wrt (<) (map de_cookie (rd_entries r)) \<and> length (rd_entries r) \<le> n \<and>
      (\<not> rd_eof r \<longrightarrow> length (rd_entries r) = n) \<and>
      (\<forall>e \<in> set (rd_entries r). cookie < de_cookie e \<and>
         (\<exists>d. fs_dirent f p (de_name e) = Some d \<and> d_child_ino d = de_ino e \<and> d_kind d = de_kind e \<and> d_dirent_id d = de_cookie e)) \<and>
      (\<forall>m d. fs_dirent f p m = Some d \<and> cookie < d_dirent_id d \<and>
         (rd_eof r \<or> (\<exists>e \<in> set (rd_entries r). d_dirent_id d \<le> de_cookie e)) \<longrightarrow> d_dirent_id d \<in> set (map de_cookie (rd_entries r))))"

text \<open>A row of the index that decodes and opens to an entry.\<close>

definition row_entry :: "'db env \<Rightarrow> bytes \<Rightarrow> u64 \<Rightarrow> u64 \<Rightarrow> bytes \<Rightarrow> dir_entry \<Rightarrow> bool" where
  "row_entry E dek p k v e =
     (\<exists>x. dirent_idx_decode (en_codecs E) v = Inr x \<and> open_name (en_siv E) dek p (e_enc_name x) = Inr (de_name e) \<and>
        de_ino e = e_child_ino x \<and> de_kind e = e_kind x \<and> de_cookie e = k)"

lemma wp_unseal [wp_rules]:
  "(\<And>n. open_name (en_siv E) (v_dek s) p enc = Inr n \<Longrightarrow> Q n s) \<Longrightarrow> (\<And>e. R e s) \<Longrightarrow> wp (unseal E p enc) Q R s"
  by (auto simp: wp_def unseal_def mapErrE_def liftE_def split: sum.splits)

lemma readdir_entriesI:
  assumes E: "env_ok E" and u: "undone E s0 s" and len: "length es \<le> n"
    and Q: "\<And>r t es'. undone E s0 t \<Longrightarrow> rd_entries r = es @ es' \<Longrightarrow> rd_eof r = (length es + length kvs \<le> n) \<Longrightarrow>
      list_all2 (\<lambda>(k, v) e. row_entry E (v_dek s0) p k v e) (take (n - length es) kvs) es' \<Longrightarrow> Q r t"
    and R: "\<And>e t. undone E s0 t \<Longrightarrow> R e t"
  shows "wp (readdir_entries E p n (map (\<lambda>(k, v). (key_bytes (KDirentIdx p k), v)) kvs) es) Q R s"
  using u len Q R
proof (induction kvs arbitrary: es s)
  case Nil
  then show ?case by (auto intro!: wp_base [OF E] wp_rules)
next
  case (Cons kv kvs)
  obtain k v where kv: "kv = (k, v)" by (cases kv)
  have dek: "v_dek s = v_dek s0" using Cons.prems(1) by (simp add: undone_def hframe_def vframe_def)
  show ?case
    unfolding kv list.map prod.case readdir_entries.simps parse_dirent_idx_KDirentIdx option.case
  proof (intro wp_base [OF E] wp_rules Cons.IH, goal_cases)
    case (4 st h x name t r es')
    have "row_entry E (v_dek s0) p k v \<lparr>de_name = name, de_ino = e_child_ino x, de_kind = e_kind x, de_cookie = k\<rparr>"
      using 4 dek by (simp add: row_entry_def)
    with 4 Cons.prems(2) show ?case
      by (intro Cons.prems(3) [of t r "\<lparr>de_name = name, de_ino = e_child_ino x, de_kind = e_kind x, de_cookie = k\<rparr> # es'"])
         (auto simp: kv take_Cons' Suc_diff_le)
  qed (use Cons.prems kv in auto)
qed

text \<open>The rows of the index of a directory after a cookie.\<close>

lemma in_idx_scan_iff:
  "key_bytes (KDirentIdx p a) \<le> key_bytes k \<and> key_bytes k < key_bytes (KDirentIdx p b) \<longleftrightarrow>
   (\<exists>i. k = KDirentIdx p i \<and> a \<le> i \<and> i < b)"
proof -
  have "\<exists>c i. k = KDirentIdx c i" if "key_bytes (KDirentIdx p a) \<le> key_bytes k" "key_bytes k < key_bytes (KDirentIdx p b)"
    using that by (cases k) (auto simp: key_defs)
  then show ?thesis by (cases k) (auto simp: key_defs)
qed

lemma idx_scan:
  assumes sc: "scan_of m (key_bytes (KDirentIdx p a)) (key_bytes (KDirentIdx p b)) kvs" and sk: "schema_keys m"
  obtains ks where "kvs = map (\<lambda>(k, v). (key_bytes (KDirentIdx p k), v)) ks" "sorted_wrt (<) (map fst ks)"
    "\<And>k v. (k, v) \<in> set ks \<longleftrightarrow> a \<le> k \<and> k < b \<and> m (key_bytes (KDirentIdx p k)) = Some v"
proof
  define ks where "ks = map (\<lambda>(k, v). (snd (the (parse_dirent_idx k)), v)) kvs"
  have key: "\<exists>i. k = key_bytes (KDirentIdx p i) \<and> a \<le> i \<and> i < b \<and> m k = Some v" if "(k, v) \<in> set kvs" for k v
  proof -
    from that sc have m: "m k = Some v" "key_bytes (KDirentIdx p a) \<le> k" "k < key_bytes (KDirentIdx p b)" by (auto simp: scan_of_def)
    obtain k' where k': "k = key_bytes k'" using schema_keysD [OF sk m(1)] by blast
    with m in_idx_scan_iff [of p a k' b] show ?thesis by auto
  qed
  then have inv: "(\<lambda>(k, v). (key_bytes (KDirentIdx p k), v)) ((\<lambda>(k, v). (snd (the (parse_dirent_idx k)), v)) kv) = kv"
    if "kv \<in> set kvs" for kv
    using that by (cases kv) fastforce
  show kvs: "kvs = map (\<lambda>(k, v). (key_bytes (KDirentIdx p k), v)) ks"
    unfolding ks_def map_map using inv by (intro map_idI [symmetric]) simp
  have "sorted_wrt (<) (map fst kvs)" using sc by (simp add: scan_of_def)
  then show "sorted_wrt (<) (map fst ks)" unfolding kvs by (simp add: sorted_wrt_map case_prod_beta)
  show "(k, v) \<in> set ks \<longleftrightarrow> a \<le> k \<and> k < b \<and> m (key_bytes (KDirentIdx p k)) = Some v" for k v
  proof
    assume "(k, v) \<in> set ks"
    then have "(key_bytes (KDirentIdx p k), v) \<in> set kvs" unfolding kvs by force
    from key [OF this] show "a \<le> k \<and> k < b \<and> m (key_bytes (KDirentIdx p k)) = Some v" by auto
  next
    assume x: "a \<le> k \<and> k < b \<and> m (key_bytes (KDirentIdx p k)) = Some v"
    with in_idx_scan_iff [of p a "KDirentIdx p k" b] sc have "(key_bytes (KDirentIdx p k), v) \<in> set kvs" by (auto simp: scan_of_def)
    then show "(k, v) \<in> set ks" unfolding ks_def by force
  qed
qed

lemma row_entry_dirent:
  assumes E: "env_ok E" and tree: "tree_ok E s" and r: "row_entry E (v_dek s) p k v e"
    and v: "vcontents E s (key_bytes (KDirentIdx p k)) = Some v"
  shows "\<exists>d. fs_dirent (vfs E s) p (de_name e) = Some d \<and> d_child_ino d = de_ino e \<and> d_kind d = de_kind e \<and> d_dirent_id d = de_cookie e \<and> de_cookie e = k"
proof -
  from r obtain x where x: "dirent_idx_decode (en_codecs E) v = Inr x" "open_name (en_siv E) (v_dek s) p (e_enc_name x) = Inr (de_name e)"
    "de_ino e = e_child_ino x" "de_kind e = e_kind x" "de_cookie e = k" by (auto simp: row_entry_def)
  have "fs_index (vfs E s) p k = Some x" using v x(1) by (simp add: fs_of_def)
  from ns_okD(4) [OF tree [unfolded tree_ok_def] this] obtain n d where d: "fs_dirent (vfs E s) p n = Some d" "d_dirent_id d = k" by blast
  from ns_okD(3) [OF tree [unfolded tree_ok_def] d(1)] \<open>fs_index (vfs E s) p k = Some x\<close> d(2)
  have e: "x = \<lparr>e_enc_name = sealed E (v_dek s) p n, e_child_ino = d_child_ino d, e_kind = d_kind d\<rparr>" by (simp add: entry_ok_def)
  obtain enc where enc: "seal_name (en_siv E) (v_dek s) p n = Inr enc" using seal_name_total [OF env_okD(3) [OF E]] by blast
  have "open_name (en_siv E) (v_dek s) p (sealed E (v_dek s) p n) = Inr n"
    using open_seal_name [OF env_okD(3) [OF E] enc] sealed_eq [OF enc] by simp
  with x e have "de_name e = n" by simp
  with d e x show ?thesis by auto
qed

lemma saturating_cookie: "saturating_add cookie 1 \<le> k \<and> k < - 1 \<longleftrightarrow> cookie < k \<and> k \<noteq> (- 1 :: u64)"
proof -
  have m: "unat (- 1 :: u64) = 2 ^ 64 - 1" by (simp add: unsigned_minus_1_eq_mask mask_eq_exp_minus_1)
  have "unat cookie < 2 ^ 64 - 1" if "cookie \<noteq> - 1"
    using that unat_lt64 [of cookie] m by (auto simp: word_unat_eq_iff simp del: unat_lt64)
  then have "saturating_add cookie 1 = (if cookie = - 1 then - 1 else cookie + 1)"
    using m by (auto simp: saturating_add_def)
  moreover have "k < - 1 \<longleftrightarrow> k \<noteq> (- 1 :: u64)" by (simp add: word_order.not_eq_extremum)
  moreover have "cookie + 1 \<le> k \<longleftrightarrow> cookie < k" if "cookie \<noteq> - 1"
    using word_less_Suc [OF that, of k] by (metis linorder_not_le)
  ultimately show ?thesis by auto
qed

lemma listedI:
  assumes E: "env_ok E" and tree: "tree_ok E s" and srt: "sorted_wrt (<) (map fst ks)"
    and ks: "\<And>k v. (k, v) \<in> set ks \<longleftrightarrow> cookie < k \<and> k \<noteq> - 1 \<and> vcontents E s (key_bytes (KDirentIdx p k)) = Some v"
    and es: "list_all2 (\<lambda>(k, v) e. row_entry E (v_dek s) p k v e) (take n ks) (rd_entries r)" and eof: "rd_eof r = (length ks \<le> n)"
  shows "listed (vfs E s) p cookie n r"
proof -
  note ns = tree [unfolded tree_ok_def]
  have cks: "map de_cookie (rd_entries r) = map fst (take n ks)"
  proof (rule nth_equalityI)
    show "length (map de_cookie (rd_entries r)) = length (map fst (take n ks))" using list_all2_lengthD [OF es] by simp
    fix j assume "j < length (map de_cookie (rd_entries r))"
    with list_all2_nthD2 [OF es, of j] list_all2_lengthD [OF es]
    show "map de_cookie (rd_entries r) ! j = map fst (take n ks) ! j" by (auto simp: row_entry_def case_prod_beta)
  qed
  have len: "length (rd_entries r) = min n (length ks)" using arg_cong [OF cks, of length] by (simp add: min.commute)
  have ent: "cookie < de_cookie e \<and> (\<exists>d. fs_dirent (vfs E s) p (de_name e) = Some d \<and> d_child_ino d = de_ino e \<and> d_kind d = de_kind e \<and> d_dirent_id d = de_cookie e)"
    if e: "e \<in> set (rd_entries r)" for e
  proof -
    from e obtain j where j: "j < length (rd_entries r)" "e = rd_entries r ! j" by (auto simp: in_set_conv_nth)
    obtain k v where kv: "ks ! j = (k, v)" by (cases "ks ! j")
    have row: "row_entry E (v_dek s) p k v e" using list_all2_nthD2 [OF es j(1)] j kv len by simp
    have "(k, v) \<in> set ks" using j kv len by (metis min_less_iff_conj nth_mem)
    with row_entry_dirent [OF E tree row] ks show ?thesis by auto
  qed
  have all: "d_dirent_id d \<in> set (map de_cookie (rd_entries r))"
    if d: "fs_dirent (vfs E s) p m = Some d" "cookie < d_dirent_id d" "rd_eof r \<or> (\<exists>e \<in> set (rd_entries r). d_dirent_id d \<le> de_cookie e)" for m d
  proof -
    have "\<exists>x. fs_index (vfs E s) p (d_dirent_id d) = Some x" "d_dirent_id d \<noteq> - 1"
      using ns_okD(3) [OF ns d(1)] unfolding entry_ok_def by (blast, metis word_not_simps(3))
    then obtain v where "vcontents E s (key_bytes (KDirentIdx p (d_dirent_id d))) = Some v" "d_dirent_id d \<noteq> - 1"
      by (auto simp: fs_of_def decoded_def split: option.splits)
    with ks d(2) have "(d_dirent_id d, v) \<in> set ks" by simp
    then have k: "d_dirent_id d \<in> set (map fst ks)" by force
    then have "d_dirent_id d \<in> set (take n (map fst ks)) \<or> d_dirent_id d \<in> set (drop n (map fst ks))"
      by (metis Un_iff append_take_drop_id set_append)
    moreover have "d_dirent_id d \<notin> set (drop n (map fst ks))"
    proof
      assume x: "d_dirent_id d \<in> set (drop n (map fst ks))"
      then have "\<not> rd_eof r" using eof by auto
      with d(3) obtain e where "e \<in> set (rd_entries r)" "d_dirent_id d \<le> de_cookie e" by blast
      then have "de_cookie e \<in> set (take n (map fst ks))" by (metis cks image_eqI set_map take_map)
      with x srt have "de_cookie e < d_dirent_id d"
        by (metis append_take_drop_id sorted_wrt_append)
      with \<open>d_dirent_id d \<le> de_cookie e\<close> show False by simp
    qed
    ultimately show ?thesis unfolding cks by (simp add: take_map)
  qed
  have "sorted_wrt (<) (map de_cookie (rd_entries r))"
    unfolding cks using srt sorted_wrt_take by (metis take_map)
  moreover have "\<not> rd_eof r \<longrightarrow> length (rd_entries r) = n" using eof len by auto
  moreover have "length (rd_entries r) \<le> n" using len by simp
  ultimately show ?thesis unfolding listed_def using ent all by blast
qed

lemma readdir_wp:
  assumes E: "env_ok E" and inv: "vol_inv E s" and tree: "tree_ok E s"
  shows "wp (readdir E creds p cookie n)
    (\<lambda>r t. undone E s t \<and> (\<exists>dir. fs_inode (vfs E s) p = Some dir \<and> i_kind dir = Dir \<and> access creds dir ACCESS_R = Inr ()) \<and>
       listed (vfs E s) p cookie n r)
    (\<lambda>e t. undone E s t) s"
  unfolding readdir_def
proof (intro load_dir_cachedI [OF E undone_refl [OF inv]] wp_base [OF E] wp_rules, goal_cases)
  case (1 dir t x kvs st h)
  have t: "vol_inv E t" "vfs E t = vfs E s" "v_dek t = v_dek s" "tree_ok E t"
    using 1(1) tree_undone [OF tree 1(1)] by (auto simp: undone_def hframe_def vframe_def)
  obtain ks where ks: "kvs = map (\<lambda>(k, v). (key_bytes (KDirentIdx p k), v)) ks" "sorted_wrt (<) (map fst ks)"
    "\<And>k v. (k, v) \<in> set ks \<longleftrightarrow> saturating_add cookie 1 \<le> k \<and> k < - 1 \<and> vcontents E t (key_bytes (KDirentIdx p k)) = Some v"
    using idx_scan [OF 1(5) vol_invD(2) [OF t(1)]] by blast
  have ks': "(k, v) \<in> set ks \<longleftrightarrow> cookie < k \<and> k \<noteq> - 1 \<and> vcontents E t (key_bytes (KDirentIdx p k)) = Some v" for k v
    unfolding ks(3) using saturating_cookie [of cookie k] by blast
  show ?case
    unfolding ks(1)
  proof (rule readdir_entriesI [OF E, where ?s0.0 = s], goal_cases)
    case (3 r u es')
    with listedI [OF E t(4) ks(2) ks', of n r] 1 t show ?case by auto
  qed (use 1 in auto)
qed auto

section \<open>Handles, locks and usage\<close>

lemma vfs_open_wp:
  assumes E: "env_ok E" and inv: "vol_inv E s"
  shows "wp (vfs_open E creds ino mode)
    (\<lambda>h t. vol_inv E t \<and> vframe s t \<and> vfs E t = vfs E s \<and> (h, v_handles t) = handle_open ino mode (v_handles s) \<and>
       v_range_locks t = v_range_locks s \<and>
       (\<exists>i. fs_inode (vfs E s) ino = Some i \<and> access creds i (open_want mode) = Inr ()))
    (\<lambda>e t. undone E s t) s"
proof -
  have op: "wp (\<lambda>s. case handle_open ino mode (v_handles s) of (h, t) \<Rightarrow> (Inr h, s\<lparr>v_handles := t\<rparr>)) Q R s'"
    if "\<And>h t. handle_open ino mode (v_handles s') = (h, t) \<Longrightarrow> Q h (s'\<lparr>v_handles := t\<rparr>)" for Q R and s' :: "'a volume"
    using that by (simp add: wp_def split: prod.split)
  show ?thesis
    unfolding vfs_open_def
    by (intro op wp_base [OF E] wp_rules)
       (use inv in \<open>auto simp: idle_undone [OF inv] vol_inv_def vframe_def\<close>)
qed

lemma statfs_pair_ok:
  "snd (statfs_pair hard nominal used) \<le> fst (statfs_pair hard nominal used)"
  "\<not> sint used < 0 \<Longrightarrow> used \<le> n \<Longrightarrow> statfs_pair (Some n) nominal used = (n, n - used)"
proof -
  show "snd (statfs_pair hard nominal used) \<le> fst (statfs_pair hard nominal used)"
    by (simp add: statfs_pair_def Let_def word_le_nat_alt unat_saturating_sub)
  show "statfs_pair (Some n) nominal used = (n, n - used)" if "\<not> sint used < 0" "used \<le> n"
    using that order.antisym [of n used] by (auto simp: statfs_pair_def Let_def saturating_sub_def)
qed

lemma statfs_wp:
  assumes inv: "vol_inv E s"
  shows "wp (statfs creds)
    (\<lambda>r t. t = s \<and> sf_free_bytes r \<le> sf_total_bytes r \<and> sf_free_inodes r \<le> sf_total_inodes r \<and>
       (\<forall>n. ql_hard (ql_bytes (qt_limits (v_quota s))) = Some n \<and> 0 \<le> sint (fs_bytes (vfs E s)) \<and> fs_bytes (vfs E s) \<le> n \<longrightarrow>
          sf_total_bytes r - sf_free_bytes r = fs_bytes (vfs E s)))
    (\<lambda>e t. t = s) s"
  unfolding statfs_def
  by (intro wp_rules) (use vol_invD(4,5) [OF inv] in \<open>auto simp: statfs_pair_ok quota_usage_def\<close>)

lemma vfs_locks_wp:
  assumes inv: "vol_inv E s"
  defines "same \<equiv> \<lambda>t. vol_inv E t \<and> vframe s t \<and> v_handles t = v_handles s \<and> vfs E t = vfs E s"
  shows "wp (vfs_lock h start stop exclusive) (\<lambda>_ t. same t) (\<lambda>_ t. same t) s"
    "wp (vfs_unlock h start stop) (\<lambda>_ t. same t) (\<lambda>_ t. same t) s"
    "wp (vfs_testlock h start stop exclusive) (\<lambda>_ t. t = s) (\<lambda>_ t. t = s) s"
proof -
  have tl: "wp (lock_target h start stop) Q R s'"
    if "\<And>ino mode. handle_get h (v_handles s') = Some (ino, mode) \<Longrightarrow> start < stop \<Longrightarrow> Q ino s'" "\<And>e. R e s'" for Q R and s' :: "'a volume"
    using that unfolding lock_target_def by (intro wp_rules) (auto simp: linorder_not_le split: prod.splits)
  have s0: "same s" using inv by (simp add: same_def vframe_def)
  show "wp (vfs_lock h start stop exclusive) (\<lambda>_ t. same t) (\<lambda>_ t. same t) s"
    unfolding vfs_lock_def
    by (intro wp_rules tl) (use s0 in \<open>auto simp: wp_def same_def vol_inv_def vframe_def split: prod.splits sum.splits\<close>)
  show "wp (vfs_unlock h start stop) (\<lambda>_ t. same t) (\<lambda>_ t. same t) s"
    unfolding vfs_unlock_def
    by (intro wp_rules tl) (use s0 in \<open>auto simp: same_def vol_inv_def vframe_def\<close>)
  show "wp (vfs_testlock h start stop exclusive) (\<lambda>_ t. t = s) (\<lambda>_ t. t = s) s"
    unfolding vfs_testlock_def by (intro wp_rules tl) auto
qed

end
