(* ===== verification/History.thy ===== *)
theory History
  imports Vfs_Reads
begin

text \<open>
  The operations put together: what a client may ask of a volume, one call after another
  against an engine that may fail any call, and the invariants that every such history
  keeps.
\<close>

section \<open>Bills are small\<close>

lemma unat_sum_le: "finite A \<Longrightarrow> unat (\<Sum>x \<in> A. f x :: u64) \<le> (\<Sum>x \<in> A. unat (f x))"
proof (induction rule: finite_induct)
  case (insert x A)
  have "unat (f x + sum f A) \<le> unat (f x) + unat (sum f A)" by (simp add: unat_word_ariths)
  with insert show ?case by simp
qed simp

lemma chunks_billed_le:
  assumes C: "chunks_inside cs C sz" and cs: "unat cs < 2 ^ 32"
  shows "unat (chunks_billed cs C sz) \<le> 2 ^ 32 * unat cs"
proof -
  have le: "unat (chunk_billed cs sz idx (C idx)) \<le> unat cs" for idx
  proof (cases "C idx")
    case (Some c)
    with C have "length c \<le> unat cs" by (auto simp: chunks_inside_def)
    with cs Some show ?thesis by (simp add: chunk_billed_def unat_billed_chunk_bytes)
  qed (simp add: chunk_billed_def)
  have "unat (chunks_billed cs C sz) \<le> (\<Sum>idx \<in> (UNIV :: u32 set). unat (chunk_billed cs sz idx (C idx)))"
    unfolding chunks_billed_def by (rule unat_sum_le) simp
  also have "\<dots> \<le> (\<Sum>idx \<in> (UNIV :: u32 set). unat cs)" by (intro sum_mono le)
  finally show ?thesis by (simp add: card_word)
qed

text \<open>The chunk sizes the configuration accepts (\<^verbatim>\<open>config.rs\<close>, \<open>validate\<close>).\<close>

definition chunk_size_valid :: "u64 \<Rightarrow> bool" where
  "chunk_size_valid cs = ((\<exists>k < 64. cs = 2 ^ k) \<and> 4 * 1024 \<le> cs \<and> cs \<le> 4 * 1024 * 1024)"

lemma chunk_size_validD:
  assumes "chunk_size_valid cs"
  shows "unat cs \<le> 2 ^ 22" "cs_ok cs"
proof -
  have "4096 \<le> unat cs \<and> unat cs \<le> 4194304" using assms by (simp add: chunk_size_valid_def word_le_nat_alt)
  then show "unat cs \<le> 2 ^ 22" "cs_ok cs" by (simp_all add: cs_ok_def)
qed

lemma acct_small:
  assumes a: "acct_ok cs f" and cs: "chunk_size_valid cs"
  shows "small_bills f"
  unfolding small_bills_def
proof (intro allI impI)
  fix ino i assume "fs_inode f ino = Some i"
  from acct_okD(4) [OF a this] have b: "i_billed_bytes i = chunks_billed cs (fs_chunk f ino) (i_size i)" "chunks_inside cs (fs_chunk f ino) (i_size i)"
    by (simp_all add: bill_ok_def)
  from chunks_billed_le [OF b(2)] chunk_size_validD [OF cs] b(1) show "unat (i_billed_bytes i) < 2 ^ 63" by (simp add: cs_ok_def)
qed

section \<open>Calls\<close>

datatype vop =
  Op_create credentials u64 bytes u32 bool
| Op_mkdir credentials u64 bytes u32
| Op_mknod credentials u64 bytes u32 file_kind u64
| Op_symlink credentials u64 bytes bytes
| Op_link credentials u64 u64 bytes
| Op_unlink credentials u64 bytes
| Op_rmdir credentials u64 bytes
| Op_rename nat credentials u64 bytes u64 bytes
| Op_write credentials u64 u64 bytes
| Op_setattr credentials u64 set_attrs
| Op_setxattr credentials u64 bytes bytes
| Op_removexattr credentials u64 bytes
| Op_open credentials u64 open_mode
| Op_close u64
| Op_read credentials u64 u64 u32
| Op_lookup credentials u64 bytes
| Op_getattr credentials u64
| Op_readdir credentials u64 u64 nat
| Op_readlink credentials u64
| Op_getxattr credentials u64 bytes
| Op_listxattr credentials u64

abbreviation void :: "('s, 'e, 'a) act \<Rightarrow> ('s, 'e, unit) act" where
  "void m \<equiv> bindE m (\<lambda>_. returnE ())"

fun run_op :: "'db env \<Rightarrow> vop \<Rightarrow> ('db volume, fs_error, unit) act" where
  "run_op E (Op_create creds p name mode exclusive) = void (create E creds p name mode exclusive)"
| "run_op E (Op_mkdir creds p name mode) = void (mkdir E creds p name mode)"
| "run_op E (Op_mknod creds p name mode kind rdev) = void (mknod E creds p name mode kind rdev)"
| "run_op E (Op_symlink creds p name target) = void (symlink E creds p name target)"
| "run_op E (Op_link creds ino p name) = void (link E creds ino p name)"
| "run_op E (Op_unlink creds p name) = void (unlink E creds p name [id])"
| "run_op E (Op_rmdir creds p name) = void (rmdir E creds p name [id])"
| "run_op E (Op_rename fuel creds op on np nn) = void (rename E fuel creds op on np nn [id])"
| "run_op E (Op_write creds ino off dat) = void (vfs_write E creds ino off dat)"
| "run_op E (Op_setattr creds ino attrs) = void (setattr E creds ino attrs)"
| "run_op E (Op_setxattr creds ino name val) = void (setxattr E creds ino name val)"
| "run_op E (Op_removexattr creds ino name) = void (removexattr E creds ino name)"
| "run_op E (Op_open creds ino mode) = void (vfs_open E creds ino mode)"
| "run_op E (Op_close h) = void (vfs_close E h)"
| "run_op E (Op_read creds ino off len) = void (vfs_read E creds ino off len)"
| "run_op E (Op_lookup creds p name) = void (lookup E creds p name)"
| "run_op E (Op_getattr creds ino) = void (getattr E creds ino)"
| "run_op E (Op_readdir creds p cookie n) = void (readdir E creds p cookie n)"
| "run_op E (Op_readlink creds ino) = void (readlink E creds ino)"
| "run_op E (Op_getxattr creds ino name) = void (getxattr E creds ino name)"
| "run_op E (Op_listxattr creds ino) = void (listxattr E creds ino)"

text \<open>
  What a call may assume: numbers for inodes and entries are left, an inode given a new
  link has one already, buffers have machine length, and sizes stay within the chunk index.
\<close>

fun op_fits :: "'db env \<Rightarrow> vop \<Rightarrow> 'db volume \<Rightarrow> bool" where
  "op_fits E (Op_link creds ino p name) s = (\<forall>i. fs_inode (vfs E s) ino = Some i \<longrightarrow> i_nlink i \<noteq> 0)"
| "op_fits E (Op_write creds ino off dat) s = (length dat < 2 ^ 64)"
| "op_fits E (Op_setattr creds ino attrs) s = (\<forall>n. s_size attrs = Some n \<longrightarrow> unat n < unat (v_chunk_size s) * 2 ^ 32)"
| "op_fits E (Op_read creds ino off len) s = (unat off + unat len < 2 ^ 64)"
| "op_fits E _ s = True"

definition numbers_left :: "'db env \<Rightarrow> 'db volume \<Rightarrow> bool" where
  "numbers_left E s = (al_next (v_alloc s) \<noteq> - 1 \<and> ids_left (vfs E s))"

text \<open>The deletes of a long truncate were cut short.\<close>

definition cut_short :: "'db env \<Rightarrow> vop \<Rightarrow> fs_error + unit \<Rightarrow> 'db volume \<Rightarrow> 'db volume \<Rightarrow> bool" where
  "cut_short E opn r s t = ((\<exists>creds ino attrs. opn = Op_setattr creds ino attrs) \<and> isl r \<and> vfs E t \<noteq> vfs E s)"

definition sound :: "'db env \<Rightarrow> 'db volume \<Rightarrow> bool" where
  "sound E s = (vol_inv E s \<and> tree_ok E s \<and> acct_ok (v_chunk_size s) (vfs E s) \<and> chunk_size_valid (v_chunk_size s))"

inductive history :: "'db env \<Rightarrow> 'db volume \<Rightarrow> 'db volume \<Rightarrow> bool" for E s where
  history_start: "history E s s"
| history_call: "history E s t \<Longrightarrow> numbers_left E t \<Longrightarrow> op_fits E opn t \<Longrightarrow> run_op E opn t = (r, u) \<Longrightarrow> \<not> cut_short E opn r t u \<Longrightarrow> history E s u"

section \<open>Every effect keeps the accounts\<close>

lemma acct_made:
  assumes inv: "vol_inv E s" and a: "acct_ok cs (vfs E s)" and may: "may_add creds p name dir (vfs E s)"
    and made: "made E s p dir name mk target x t" and mk: "\<And>ts. i_billed_bytes (mk ts) = 0" "\<And>ts. i_kind (mk ts) = File \<Longrightarrow> i_size (mk ts) = 0"
  shows "acct_ok cs (vfs E t)"
proof -
  from made obtain ts ts' enc where m: "vfs E t = add_node ts' enc p dir name (al_next (v_alloc s)) (mk ts) target (vfs E s)"
    by (auto simp: made_def)
  show ?thesis
    unfolding m by (rule acct_add_node [OF a]) (use may inv mk in \<open>auto simp: may_add_def vol_inv_def\<close>)
qed

lemma acct_linked: "acct_ok cs (vfs E s) \<Longrightarrow> linked E creds s ino p name x t \<Longrightarrow> acct_ok cs (vfs E t)"
  by (auto simp: linked_def may_add_def intro!: acct_add_link)

lemma acct_touched: "acct_ok cs (vfs E s) \<Longrightarrow> touched E creds s ino name v t \<Longrightarrow> acct_ok cs (vfs E t)"
  by (auto simp: touched_def intro!: acct_put_inode)

lemma acct_unlinked:
  assumes tree: "tree_ok E s" and a: "acct_ok cs (vfs E s)" and d: "fs_dirent (vfs E s) p name = Some d"
    and u: "unlinked E creds s p name d t \<or> unlink_torn E creds s p name d t"
  shows "acct_ok cs (vfs E t)"
proof -
  have ne: "p \<noteq> d_child_ino d" using root_no_entry(2) [OF tree [unfolded tree_ok_def] d] by simp
  have f: "acct_ok cs (unlink_fs opened ts ts2 p dir name d i (vfs E s))" if "may_remove creds p dir (d_child_ino d) i (vfs E s)" for opened ts ts2 dir i
    by (rule acct_unlink [OF a _ _ ne]) (use that in \<open>auto simp: may_remove_def\<close>)
  have g: "fs_inode (unlink_fs False ts ts2 p dir name d i (vfs E s)) (d_child_ino d) = None" if "i_nlink i = 1" for ts ts2 dir i
    using that by (simp add: unlink_fs_def drop_link_maps inode_less_def)
  from u show ?thesis
    unfolding unlinked_def unlink_torn_def Let_def
    by (auto intro!: f acct_reaped acct_cut_dead g)
qed

lemma acct_rmdired:
  assumes tree: "tree_ok E s" and a: "acct_ok cs (vfs E s)" and d: "fs_dirent (vfs E s) p name = Some d" and u: "rmdired E creds s p name d t"
  shows "acct_ok cs (vfs E t)"
proof -
  have ne: "p \<noteq> d_child_ino d" using root_no_entry(2) [OF tree [unfolded tree_ok_def] d] by simp
  with u a show ?thesis unfolding rmdired_def may_remove_def by (auto intro!: acct_rmdir)
qed

lemma acct_renamed:
  assumes tree: "tree_ok E s" and a: "acct_ok cs (vfs E s)"
    and src: "fs_dirent (vfs E s) op on = Some src" and noop: "\<not> rename_noop op on np nn src (fs_dirent (vfs E s) np nn)"
    and r: "renamed E fuel creds s op on np nn src (fs_dirent (vfs E s) np nn) P"
  shows "\<exists>f tgt. P f tgt \<and> acct_ok cs f \<and>
    (\<forall>c. target_gone (\<lambda>c. is_open c (v_handles s)) tgt = Some c \<longrightarrow> fs_inode f c = None)"
proof -
  note ns = tree [unfolded tree_ok_def]
  from r obtain old_dir new_dir moved tgt ts ts2 enc where m:
    "fs_inode (vfs E s) op = Some old_dir" "i_kind old_dir = Dir" "fs_inode (vfs E s) np = Some new_dir" "i_kind new_dir = Dir"
    "fs_inode (vfs E s) (d_child_ino src) = Some moved"
    "i_kind moved = Dir \<and> op \<noteq> np \<longrightarrow> climb (vfs E s) (d_child_ino src) fuel np = Some True"
    "target_ok creds moved new_dir (fs_dirent (vfs E s) np nn) tgt (vfs E s)"
    "P (rename_fs (\<lambda>c. is_open c (v_handles s)) ts ts2 enc op on np nn src tgt old_dir new_dir moved (vfs E s)) tgt"
    unfolding renamed_def rename_done_def by blast
  have t: "target_wf moved np nn src tgt (vfs E s)"
    using m(7) noop by (auto simp: target_ok_def target_wf_def rename_noop_def split: option.splits)
  have tc: "d_child_ino d \<noteq> op \<and> d_child_ino d \<noteq> np \<and> d_child_ino d \<noteq> d_child_ino src" if "tgt = Some (d, i)" for d i
    using target_wfD [OF t [unfolded that]] root_no_entry(2) [OF ns, of np nn d] src m(1,2) by auto
  have c: "d_child_ino src \<noteq> op" "d_child_ino src \<noteq> np"
  proof -
    show co: "d_child_ino src \<noteq> op" by (rule root_no_entry(2) [OF ns src])
    show "d_child_ino src \<noteq> np"
    proof
      assume n: "d_child_ino src = np"
      with m co have "climb (vfs E s) np fuel np = Some True" by auto
      then show False by (cases fuel) auto
    qed
  qed
  let ?f = "rename_fs (\<lambda>c. is_open c (v_handles s)) ts ts2 enc op on np nn src tgt old_dir new_dir moved (vfs E s)"
  have "acct_ok cs ?f" by (rule acct_rename [OF a t m(1,3,5) _ c]) (use tc in blast)
  moreover have "fs_inode ?f k = None" if g: "target_gone (\<lambda>c. is_open c (v_handles s)) tgt = Some k" for k
  proof -
    from g obtain d i where x: "tgt = Some (d, i)" "i_kind i \<noteq> Dir" "i_nlink i = 1" "\<not> is_open k (v_handles s)" "k = d_child_ino d"
      by (auto simp: target_gone_def split: option.splits if_splits)
    with tc [OF x(1)] show ?thesis
      by (simp add: rename_fs_def Let_def target_fs_def fs_steps drop_link_maps inode_less_def)
  qed
  ultimately show ?thesis using m(8) by blast
qed

lemma acct_rename_post:
  assumes tree: "tree_ok E s" and a: "acct_ok cs (vfs E s)" and src: "fs_dirent (vfs E s) op on = Some src"
    and r: "rename_post E fuel creds s op on np nn src (fs_dirent (vfs E s) np nn) r t \<or>
      rename_torn E fuel creds s op on np nn src (fs_dirent (vfs E s) np nn) t"
  shows "acct_ok cs (vfs E t)"
proof (cases "undone E s t")
  case True
  then show ?thesis using a by (simp add: undone_def)
next
  case False
  let ?g = "target_gone (\<lambda>c. is_open c (v_handles s))"
  have n: "\<not> rename_noop op on np nn src (fs_dirent (vfs E s) np nn)"
    using r False by (auto simp: rename_post_def rename_torn_def split: option.splits if_splits)
  consider
      "renamed E fuel creds s op on np nn src (fs_dirent (vfs E s) np nn) (\<lambda>f tgt. vfs E t = (case ?g tgt of None \<Rightarrow> f | Some c \<Rightarrow> reaped c f))"
    | "renamed E fuel creds s op on np nn src (fs_dirent (vfs E s) np nn) (\<lambda>f tgt. \<exists>c idxs. ?g tgt = Some c \<and> vfs E t = cut_chunks c idxs f)"
    using r False n by (cases r) (auto simp: rename_post_def rename_torn_def)
  then show ?thesis
  proof cases
    case 1
    from acct_renamed [OF tree a src n 1] show ?thesis by (auto simp: acct_reaped split: option.splits)
  next
    case 2
    from acct_renamed [OF tree a src n 2] show ?thesis by (auto simp: acct_cut_dead)
  qed
qed

section \<open>Every call keeps the volume sound\<close>

abbreviation sound_kept :: "'db env \<Rightarrow> ('db volume, fs_error, 'a) act \<Rightarrow> 'db volume \<Rightarrow> bool" where
  "sound_kept E m s \<equiv> wp m (\<lambda>_ t. sound E t) (\<lambda>_ t. sound E t) s"

lemma soundD:
  assumes "sound E s"
  shows "vol_inv E s" "tree_ok E s" "acct_ok (v_chunk_size s) (vfs E s)" "chunk_size_valid (v_chunk_size s)" "small_bills (vfs E s)" "cs_ok (v_chunk_size s)"
  using assms acct_small chunk_size_validD by (auto simp: sound_def)

lemma soundI:
  "sound E s \<Longrightarrow> vol_inv E t \<Longrightarrow> tree_ok E t \<Longrightarrow> acct_ok (v_chunk_size s) (vfs E t) \<Longrightarrow> v_chunk_size t = v_chunk_size s \<Longrightarrow> sound E t"
  by (simp add: sound_def)

lemma wp_conj: "wp m Q R s \<Longrightarrow> wp m Q' R' s \<Longrightarrow> wp m (\<lambda>x t. Q x t \<and> Q' x t) (\<lambda>e t. R e t \<and> R' e t) s"
  by (simp add: wp_def split: prod.splits sum.splits)

text \<open>The name space is known to be kept; what is left are the accounts and the frame.\<close>

lemma sound_keptI:
  assumes s: "sound E s" and t: "tree_kept E m s" and w: "wp m Q R s"
    and Q: "\<And>x t. Q x t \<Longrightarrow> acct_ok (v_chunk_size s) (vfs E t) \<and> v_chunk_size t = v_chunk_size s"
    and R: "\<And>e t. R e t \<Longrightarrow> acct_ok (v_chunk_size s) (vfs E t) \<and> v_chunk_size t = v_chunk_size s"
  shows "sound_kept E m s"
  by (rule wp_mono [OF wp_conj [OF t w]]) (use Q R in \<open>blast intro: soundI [OF s]\<close>)+

lemma frame_cs: "hframe s t \<Longrightarrow> v_chunk_size t = v_chunk_size s" "vframe s t \<Longrightarrow> v_chunk_size t = v_chunk_size s"
  "undone E s t \<Longrightarrow> v_chunk_size t = v_chunk_size s"
  by (simp_all add: hframe_def vframe_def undone_def)

lemma acct_undone: "acct_ok cs (vfs E s) \<Longrightarrow> undone E s t \<Longrightarrow> acct_ok cs (vfs E t)"
  by (simp add: undone_def)

lemma new_child_bill:
  "i_billed_bytes (new_child creds dir k mode ts) = 0" "i_size (new_child creds dir k mode ts) = 0"
  "i_billed_bytes (new_symlink creds target dir ts) = 0"
  by (simp_all add: new_child_def new_symlink_def inode_new_def split: prod.split)

lemma sound_creates:
  assumes E: "env_ok E" and s: "sound E s" and left: "numbers_left E s"
  shows "sound_kept E (create E creds p name mode exclusive) s" "sound_kept E (mkdir E creds p name mode) s"
    "sound_kept E (mknod E creds p name mode kind rdev) s" "sound_kept E (symlink E creds p name target) s"
proof -
  note S = soundD [OF s]
  have l: "al_next (v_alloc s) \<noteq> - 1" "ids_left (vfs E s)" using left by (simp_all add: numbers_left_def)
  note T = tree_creates [OF E S(1,2) l(2,1)]
  note A = acct_undone [OF S(3)] frame_cs acct_made [OF S(1,3)]
  show "sound_kept E (create E creds p name mode exclusive) s"
    by (rule sound_keptI [OF s T(1) create_wp [OF E S(1) l(1)]]) (use S(3) in \<open>auto intro: A simp: new_child_shape new_child_bill\<close>)
  show "sound_kept E (mkdir E creds p name mode) s"
    by (rule sound_keptI [OF s T(2) mkdir_wp [OF E S(1) l(1)]]) (auto intro: A simp: new_child_shape new_child_bill)
  show "sound_kept E (mknod E creds p name mode kind rdev) s"
    by (rule sound_keptI [OF s T(3) mknod_wp [OF E S(1) l(1)]]) (auto intro: A simp: new_child_shape new_child_bill)
  show "sound_kept E (symlink E creds p name target) s"
    by (rule sound_keptI [OF s T(4) symlink_wp [OF E S(1) l(1)]]) (auto intro: A simp: new_child_shape new_child_bill)
qed

lemma sound_link:
  assumes E: "env_ok E" and s: "sound E s" and left: "numbers_left E s" and fits: "op_fits E (Op_link creds ino p name) s"
  shows "sound_kept E (link E creds ino p name) s"
proof -
  note S = soundD [OF s]
  have T: "tree_kept E (link E creds ino p name) s"
    by (rule tree_links [OF E S(1,2)]) (use left fits in \<open>auto simp: numbers_left_def\<close>)
  show ?thesis
    by (rule sound_keptI [OF s T link_wp [OF E S(1)]]) (auto intro: acct_undone [OF S(3)] frame_cs acct_linked [OF S(3)])
qed

lemma sound_files:
  assumes E: "env_ok E" and s: "sound E s"
  shows "length dat < 2 ^ 64 \<Longrightarrow> sound_kept E (vfs_write E creds ino off dat) s"
    "sound_kept E (setxattr E creds ino name val) s" "sound_kept E (removexattr E creds ino name) s"
    "op_fits E (Op_setattr creds ino attrs) s \<Longrightarrow>
       wp (setattr E creds ino attrs) (\<lambda>_ t. sound E t) (\<lambda>_ t. sound E t \<or> vfs E t \<noteq> vfs E s) s"
proof -
  note S = soundD [OF s] and T = tree_files [OF E soundD(1,2) [OF s]]
  note A = acct_undone [OF S(3)] frame_cs
  show "sound_kept E (vfs_write E creds ino off dat) s" if l: "length dat < 2 ^ 64"
    by (rule sound_keptI [OF s T(1) vfs_write_wp [OF E S(1)]])
       (use S(3) in \<open>auto intro: A acct_wrote [OF E S(3,6) _ l] split: if_splits\<close>)
  show "sound_kept E (setxattr E creds ino name val) s"
    by (rule sound_keptI [OF s T(3) setxattr_wp [OF E S(1)]]) (auto intro: A acct_touched [OF S(3)])
  show "sound_kept E (removexattr E creds ino name) s"
    by (rule sound_keptI [OF s T(4) removexattr_wp [OF E S(1)]]) (auto intro: A acct_touched [OF S(3)])
  show "wp (setattr E creds ino attrs) (\<lambda>_ t. sound E t) (\<lambda>_ t. sound E t \<or> vfs E t \<noteq> vfs E s) s"
    if fits: "op_fits E (Op_setattr creds ino attrs) s"
  proof -
    have lim: "unat n < unat (v_chunk_size s) * 2 ^ 32" if "s_size attrs = Some n" for n using fits that by simp
    show ?thesis
      by (rule wp_mono [OF wp_conj [OF T(2) setattr_wp [OF E S(1)]]])
         (use S(3) in \<open>auto intro: soundI [OF s] frame_cs acct_attrs_set [OF E S(1,3,6) lim]\<close>)
  qed
qed

lemma sound_removes:
  assumes E: "env_ok E" and s: "sound E s" and left: "numbers_left E s"
  shows "sound_kept E (unlink E creds p name (id # waits)) s" "sound_kept E (rmdir E creds p name (id # waits)) s"
    "sound_kept E (rename E fuel creds op on np nn (id # waits)) s" "sound_kept E (vfs_close E h) s"
proof -
  note S = soundD [OF s]
  note T = tree_removes [OF E S(1,2,5)] tree_closes [OF E S(1,2,5)]
  note A = acct_undone [OF S(3)] frame_cs
  show "sound_kept E (unlink E creds p name (id # waits)) s"
    by (rule sound_keptI [OF s T(1) unlink_wp [OF E S(1,5)]]) (auto intro: A acct_unlinked [OF S(2,3)])
  show "sound_kept E (rmdir E creds p name (id # waits)) s"
    by (rule sound_keptI [OF s T(2) rmdir_wp [OF E S(1)]]) (auto intro: A acct_rmdired [OF S(2,3)])
  have R: "tree_kept E (rename E fuel creds op on np nn (id # waits)) s"
    by (rule tree_renames [OF E S(1,2,5)]) (use left in \<open>simp add: numbers_left_def\<close>)
  have f: "v_chunk_size t = v_chunk_size s" if "rename_post E fuel creds s op on np nn src dst r t \<or> rename_torn E fuel creds s op on np nn src dst t" for src dst r t
    using that by (auto simp: rename_post_def rename_torn_def undone_def hframe_def vframe_def split: option.splits if_splits)
  show "sound_kept E (rename E fuel creds op on np nn (id # waits)) s"
    by (rule sound_keptI [OF s R rename_wp [OF E S(1,5)]]) (auto intro: A f acct_rename_post [OF S(2,3)])
  show "sound_kept E (vfs_close E h) s"
    by (rule sound_keptI [OF s T(3) vfs_close_wp [OF E S(1,5)]])
       (use S(3) in \<open>auto simp: handle_gone_def acct_closed intro: frame_cs intro!: acct_cut_dead acct_expunged expunged_gone\<close>)
qed

lemma sound_undone: "sound E s \<Longrightarrow> undone E s t \<Longrightarrow> sound E t"
  by (auto simp: sound_def undone_inv tree_undone acct_undone frame_cs)

lemma sound_same: "sound E s \<Longrightarrow> vol_inv E t \<Longrightarrow> vframe s t \<Longrightarrow> vfs E t = vfs E s \<Longrightarrow> sound E t"
  by (simp add: sound_def tree_ok_def vframe_def)

lemma sound_reads:
  assumes E: "env_ok E" and s: "sound E s"
  shows "sound_kept E (lookup E creds p name) s" "sound_kept E (getattr E creds ino) s" "sound_kept E (readdir E creds p cookie n) s"
    "sound_kept E (readlink E creds ino) s" "sound_kept E (getxattr E creds ino name) s" "sound_kept E (listxattr E creds ino) s"
    "unat off + unat len < 2 ^ 64 \<Longrightarrow> sound_kept E (vfs_read E creds ino off len) s" "sound_kept E (vfs_open E creds ino mode) s"
proof -
  note S = soundD [OF s]
  note U = sound_undone [OF s]
  show "sound_kept E (lookup E creds p name) s" by (rule wp_mono [OF lookup_wp [OF E S(1)]]) (auto intro: U)
  show "sound_kept E (getattr E creds ino) s" by (rule wp_mono [OF getattr_wp [OF E S(1)]]) (auto intro: U)
  show "sound_kept E (readdir E creds p cookie n) s" by (rule wp_mono [OF readdir_wp [OF E S(1,2)]]) (auto intro: U)
  show "sound_kept E (readlink E creds ino) s" by (rule wp_mono [OF readlink_wp [OF E S(1)]]) (auto intro: U)
  show "sound_kept E (getxattr E creds ino name) s" by (rule wp_mono [OF getxattr_wp [OF E S(1)]]) (auto intro: U)
  show "sound_kept E (listxattr E creds ino) s" by (rule wp_mono [OF listxattr_wp [OF E S(1)]]) (auto intro: U)
  have r: "sound E t" if "read_end E s ino t" for t
    using that soundI [OF s] tree_read [OF S(2)] acct_read [OF S(3)] by (auto simp: read_end_def frame_cs)
  show "sound_kept E (vfs_read E creds ino off len) s" if "unat off + unat len < 2 ^ 64"
    unfolding vfs_read_def by (rule wp_mono [OF read_with_atime_policy_wp [OF E S(1,3,6) that]]) (auto intro: U r)
  show "sound_kept E (vfs_open E creds ino mode) s"
    by (rule wp_mono [OF vfs_open_wp [OF E S(1)]])
       (auto intro: U sound_same [OF s])
qed

lemma void_keptI:
  "sound_kept E m s \<Longrightarrow> wp (void m) (\<lambda>_ t. sound E t) (\<lambda>e t. sound E t \<or> X e t) s"
  "sound_kept E n s \<Longrightarrow> wp (bindE n returnE) (\<lambda>_ t. sound E t) (\<lambda>e t. sound E t \<or> X e t) s"
  by (auto simp: wp_simps elim: wp_mono)

lemma sound_call:
  assumes E: "env_ok E" and s: "sound E s" and left: "numbers_left E s" and fits: "op_fits E opn s"
  shows "wp (run_op E opn) (\<lambda>_ t. sound E t) (\<lambda>e t. sound E t \<or> cut_short E opn (Inl e) s t) s"
proof (cases opn)
  case (Op_setattr creds ino attrs)
  show ?thesis
    unfolding Op_setattr run_op.simps wp_bindE
    by (rule wp_mono [OF sound_files(4) [OF E s fits [unfolded Op_setattr]]]) (auto simp: wp_simps cut_short_def)
qed (use fits in \<open>auto intro!: void_keptI sound_creates [OF E s left] sound_link [OF E s left] sound_files(1-3) [OF E s]
      sound_removes [OF E s left] sound_reads [OF E s]\<close>)


lemma ref_ns: "ns_ok (sealed (ref_env fails) dek) ref_fs"
proof -
  have S: "sealed (ref_env fails) dek p n = n" for p n by (rule sealed_eq [OF ref_seal])
  have D: "fs_dirent ref_fs p n = Some d \<longleftrightarrow> p = ROOT_INO \<and> n = [97] \<and> d = ref_entry" for p n d
    by (auto simp: ref_fs_def)
  have E: "entries (fs_dirent ref_fs) = {(ROOT_INO, [97])}" by (auto simp: entries_def ref_fs_def split: if_splits)
  have L: "links (fs_dirent ref_fs) 2 = {(ROOT_INO, [97])}" "links (fs_dirent ref_fs) ROOT_INO = {}" "subdirs (fs_dirent ref_fs) p = {}" for p
    by (auto simp: links_def subdirs_def D ref_entry_def ROOT_INO_def)
  have I: "fs_inode ref_fs c = Some i \<longleftrightarrow> c = ROOT_INO \<and> i = ref_root \<or> c = 2 \<and> i = ref_file" for c i
    by (auto simp: ref_fs_def ROOT_INO_def)
  have X: "fs_index ref_fs p k = Some e \<longleftrightarrow> p = ROOT_INO \<and> k = FIRST_DIRENT_ID \<and> e = ref_idx" for p k e
    by (auto simp: ref_fs_def)
  have O: "fs_orphan ref_fs c = None" for c by (simp add: ref_fs_def)
  have f: "i_kind ref_root = Dir" "i_parent_dir ref_root = ROOT_INO" "i_nlink ref_root = 2" "i_next_dirent_id ref_root = FIRST_DIRENT_ID + 1"
    "i_kind ref_file = File" "i_nlink ref_file = 1"
    by (simp_all add: ref_root_def ref_file_def inode_new_def is_dir_def)
  have e: "entry_ok (sealed (ref_env fails) dek) ref_fs ROOT_INO [97] ref_entry"
  proof -
    have "fs_inode ref_fs ROOT_INO = Some ref_root" "fs_inode ref_fs 2 = Some ref_file" by (simp_all add: I)
    then show ?thesis by (simp add: entry_ok_def X S f ref_entry_def ref_idx_def FIRST_DIRENT_ID_def)
  qed
  have "dir_ok ref_fs ROOT_INO ref_root" "file_ok ref_fs 2 ref_file"
    by (simp_all add: dir_ok_def file_ok_def L f rooted_root)
  with e show ?thesis
    unfolding ns_ok_def by (simp add: E D I X O f) (use f in \<open>auto simp: ref_entry_def\<close>)
qed

lemma ref_acct: "acct_ok 0x1000 ref_fs"
proof -
  have d: "dom (fs_inode ref_fs) = {ROOT_INO, 2}" by (auto simp: ref_fs_def)
  have ne: "ROOT_INO \<noteq> 2" by (simp add: ROOT_INO_def)
  show ?thesis
    unfolding acct_ok_def d using ne
    by (auto simp: ref_fs_def ref_root_def ref_file_def inode_new_def bill_ok_def chunks_inside_def)
qed

lemma ref_sound: "sound (ref_env fails) ref_vol"
proof -
  have c: "v_chunk_size ref_vol = 0x1000" by (simp add: ref_vol_def)
  have "chunk_size_valid 0x1000" unfolding chunk_size_valid_def by (auto intro!: exI [of _ 12])
  then show ?thesis
    unfolding sound_def tree_ok_def ref_vol_fs c by (simp add: ref_vol_inv ref_ns ref_acct)
qed

lemma ref_numbers: "numbers_left (ref_env fails) ref_vol"
  unfolding numbers_left_def ref_vol_fs
  by (auto simp: ids_left_def ref_fs_def ref_vol_def ref_root_def ref_file_def inode_new_def FIRST_DIRENT_ID_def split: if_splits)


end
