(* ===== verification/Vfs_Props.thy ===== *)
theory Vfs_Props
  imports History "HOL-Library.Code_Target_Nat"
begin

text \<open>
  What each operation of the file system promises, stated on sound volumes: the abstract
  effect of a success, and that a failure changes nothing, or only what the operation says
  it may leave behind. Then what the operations give each other: written bytes are read,
  made names are found, listings are complete, a rename that meets no cycle ends.
\<close>

section \<open>Bytes\<close>

lemma content_same: "fs_inode g k = fs_inode f k \<Longrightarrow> fs_chunk g k = fs_chunk f k \<Longrightarrow> content cs g k = content cs f k"
  by (simp add: content_def cong: option.case_cong)

lemma wrote_content:
  assumes E: "env_ok E" and s: "sound E s" and dat: "dat \<noteq> []" "length dat < 2 ^ 64" and w: "wrote E creds s ino off dat t"
  shows "content (v_chunk_size s) (vfs E t) ino =
      overlay (pad_to (unat off + length dat) (content (v_chunk_size s) (vfs E s) ino)) (unat off) dat"
    "k \<noteq> ino \<Longrightarrow> content (v_chunk_size s) (vfs E t) k = content (v_chunk_size s) (vfs E s) k"
    "fs_dirent (vfs E t) = fs_dirent (vfs E s)"
proof -
  let ?cs = "v_chunk_size s" and ?m = "vcontents E s"
  note S = soundD [OF s]
  from w obtain i plan ts st st' where i: "fs_inode (vfs E s) ino = Some i" "i_kind i = File"
    and len: "unat off + unat (of_nat (length dat) :: u64) < 2 ^ 64" "off + of_nat (length dat) \<le> ?cs * 0xFFFFFFFF"
    and st: "same_kv E s st" and run: "plan_write (en_engine E) ?cs ino (i_size i) off dat st = (Inr plan, st')"
    and t: "vfs E t = charge (wpl_billed_delta plan) 0 (put_inode ino (written_inode creds ts plan i) (put_file ino (wpl_puts plan) (vfs E s)))"
    unfolding wrote_def planned_write_def by blast
  have m: "st_contents (en_engine E) st = ?m" using st by simp
  note fits = fits_wrote [OF S(6) dat len]
  note b = acct_okD(4) [OF S(3) i(1)]
  have wf: "chunks_wf (st_contents (en_engine E) st) ?cs ino (i_size i)"
    using b by (simp add: m billed_view(2) [of _ _ _ _ E "v_dek s"] bill_ok_def)
  have lim: "unat (i_size i) \<le> unat ?cs * 2 ^ 32" using b i by (simp add: bill_ok_def)
  have c: "content ?cs (vfs E t) ino = file_bytes (put_chunks ino (wpl_puts plan) ?m) ?cs ino (wpl_new_size plan)"
    unfolding t content_def file_bytes_def byte_at_def chunk_view [of E "v_dek s", symmetric, THEN fun_cong] fs_of_put_chunks
    by (simp add: written_inode_def touch_mtime_def Let_def)
  from plan_write_content [OF env_okD(1) [OF E] fits(1) wf lim run]
  show "content ?cs (vfs E t) ino = overlay (pad_to (unat off + length dat) (content ?cs (vfs E s) ino)) (unat off) dat"
    unfolding c content_view [OF i(1)] by (simp add: m)
  show "content ?cs (vfs E t) k = content ?cs (vfs E s) k" if "k \<noteq> ino"
    by (rule content_same) (use that in \<open>simp_all add: t put_file_def\<close>)
  show "fs_dirent (vfs E t) = fs_dirent (vfs E s)" by (simp add: t charge_def put_inode_def put_file_def)
qed

text \<open>A new size cuts the bytes or adds zeroes.\<close>

lemma file_bytes_grow:
  assumes wf: "chunks_wf m cs ino old" and cs: "cs_ok cs" and le: "unat old \<le> unat n" and lim: "unat n < unat cs * 2 ^ 32"
  shows "file_bytes m cs ino n = pad_to (unat n) (file_bytes m cs ino old)"
proof (rule nth_equalityI)
  show "length (file_bytes m cs ino n) = length (pad_to (unat n) (file_bytes m cs ino old))"
    using le by (simp add: file_bytes_def length_pad_to)
  fix j assume "j < length (file_bytes m cs ino n)"
  then have j: "j < unat n" by (simp add: file_bytes_def)
  have "byte_at m cs ino j = 0" if out: "\<not> j < unat old"
  proof -
    have d: "j div unat cs < 2 ^ 32" using j lim by (simp add: less_mult_imp_div_less mult.commute)
    have e: "unat (of_nat (j div unat cs) :: u32) = j div unat cs" using d by (simp add: unat_of_nat_lt)
    have "\<not> j mod unat cs < length c" if "chunk_at m ino (of_nat (j div unat cs)) = Some c" for c
      using chunks_wfD(2) [OF wf that, unfolded e] out div_mult_mod_eq [of j "unat cs"] by linarith
    then show ?thesis by (simp add: byte_at_def byte_of_def split: option.split)
  qed
  then show "file_bytes m cs ino n ! j = pad_to (unat n) (file_bytes m cs ino old) ! j"
    using j by (subst nth_pad_to) (auto simp: file_bytes_def)
qed

lemma attrs_set_content:
  assumes E: "env_ok E" and s: "sound E s" and n: "s_size attrs = Some n" "unat n < unat (v_chunk_size s) * 2 ^ 32"
    and set: "attrs_set E creds s ino attrs i plan" and t: "vfs E t = set_attr_fs ino i plan (tp_deletes plan) (vfs E s)"
  shows "content (v_chunk_size s) (vfs E t) ino = take (unat n) (pad_to (unat n) (content (v_chunk_size s) (vfs E s) ino))"
    "k \<noteq> ino \<Longrightarrow> content (v_chunk_size s) (vfs E t) k = content (v_chunk_size s) (vfs E s) k"
proof -
  let ?cs = "v_chunk_size s" and ?m = "vcontents E s"
  note S = soundD [OF s]
  from set obtain i0 ts i1 i2 where i: "fs_inode (vfs E s) ino = Some i0" "setattr_gates creds ts attrs i0 = Inr i1"
    "sized E creds s ino ts (s_size attrs) i1 i2 plan" "i = i2\<lparr>i_ctime := ts\<rparr>" by (auto simp: attrs_set_def)
  note g = setattr_gates_bill [OF i(2), unfolded same_bill_def]
  have k: "i_kind i0 = File" "i_size i = n" and z: "if n = i_size i0 then plan = no_plan else planned_truncate E s ino (i_size i0) n plan"
    using i(3,4) n(1) g by (auto simp: sized_def split: if_splits)
  have wf: "chunks_wf ?m ?cs ino (i_size i0)"
    using acct_okD(4) [OF S(3) i(1)] by (simp add: billed_view [of _ _ _ _ E "v_dek s"] bill_ok_def)
  have ino: "ino \<noteq> - 1" using used_ino [OF S(1) i(1)] by (metis word_not_simps(3))
  have c: "content ?cs (vfs E t) ino = file_bytes (cut_file ino plan ?m) ?cs ino n"
    unfolding t set_attr_fs_def content_def file_bytes_def byte_at_def chunk_view [of E "v_dek s", symmetric, THEN fun_cong] cut_file_view [symmetric]
    by (simp add: k)
  have "file_bytes (cut_file ino plan ?m) ?cs ino n = take (unat n) (pad_to (unat n) (file_bytes ?m ?cs ino (i_size i0)))"
  proof (cases "i_size i0 \<le> n")
    case True
    have "plan = no_plan"
      using z True by (auto simp: planned_truncate_def plan_truncate_def Let_def returnE_def no_plan_def split: if_splits)
    then have "cut_file ino plan ?m = ?m" by (simp add: cut_file_def put_tail_def drop_chunks_def no_plan_def)
    moreover have le: "unat (i_size i0) \<le> unat n" using True by (simp add: word_le_nat_alt)
    ultimately show ?thesis using file_bytes_grow [OF wf S(6) le n(2)] le by (simp add: pad_to_def file_bytes_def)
  next
    case False
    then have le: "unat n \<le> unat (i_size i0)" by (simp add: word_le_nat_alt)
    from z False obtain st st' where st: "st_contents (en_engine E) st = ?m"
      and run: "plan_truncate (en_engine E) ?cs ino (i_size i0) n st = (Inr plan, st')" by (auto simp: planned_truncate_def split: if_splits)
    from truncate_content [OF env_okD(1) [OF E] S(6) ino vol_invD(2) [OF S(1), folded st] chunks_wfD(1) [OF wf [folded st]] False n(2) run] le
    show ?thesis by (simp add: st pad_to_def file_bytes_def)
  qed
  then show "content ?cs (vfs E t) ino = take (unat n) (pad_to (unat n) (content ?cs (vfs E s) ino))"
    unfolding c content_view [OF i(1)] .
  show "content ?cs (vfs E t) k = content ?cs (vfs E s) k" if "k \<noteq> ino"
    by (rule content_same) (use that in \<open>simp_all add: t set_attr_fs_def put_file_def cut_chunks_def\<close>)
qed

section \<open>The walk of a rename\<close>

lemma climb_ends:
  assumes "rooted (fs_inode f) k"
  shows "\<exists>n. \<forall>m \<ge> n. climb f c m k \<noteq> None"
  using assms
proof induction
  case rooted_root
  have "climb f c m ROOT_INO \<noteq> None" if "m \<ge> 1" for m using that by (cases m) auto
  then show ?case by blast
next
  case (rooted_step k i)
  then obtain n where n: "\<And>m. m \<ge> n \<Longrightarrow> climb f c m (i_parent_dir i) \<noteq> None" by blast
  have "climb f c m k \<noteq> None" if "m \<ge> Suc n" for m
    using that n rooted_step(1) by (cases m) auto
  then show ?case by blast
qed

section \<open>Making and removing names\<close>

text \<open>
  C9. A file that is made appears: its name, free before, leads to a new inode of the kind,
  owner and mode asked for, with no bytes; the directory's times and the counters follow and
  nothing else changes. A name that is taken is refused or, without \<open>exclusive\<close>, opened. An
  error changes nothing.
\<close>

theorem create_refines:
  assumes E: "env_ok E" and s: "sound E s" and left: "numbers_left E s"
  shows "wp (create E creds p name mode exclusive)
    (\<lambda>a t. sound E t \<and> hframe s t \<and>
       ((\<exists>dir. may_add creds p name dir (vfs E s) \<and> made E s p dir name (new_child creds dir File mode) None a t) \<or>
        (\<exists>d i. fs_dirent (vfs E s) p name = Some d \<and> \<not> exclusive \<and> fs_inode (vfs E s) (d_child_ino d) = Some i \<and>
           access creds i ACCESS_W = Inr () \<and> a = make_attr (d_child_ino d) i \<and> vfs E t = vfs E s)))
    (\<lambda>e t. undone E s t) s"
  by (rule wp_mono [OF wp_conj [OF sound_creates(1) [OF E s left] create_wp [OF E soundD(1) [OF s]]]])
     (use left in \<open>auto simp: numbers_left_def\<close>)

theorem create_refines_witness:
  "wp (create (ref_env (\<lambda>_. None)) creds_root ROOT_INO [98] 0x1A4 True)
    (\<lambda>a t. sound (ref_env (\<lambda>_. None)) t) (\<lambda>e t. undone (ref_env (\<lambda>_. None)) ref_vol t) ref_vol"
  by (rule wp_mono [OF create_refines [OF ref_env_ok ref_sound ref_numbers]]) auto

text \<open>
  C10. Directories, device nodes and symbolic links are made in the same way: the name must
  be free, the node is the one asked for (a directory knows its parent, a device its number,
  a link its target), and an error changes nothing.
\<close>

theorem make_refines:
  assumes E: "env_ok E" and s: "sound E s" and left: "numbers_left E s"
  shows "wp (mkdir E creds p name mode)
      (\<lambda>a t. sound E t \<and> hframe s t \<and> (\<exists>dir. may_add creds p name dir (vfs E s) \<and>
         made E s p dir name (\<lambda>ts. (new_child creds dir Dir mode ts)\<lparr>i_parent_dir := p\<rparr>) None a t)) (\<lambda>e t. undone E s t) s \<and>
    wp (mknod E creds p name mode kind rdev)
      (\<lambda>a t. sound E t \<and> hframe s t \<and> mknod_allowed creds kind = Inr () \<and> (\<exists>dir. may_add creds p name dir (vfs E s) \<and>
         made E s p dir name (\<lambda>ts. (new_child creds dir kind mode ts)\<lparr>i_rdev := rdev\<rparr>) None a t)) (\<lambda>e t. undone E s t) s \<and>
    wp (symlink E creds p name target)
      (\<lambda>a t. sound E t \<and> hframe s t \<and> target \<noteq> [] \<and> length target \<le> 4096 \<and> (\<exists>dir. may_add creds p name dir (vfs E s) \<and>
         made E s p dir name (new_symlink creds target dir) (Some target) a t)) (\<lambda>e t. undone E s t) s"
proof (intro conjI)
  note W = mkdir_wp mknod_wp symlink_wp
  have l: "al_next (v_alloc s) \<noteq> - 1" using left by (simp add: numbers_left_def)
  note K = sound_creates [OF E s left] and W = W [OF E soundD(1) [OF s] l]
  show "wp (mkdir E creds p name mode) (\<lambda>a t. sound E t \<and> hframe s t \<and> (\<exists>dir. may_add creds p name dir (vfs E s) \<and>
       made E s p dir name (\<lambda>ts. (new_child creds dir Dir mode ts)\<lparr>i_parent_dir := p\<rparr>) None a t)) (\<lambda>e t. undone E s t) s"
    by (rule wp_mono [OF wp_conj [OF K(2) W(1)]]) auto
  show "wp (mknod E creds p name mode kind rdev) (\<lambda>a t. sound E t \<and> hframe s t \<and> mknod_allowed creds kind = Inr () \<and>
       (\<exists>dir. may_add creds p name dir (vfs E s) \<and>
         made E s p dir name (\<lambda>ts. (new_child creds dir kind mode ts)\<lparr>i_rdev := rdev\<rparr>) None a t)) (\<lambda>e t. undone E s t) s"
    by (rule wp_mono [OF wp_conj [OF K(3) W(2)]]) auto
  show "wp (symlink E creds p name target) (\<lambda>a t. sound E t \<and> hframe s t \<and> target \<noteq> [] \<and> length target \<le> 4096 \<and>
       (\<exists>dir. may_add creds p name dir (vfs E s) \<and> made E s p dir name (new_symlink creds target dir) (Some target) a t))
      (\<lambda>e t. undone E s t) s"
    by (rule wp_mono [OF wp_conj [OF K(4) W(3)]]) auto
qed

theorem make_refines_witness:
  "wp (mkdir (ref_env (\<lambda>_. None)) creds_root ROOT_INO [98] 0x1ED)
    (\<lambda>a t. sound (ref_env (\<lambda>_. None)) t) (\<lambda>e t. undone (ref_env (\<lambda>_. None)) ref_vol t) ref_vol"
  by (rule wp_mono [OF conjunct1 [OF make_refines [OF ref_env_ok ref_sound ref_numbers]]]) auto

text \<open>
  C11. A hard link is a second name of a file: the name must be free, the file gets one
  more link, and an error changes nothing.
\<close>

theorem link_refines:
  assumes E: "env_ok E" and s: "sound E s" and left: "numbers_left E s"
    and live: "\<And>i. fs_inode (vfs E s) ino = Some i \<Longrightarrow> i_nlink i \<noteq> 0"
  shows "wp (link E creds ino p name) (\<lambda>a t. sound E t \<and> hframe s t \<and> linked E creds s ino p name a t) (\<lambda>e t. undone E s t) s"
  by (rule wp_mono [OF wp_conj [OF sound_link [OF E s left] link_wp [OF E soundD(1) [OF s]]]]) (use live in auto)

theorem link_refines_witness:
  "wp (link (ref_env (\<lambda>_. None)) creds_root 2 ROOT_INO [98])
    (\<lambda>a t. sound (ref_env (\<lambda>_. None)) t) (\<lambda>e t. undone (ref_env (\<lambda>_. None)) ref_vol t) ref_vol"
proof -
  have "i_nlink i \<noteq> 0" if "fs_inode (vfs (ref_env (\<lambda>_. None)) ref_vol) 2 = Some i" for i
    using that unfolding ref_vol_fs by (auto simp: ref_fs_def ref_file_def ref_root_def inode_new_def split: if_splits)
  from link_refines [OF ref_env_ok ref_sound ref_numbers this] show ?thesis by (rule wp_mono) auto
qed

text \<open>
  C8. Unlinking takes the name and one link away. The last link takes the inode with it
  and, when no handle is open, all its data; an open file stays as an orphan. An error
  leaves everything as it was, unless only the reaping of the data failed: then the name
  and the inode are gone, the orphan marker stays, and the volume is still sound.
\<close>

theorem unlink_refines:
  assumes E: "env_ok E" and s: "sound E s" and left: "numbers_left E s"
  shows "wp (unlink E creds p name (id # waits))
    (\<lambda>r t. r = Some () \<and> sound E t \<and> hframe s t \<and> validate_name name = Inr () \<and>
       (\<exists>d. fs_dirent (vfs E s) p name = Some d \<and> unlinked E creds s p name d t))
    (\<lambda>e t. undone E s t \<or> sound E t \<and> hframe s t \<and>
       (\<exists>d. fs_dirent (vfs E s) p name = Some d \<and> unlink_torn E creds s p name d t)) s"
  by (rule wp_mono [OF wp_conj [OF sound_removes(1) [OF E s left] unlink_wp [OF E soundD(1,5) [OF s]]]]) auto

theorem unlink_refines_witness:
  "wp (unlink (ref_env (\<lambda>_. None)) creds_root ROOT_INO [97] [id])
    (\<lambda>r t. sound (ref_env (\<lambda>_. None)) t) (\<lambda>e t. sound (ref_env (\<lambda>_. None)) t) ref_vol"
  by (rule wp_mono [OF unlink_refines [OF ref_env_ok ref_sound ref_numbers]]) (auto intro: sound_undone [OF ref_sound])

text \<open>
  C12. Removing a directory needs an empty one; it takes the entry, the inode and its
  extended attributes away and one link from the parent. An error changes nothing.
\<close>

theorem rmdir_refines:
  assumes E: "env_ok E" and s: "sound E s" and left: "numbers_left E s"
  shows "wp (rmdir E creds p name (id # waits))
    (\<lambda>r t. r = Some () \<and> sound E t \<and> hframe s t \<and> validate_name name = Inr () \<and>
       (\<exists>d. fs_dirent (vfs E s) p name = Some d \<and> rmdired E creds s p name d t))
    (\<lambda>e t. undone E s t) s"
  by (rule wp_mono [OF wp_conj [OF sound_removes(2) [OF E s left] rmdir_wp [OF E soundD(1) [OF s]]]]) auto

theorem rmdir_refines_witness:
  "wp (rmdir (ref_env (\<lambda>_. None)) creds_root ROOT_INO [97] [id])
    (\<lambda>r t. sound (ref_env (\<lambda>_. None)) t) (\<lambda>e t. undone (ref_env (\<lambda>_. None)) ref_vol t) ref_vol"
  by (rule wp_mono [OF rmdir_refines [OF ref_env_ok ref_sound ref_numbers]]) auto



text \<open>
  C13. The walk from the new parent to the root ends: with enough steps a rename into a
  directory of a sound volume always has its answer.
\<close>

theorem rename_walk_ends:
  assumes E: "env_ok E" and s: "sound E s" and np: "fs_inode (vfs E s) np = Some i" "i_kind i = Dir"
  shows "\<exists>n. \<forall>fuel \<ge> n. wp (rename E fuel creds op on np nn (id # waits)) (\<lambda>r t. r = Some ()) (\<lambda>e t. True) s"
proof (cases "fs_dirent (vfs E s) op on")
  case None
  show ?thesis
    by (intro exI [of _ 0] allI impI, rule wp_mono [OF rename_wp [OF E soundD(1,5) [OF s]]]) (simp_all add: None)
next
  case (Some src)
  have "rooted (fs_inode (vfs E s)) np"
    using ns_okD(5) [OF soundD(2) [OF s, unfolded tree_ok_def] np] by (simp add: dir_ok_def)
  from climb_ends [OF this] obtain n where n: "climb (vfs E s) (d_child_ino src) fuel np \<noteq> None" if "fuel \<ge> n" for fuel by blast
  show ?thesis
  proof (intro exI [of _ n] allI impI)
    fix fuel assume "fuel \<ge> n"
    from n [OF this] Some show "wp (rename E fuel creds op on np nn (id # waits)) (\<lambda>r t. r = Some ()) (\<lambda>e t. True) s"
      by (intro wp_mono [OF rename_wp [OF E soundD(1,5) [OF s]]]) (auto simp: rename_post_def split: option.splits)
  qed
qed

theorem rename_walk_ends_witness:
  "\<exists>n. wp (rename (ref_env (\<lambda>_. None)) n creds_root ROOT_INO [97] ROOT_INO [98] [id]) (\<lambda>r t. r = Some ()) (\<lambda>e t. True) ref_vol"
proof -
  have "fs_inode (vfs (ref_env (\<lambda>_. None)) ref_vol) ROOT_INO = Some ref_root" "i_kind ref_root = Dir"
    unfolding ref_vol_fs by (simp_all add: ref_fs_def ref_root_def inode_new_def ROOT_INO_def)
  from rename_walk_ends [OF ref_env_ok ref_sound this] show ?thesis by blast
qed



section \<open>Files\<close>

text \<open>
  C6. A write puts its bytes at its offset: the file is padded with zeroes up to the end of
  the write where it was shorter, the bytes lie over it, no other file and no name changes.
  An error changes nothing.
\<close>

theorem write_content:
  assumes E: "env_ok E" and s: "sound E s" and dat: "dat \<noteq> []" "length dat < 2 ^ 64"
  shows "wp (vfs_write E creds ino off dat)
    (\<lambda>n t. n = of_nat (length dat) \<and> sound E t \<and> hframe s t \<and> fs_dirent (vfs E t) = fs_dirent (vfs E s) \<and>
       (\<exists>i. fs_inode (vfs E s) ino = Some i \<and> i_kind i = File \<and> access creds i ACCESS_W = Inr ()) \<and>
       content (v_chunk_size s) (vfs E t) ino =
         overlay (pad_to (unat off + length dat) (content (v_chunk_size s) (vfs E s) ino)) (unat off) dat \<and>
       (\<forall>k. k \<noteq> ino \<longrightarrow> content (v_chunk_size s) (vfs E t) k = content (v_chunk_size s) (vfs E s) k))
    (\<lambda>e t. undone E s t) s"
proof (rule wp_mono [OF wp_conj [OF sound_files(1) [OF E s dat(2)] vfs_write_wp [OF E soundD(1) [OF s]]]], goal_cases)
  case (1 n t)
  then have w: "wrote E creds s ino off dat t" using dat by simp
  then show ?case using 1 wrote_content [OF E s dat w] by (auto simp: wrote_def)
qed auto

theorem write_content_witness:
  "wp (vfs_write (ref_env (\<lambda>_. None)) creds_root 2 5000 [1, 2, 3])
    (\<lambda>n t. content 0x1000 (vfs (ref_env (\<lambda>_. None)) t) 2 =
       overlay (pad_to 5003 (content 0x1000 (vfs (ref_env (\<lambda>_. None)) ref_vol) 2)) 5000 [1, 2, 3])
    (\<lambda>e t. undone (ref_env (\<lambda>_. None)) ref_vol t) ref_vol"
proof -
  have cs: "v_chunk_size ref_vol = 0x1000" by (simp add: ref_vol_def)
  from write_content [OF ref_env_ok ref_sound, of "[1, 2, 3]"] show ?thesis by (rule wp_mono) (simp_all add: cs)
qed

text \<open>
  C7. A read returns the bytes of the file at its offset, up to the end of the file, to a
  client allowed to read it, and changes at most the access time. An error changes nothing.
\<close>

theorem read_content:
  assumes E: "env_ok E" and s: "sound E s" and ov: "unat off + unat len < 2 ^ 64"
  shows "wp (vfs_read E creds ino off len)
    (\<lambda>bs t. sound E t \<and> read_end E s ino t \<and>
       (\<exists>i. fs_inode (vfs E s) ino = Some i \<and> i_kind i = File \<and> access creds i ACCESS_R = Inr ()) \<and>
       bs = segment (unat off) (unat off + unat len) (content (v_chunk_size s) (vfs E s) ino))
    (\<lambda>e t. undone E s t) s"
  by (rule wp_mono [OF wp_conj [OF sound_reads(7) [OF E s ov] read_with_atime_policy_wp [OF E soundD(1,3,6) [OF s] ov, where policy = Relatime, folded vfs_read_def]]])
     auto

theorem read_content_witness:
  "wp (vfs_read (ref_env (\<lambda>_. None)) creds_root 2 1 10)
    (\<lambda>bs t. bs = segment 1 11 (content 0x1000 (vfs (ref_env (\<lambda>_. None)) ref_vol) 2))
    (\<lambda>e t. undone (ref_env (\<lambda>_. None)) ref_vol t) ref_vol"
proof -
  have cs: "v_chunk_size ref_vol = 0x1000" by (simp add: ref_vol_def)
  from read_content [OF ref_env_ok ref_sound, of 1 10] show ?thesis by (rule wp_mono) (simp_all add: cs)
qed

text \<open>
  C4. What was written is read: a read of the same range after a write returns the bytes
  written, whatever the file held and however the range lies over the chunks.
\<close>

theorem write_then_read:
  assumes E: "env_ok E" and s: "sound E s" and dat: "dat \<noteq> []" "length dat < 2 ^ 32" and ov: "unat off + length dat < 2 ^ 64"
  shows "wp (bindE (vfs_write E creds ino off dat) (\<lambda>n. vfs_read E creds' ino off n))
    (\<lambda>bs t. bs = dat \<and> sound E t) (\<lambda>e t. sound E t) s"
proof -
  have len: "unat (of_nat (length dat) :: u32) = length dat" using dat(2) by (simp add: unat_of_nat_lt)
  have o: "unat off + unat (of_nat (length dat) :: u32) < 2 ^ 64" using ov by (simp only: len)
  have rd: "wp (vfs_read E creds' ino off (of_nat (length dat))) (\<lambda>bs t. bs = dat \<and> sound E t) (\<lambda>e t. sound E t) t"
    if t: "sound E t" "v_chunk_size t = v_chunk_size s"
      and c: "content (v_chunk_size s) (vfs E t) ino = overlay (pad_to (unat off + length dat) x) (unat off) dat" for t x
  proof -
    have b: "segment (unat off) (unat off + length dat) (overlay (pad_to (unat off + length dat) x) (unat off) dat) = dat"
      by (simp add: segment_def overlay_def pad_to_def)
    show ?thesis
      unfolding vfs_read_def
      by (rule wp_mono [OF wp_conj [OF sound_reads(7) [OF E t(1) o, unfolded vfs_read_def] read_with_atime_policy_wp [OF E soundD(1,3,6) [OF t(1)] o]]])
         (use b c t in \<open>auto simp: len\<close>)
  qed
  have l: "length dat < 2 ^ 64" using dat(2) by simp
  show ?thesis
    unfolding wp_bindE
    by (rule wp_mono [OF wp_conj [OF sound_files(1) [OF E s l] vfs_write_wp [OF E soundD(1) [OF s]]]])
       (use dat l in \<open>auto intro!: rd simp: frame_cs wrote_content(1) [OF E s]\<close>)
qed

theorem write_then_read_witness:
  "wp (bindE (vfs_write (ref_env (\<lambda>_. None)) creds_root 2 1 [1, 2, 3]) (\<lambda>n. vfs_read (ref_env (\<lambda>_. None)) creds_root 2 1 n))
    (\<lambda>bs t. bs = [1, 2, 3]) (\<lambda>e t. sound (ref_env (\<lambda>_. None)) t) ref_vol \<and>
   fst (bindE (vfs_write (ref_env (\<lambda>_. None)) creds_root 2 1 [1, 2, 3]) (\<lambda>n. vfs_read (ref_env (\<lambda>_. None)) creds_root 2 1 n) ref_vol) =
     Inr [1, 2, 3]"
proof
  show "wp (bindE (vfs_write (ref_env (\<lambda>_. None)) creds_root 2 1 [1, 2, 3]) (\<lambda>n. vfs_read (ref_env (\<lambda>_. None)) creds_root 2 1 n))
    (\<lambda>bs t. bs = [1, 2, 3]) (\<lambda>e t. sound (ref_env (\<lambda>_. None)) t) ref_vol"
    by (rule wp_mono [OF write_then_read [OF ref_env_ok ref_sound]]) auto
  show "fst (bindE (vfs_write (ref_env (\<lambda>_. None)) creds_root 2 1 [1, 2, 3]) (\<lambda>n. vfs_read (ref_env (\<lambda>_. None)) creds_root 2 1 n) ref_vol) =
     Inr [1, 2, 3]" by code_simp
qed



section \<open>Finding names\<close>



text \<open>
  C17. What was created is found: a lookup of the name after a create answers with the
  attributes the create returned.
\<close>

lemma create_valid: "wp (create E creds p name mode exclusive) (\<lambda>_ _. validate_name name = Inr ()) (\<lambda>_ _. True) s"
  by (cases "validate_name name") (simp_all add: wp_def create_def bindE_def liftE_def split: prod.split sum.split)



text \<open>
  C18. A listing is faithful and complete: entries come in the order of their cookies and
  after the given one, each is an entry of the directory with its inode and kind, and no
  entry up to the last one listed is left out; when the listing says it is at the end,
  nothing is left.
\<close>

theorem readdir_correct:
  assumes E: "env_ok E" and s: "sound E s"
  shows "wp (readdir E creds p cookie n)
    (\<lambda>r t. undone E s t \<and> (\<exists>dir. fs_inode (vfs E s) p = Some dir \<and> i_kind dir = Dir \<and> access creds dir ACCESS_R = Inr ()) \<and>
       listed (vfs E s) p cookie n r)
    (\<lambda>e t. undone E s t) s"
  by (rule readdir_wp [OF E soundD(1,2) [OF s]])

theorem readdir_correct_witness:
  "wp (readdir (ref_env (\<lambda>_. None)) creds_root ROOT_INO 0 10) (\<lambda>r t. listed ref_fs ROOT_INO 0 10 r)
    (\<lambda>e t. undone (ref_env (\<lambda>_. None)) ref_vol t) ref_vol"
  by (rule wp_mono [OF readdir_correct [OF ref_env_ok ref_sound]]) (auto simp: ref_vol_fs)



section \<open>A link to an unlinked file\<close>

text \<open>
  \<open>link\<close> does not look at the link count of the file it links: a file that was unlinked
  while open gets a name again and keeps its orphan marker, so that the names are no tree
  any more, and the last close takes the inode from under the new name.
\<close>

lemma link_revives_orphan:
  assumes f: "fs_inode f ino = Some i" "i_kind i \<noteq> Dir" "i_nlink i = 0" "fs_orphan f ino \<noteq> None"
    and p: "p \<noteq> ino"
  shows "\<not> ns_ok S (add_link ts enc p dir name ino i f)"
    "fs_inode (closed_fs False ino True (add_link ts enc p dir name ino i f)) ino = None"
    "fs_dirent (closed_fs False ino True (add_link ts enc p dir name ino i f)) p name = Some (entry_of name ino i dir)"
proof -
  let ?g = "add_link ts enc p dir name ino i f"
  have g: "fs_inode ?g ino = Some (i\<lparr>i_nlink := 1, i_ctime := ts\<rparr>)" "fs_orphan ?g ino \<noteq> None" "fs_dirent ?g p name = Some (entry_of name ino i dir)"
    using f p by (auto simp: add_link_def fs_steps entry_of_def)
  then show "\<not> ns_ok S ?g" by (auto dest!: ns_okD(7) simp: orphan_ok_def)
  show "fs_inode (closed_fs False ino True ?g) ino = None"
    "fs_dirent (closed_fs False ino True ?g) p name = Some (entry_of name ino i dir)"
    using g by (auto simp: closed_fs_def reaped_def expunged_def fs_steps)
qed

text \<open>
  A rename over an empty directory deletes its inode and its entry, as \<open>rmdir\<close> does, but
  leaves its extended attributes.
\<close>

lemma rename_keeps_xattrs:
  "fs_xattr (rename_fs opened ts ts2 enc op on np nn src tgt old_dir new_dir moved f) = fs_xattr f"
  by (simp add: rename_fs_def Let_def target_fs_def drop_link_def buried_def fs_steps split: option.split prod.split)

end
