(* ===== verification/Fsck.thy ===== *)
theory Fsck
  imports Names Quota Engine
begin

text \<open>
  The volume checker (\<^verbatim>\<open>fsck.rs\<close>): one pass over all keys of a volume, the checks of
  filesystem and block volumes on what the pass collected, and the rewriting of the
  counters. Hash maps are association lists in the order of the pass, counts are functions
  that start at zero. The reader is a parameter: the trait \<open>FsckRead\<close> has the scan of all
  keys next to the point reads of the engine.
\<close>

section \<open>Reports\<close>

datatype problem =
    P_RootMissing
  | P_RootNotDir
  | P_RootParent
  | P_ParentMissing u64 bytes
  | P_ParentNotDir u64 bytes
  | P_DirentId u64 bytes
  | P_Dangling u64 bytes u64
  | P_KindMismatch u64 bytes
  | P_ChildParent u64 bytes
  | P_NoIndex u64 bytes
  | P_IndexDisagrees u64 bytes
  | P_OtherName u64 bytes
  | P_SealedName u64 bytes
  | P_IndexAlone u64 u64
  | P_ManyDirents u64
  | P_DirLinks u64 u32 u32
  | P_DirUnreachable u64
  | P_FileLinks u64 u32 u32
  | P_NoTarget u64
  | P_ChunkOversize u64 u32 nat
  | P_Billed u64 u64 u64
  | P_ChunksUnknown u64
  | P_Unreachable u64
  | P_BlockKey bytes
  | P_BlockOwner u64 u32
  | P_BlockBeyond u32 u64 u64
  | P_BlockOversize u32 nat u64
  | P_NoSuperblock

datatype leftover = L_ChunkReap u64 | L_Marker u64

record fsck_report =
  fr_problems :: "problem list"
  fr_reapable :: "leftover list"
  fr_inodes_counted :: i64
  fr_bytes_counted :: i64
  fr_counter_inodes :: i64
  fr_counter_bytes :: i64

definition counters_match :: "fsck_report \<Rightarrow> bool" where
  "counters_match r = (fr_inodes_counted r = fr_counter_inodes r \<and> fr_bytes_counted r = fr_counter_bytes r)"

definition is_clean :: "fsck_report \<Rightarrow> bool" where
  "is_clean r = (fr_problems r = [] \<and> counters_match r)"

section \<open>The pass over all keys\<close>

record scanned =
  sn_inodes :: "(u64 \<times> inode) list"
  sn_dirents :: "((u64 \<times> bytes) \<times> dirent) list"
  sn_idx :: "((u64 \<times> u64) \<times> dirent_idx) list"
  sn_chunks :: "(u64 \<times> (u32 \<times> nat) list) list"
  sn_orphans :: "(u64 \<times> orphan) list"
  sn_symlinks :: "u64 list"
  sn_counter_bytes :: i64
  sn_counter_inodes :: i64

text \<open>\<open>chunks.entry(ino).or_default().push(..)\<close>.\<close>

definition push_chunk :: "u64 \<Rightarrow> u32 \<times> nat \<Rightarrow> (u64 \<times> (u32 \<times> nat) list) list \<Rightarrow> (u64 \<times> (u32 \<times> nat) list) list" where
  "push_chunk ino c m = AList.update ino ((case map_of m ino of None \<Rightarrow> [] | Some cs \<Rightarrow> cs) @ [c]) m"

definition scan_row :: "codecs \<Rightarrow> bytes \<Rightarrow> bytes \<Rightarrow> scanned \<Rightarrow> core_error + scanned" where
  "scan_row C key v s =
     (case key of
        [] \<Rightarrow> Inr s
      | tag # _ \<Rightarrow>
          if tag = 105 then
            (case parse_ino key of None \<Rightarrow> Inr s
             | Some ino \<Rightarrow> map_sum id (\<lambda>i. s\<lparr>sn_inodes := AList.update ino i (sn_inodes s)\<rparr>) (inode_decode C v))
          else if tag = 100 then
            (case parse_ino key of None \<Rightarrow> Inr s
             | Some p \<Rightarrow> map_sum id (\<lambda>d. s\<lparr>sn_dirents := AList.update (p, drop 9 key) d (sn_dirents s)\<rparr>) (dirent_decode C v))
          else if tag = 101 then
            (case parse_dirent_idx key of None \<Rightarrow> Inr s
             | Some k \<Rightarrow> map_sum id (\<lambda>e. s\<lparr>sn_idx := AList.update k e (sn_idx s)\<rparr>) (dirent_idx_decode C v))
          else if tag = 99 then
            (case parse_chunk key of None \<Rightarrow> Inr s
             | Some (ino, idx) \<Rightarrow> Inr (s\<lparr>sn_chunks := push_chunk ino (idx, length v) (sn_chunks s)\<rparr>))
          else if tag = 111 then
            (case parse_ino key of None \<Rightarrow> Inr s
             | Some ino \<Rightarrow> map_sum id (\<lambda>x. s\<lparr>sn_orphans := AList.update ino x (sn_orphans s)\<rparr>) (orphan_decode C v))
          else if tag = 115 then
            (case parse_ino key of None \<Rightarrow> Inr s
             | Some ino \<Rightarrow> Inr (s\<lparr>sn_symlinks := List.insert ino (sn_symlinks s)\<rparr>))
          else Inr s)"

text \<open>\<open>scan(..)\<close> of the reader: every key, in order.\<close>

type_synonym 'db scan_all = "'db \<Rightarrow> nat \<Rightarrow> slatedb_error + (bytes \<times> bytes) list"

definition scan_all_ok :: "'db engine \<Rightarrow> 'db scan_all \<Rightarrow> bool" where
  "scan_all_ok E sc =
     (\<forall>db t kvs. sc db t = Inr kvs \<longrightarrow>
        sorted_wrt (<) (map fst kvs) \<and> (\<forall>k v. (k, v) \<in> set kvs \<longleftrightarrow> eg_contents E db k = Some v))"

definition store_scan_all :: "'db scan_all \<Rightarrow> ('db store, slatedb_error, (bytes \<times> bytes) list) act" where
  "store_scan_all sc s = (sc (st_db s) (st_ticks s), tick s)"

fun scan_rows :: "'db engine \<Rightarrow> codecs \<Rightarrow> (bytes \<times> bytes) list \<Rightarrow> scanned \<Rightarrow> ('db store, core_error, scanned) act" where
  "scan_rows E C [] s = bindE (core (store_next E)) (\<lambda>_. returnE s)"
| "scan_rows E C ((k, v) # kvs) s =
     bindE (core (store_next E)) (\<lambda>_. bindE (liftE (scan_row C k v s)) (\<lambda>s. scan_rows E C kvs s))"

definition scanned_empty :: scanned where
  "scanned_empty = \<lparr>sn_inodes = [], sn_dirents = [], sn_idx = [], sn_chunks = [], sn_orphans = [], sn_symlinks = [],
     sn_counter_bytes = 0, sn_counter_inodes = 0\<rparr>"

definition fsck_scan_all :: "'db engine \<Rightarrow> 'db scan_all \<Rightarrow> codecs \<Rightarrow> ('db store, core_error, scanned) act" where
  "fsck_scan_all E sc C =
     bindE (core (store_scan_all sc)) (\<lambda>kvs.
     bindE (scan_rows E C kvs scanned_empty) (\<lambda>s.
     bindE (core (store_get E (key_bytes KQuotaBytes))) (\<lambda>qb.
     bindE (core (store_get E (key_bytes KQuotaInodes))) (\<lambda>qi.
       returnE (s\<lparr>sn_counter_bytes := decode_counter qb, sn_counter_inodes := decode_counter qi\<rparr>)))))"

section \<open>Filesystem volumes\<close>

definition check_root :: "scanned \<Rightarrow> problem list" where
  "check_root s =
     (case map_of (sn_inodes s) ROOT_INO of
        None \<Rightarrow> [P_RootMissing]
      | Some root \<Rightarrow>
          (if is_dir (i_kind root) then [] else [P_RootNotDir]) @
          (if i_parent_dir root \<noteq> ROOT_INO then [P_RootParent] else []))"

record dirent_pass =
  dp_problems :: "problem list"
  dp_links :: "u64 \<Rightarrow> u32"
  dp_child_dirs :: "u64 \<Rightarrow> u32"
  dp_children :: "u64 \<Rightarrow> u64 list"
  dp_max_dirent_id :: "u64 \<Rightarrow> u64"

definition dirent_problems :: "(u64 \<Rightarrow> bytes \<Rightarrow> core_error + bytes) \<Rightarrow> scanned \<Rightarrow> u64 \<Rightarrow> bytes \<Rightarrow> dirent \<Rightarrow> problem list" where
  "dirent_problems names s parent enc_name d =
     (let tag = d_name d in
      (case map_of (sn_inodes s) parent of
         None \<Rightarrow> [P_ParentMissing parent tag]
       | Some p \<Rightarrow>
           if \<not> is_dir (i_kind p) then [P_ParentNotDir parent tag]
           else if i_next_dirent_id p \<le> d_dirent_id d then [P_DirentId parent tag] else []) @
      (case map_of (sn_inodes s) (d_child_ino d) of
         None \<Rightarrow> [P_Dangling parent tag (d_child_ino d)]
       | Some c \<Rightarrow>
           (if i_kind c \<noteq> d_kind d then [P_KindMismatch parent tag] else []) @
           (if is_dir (i_kind c) \<and> i_parent_dir c \<noteq> parent then [P_ChildParent parent tag] else [])) @
      (case map_of (sn_idx s) (parent, d_dirent_id d) of
         None \<Rightarrow> [P_NoIndex parent tag]
       | Some e \<Rightarrow>
           if e_enc_name e \<noteq> enc_name \<or> e_child_ino e \<noteq> d_child_ino d \<or> e_kind e \<noteq> d_kind d
           then [P_IndexDisagrees parent tag] else []) @
      (case names parent enc_name of
         Inr name \<Rightarrow> if name = d_name d then [] else [P_OtherName parent tag]
       | Inl _ \<Rightarrow> [P_SealedName parent tag]))"

definition child_is_dir :: "scanned \<Rightarrow> u64 \<Rightarrow> bool" where
  "child_is_dir s c = (case map_of (sn_inodes s) c of None \<Rightarrow> False | Some i \<Rightarrow> is_dir (i_kind i))"

definition check_dirent ::
  "(u64 \<Rightarrow> bytes \<Rightarrow> core_error + bytes) \<Rightarrow> scanned \<Rightarrow> (u64 \<times> bytes) \<times> dirent \<Rightarrow> dirent_pass \<Rightarrow> dirent_pass" where
  "check_dirent names s row a =
     (case row of ((parent, enc_name), d) \<Rightarrow>
        \<lparr>dp_problems = dp_problems a @ dirent_problems names s parent enc_name d,
         dp_links = (dp_links a)(d_child_ino d := dp_links a (d_child_ino d) + 1),
         dp_child_dirs = (if child_is_dir s (d_child_ino d)
                          then (dp_child_dirs a)(parent := dp_child_dirs a parent + 1) else dp_child_dirs a),
         dp_children = (dp_children a)(parent := dp_children a parent @ [d_child_ino d]),
         dp_max_dirent_id = (dp_max_dirent_id a)(parent := max (dp_max_dirent_id a parent) (d_dirent_id d))\<rparr>)"

definition dirent_pass_empty :: dirent_pass where
  "dirent_pass_empty = \<lparr>dp_problems = [], dp_links = (\<lambda>_. 0), dp_child_dirs = (\<lambda>_. 0), dp_children = (\<lambda>_. []), dp_max_dirent_id = (\<lambda>_. 0)\<rparr>"

definition check_dirents :: "(u64 \<Rightarrow> bytes \<Rightarrow> core_error + bytes) \<Rightarrow> scanned \<Rightarrow> dirent_pass" where
  "check_dirents names s = fold (check_dirent names s) (sn_dirents s) dirent_pass_empty"

definition check_idx :: "scanned \<Rightarrow> problem list" where
  "check_idx s =
     concat (map (\<lambda>((parent, dirent_id), _).
       if list_ex (\<lambda>((p, _), d). p = parent \<and> d_dirent_id d = dirent_id) (sn_dirents s) then []
       else [P_IndexAlone parent dirent_id]) (sn_idx s))"

definition has_orphan :: "scanned \<Rightarrow> u64 \<Rightarrow> bool" where
  "has_orphan s ino = (map_of (sn_orphans s) ino \<noteq> None)"

definition inode_problems :: "scanned \<Rightarrow> dirent_pass \<Rightarrow> u64 \<Rightarrow> inode \<Rightarrow> problem list" where
  "inode_problems s a ino i =
     (let links = dp_links a ino in
      if is_dir (i_kind i) then
        (if 1 < links then [P_ManyDirents ino] else []) @
        (let expected = 2 + dp_child_dirs a ino in if i_nlink i \<noteq> expected then [P_DirLinks ino (i_nlink i) expected] else []) @
        (if ino \<noteq> ROOT_INO \<and> links = 0 then [P_DirUnreachable ino] else [])
      else
        (if i_nlink i \<noteq> links then
           if i_nlink i = 0 \<and> has_orphan s ino then [] else [P_FileLinks ino (i_nlink i) links]
         else []) @
        (if i_kind i = Symlink \<and> ino \<notin> set (sn_symlinks s) then [P_NoTarget ino] else []))"

definition chunks_of :: "scanned \<Rightarrow> u64 \<Rightarrow> (u32 \<times> nat) list" where
  "chunks_of s ino = (case map_of (sn_chunks s) ino of None \<Rightarrow> [] | Some cs \<Rightarrow> cs)"

definition fsck_billed :: "u64 \<Rightarrow> scanned \<Rightarrow> u64 \<Rightarrow> inode \<Rightarrow> u64" where
  "fsck_billed cs s ino i = sum_list (map (\<lambda>(idx, len). billed_chunk_bytes (i_size i) (ucast idx * cs) len) (chunks_of s ino))"

definition billing_problems :: "u64 \<Rightarrow> scanned \<Rightarrow> u64 \<Rightarrow> inode \<Rightarrow> problem list" where
  "billing_problems cs s ino i =
     concat (map (\<lambda>(idx, len). if cs < of_nat len then [P_ChunkOversize ino idx len] else []) (chunks_of s ino)) @
     (let billed = fsck_billed cs s ino i in if billed \<noteq> i_billed_bytes i then [P_Billed ino (i_billed_bytes i) billed] else [])"

definition check_inodes :: "u64 \<Rightarrow> scanned \<Rightarrow> dirent_pass \<Rightarrow> problem list \<times> i64" where
  "check_inodes cs s a =
     fold (\<lambda>(ino, i) (ps, bytes_counted).
       (ps @ inode_problems s a ino i @ billing_problems cs s ino i, bytes_counted + fsck_billed cs s ino i)) (sn_inodes s) ([], 0)"

definition check_stray :: "scanned \<Rightarrow> problem list \<times> leftover list" where
  "check_stray s =
     (let stray = filter (\<lambda>ino. map_of (sn_inodes s) ino = None) (map fst (sn_chunks s)) in
      (map P_ChunksUnknown (filter (\<lambda>ino. \<not> has_orphan s ino) stray),
       map L_ChunkReap (filter (has_orphan s) stray) @ map L_Marker (map fst (sn_orphans s))))"

text \<open>The walk from the root, breadth first.\<close>

definition visit :: "scanned \<Rightarrow> u64 \<Rightarrow> u64 set \<times> u64 list \<Rightarrow> u64 set \<times> u64 list" where
  "visit s child acc =
     (case acc of (reachable, queue) \<Rightarrow>
        if child \<in> reachable then (reachable, queue)
        else (insert child reachable, if child_is_dir s child then queue @ [child] else queue))"

lemma visit_simps:
  "c \<in> R \<Longrightarrow> visit s c (R, q) = (R, q)"
  "c \<notin> R \<Longrightarrow> visit s c (R, q) = (insert c R, if child_is_dir s c then q @ [c] else q)"
  by (simp_all add: visit_def)

lemma visit_all_grows:
  "fold (visit s) cs (R, q) = (R', q') \<Longrightarrow> R \<subseteq> R' \<and> (R' = R \<longrightarrow> q' = q)"
proof (induction cs arbitrary: R q)
  case (Cons c cs)
  show ?case
  proof (cases "c \<in> R")
    case True
    with Cons.prems have "fold (visit s) cs (R, q) = (R', q')" by (simp add: visit_simps)
    then show ?thesis by (rule Cons.IH)
  next
    case False
    with Cons.prems have "fold (visit s) cs (insert c R, if child_is_dir s c then q @ [c] else q) = (R', q')" by (simp add: visit_simps)
    from Cons.IH [OF this] False show ?thesis by auto
  qed
qed simp

lemma visit_less:
  fixes R :: "u64 set"
  assumes "fold (visit s) cs (R, q) = (R', q')"
  shows "card (- R') < card (- R) \<or> R' = R \<and> q' = q"
proof (cases "R' = R")
  case False
  with visit_all_grows [OF assms] have "card (- R') < card (- R)" by (intro psubset_card_mono) auto
  then show ?thesis ..
qed (use visit_all_grows [OF assms] in auto)

function walk :: "scanned \<Rightarrow> (u64 \<Rightarrow> u64 list) \<Rightarrow> u64 set \<Rightarrow> u64 list \<Rightarrow> u64 set" where
  "walk s children reachable [] = reachable"
| "walk s children reachable (dir # queue) =
     (case fold (visit s) (children dir) (reachable, queue) of (reachable', queue') \<Rightarrow> walk s children reachable' queue')"
  by pat_completeness auto

termination
  by (relation "measures [\<lambda>(s, ch, R, q). card (- R), \<lambda>(s, ch, R, q). length q]")
     (simp, drule visit_less [OF sym], auto)

definition check_reachable :: "scanned \<Rightarrow> dirent_pass \<Rightarrow> problem list" where
  "check_reachable s a =
     (let reachable = walk s (dp_children a) {ROOT_INO} [ROOT_INO] in
      concat (map (\<lambda>(ino, i).
        let legit_orphan = (i_nlink i = 0 \<and> has_orphan s ino) in
        if ino \<notin> reachable \<and> \<not> legit_orphan then [P_Unreachable ino] else []) (sn_inodes s)))"

definition check_scanned :: "u64 \<Rightarrow> (u64 \<Rightarrow> bytes \<Rightarrow> core_error + bytes) \<Rightarrow> scanned \<Rightarrow> fsck_report" where
  "check_scanned cs names s =
     (let a = check_dirents names s; (inode_ps, bytes_counted) = check_inodes cs s a; (stray_ps, reapable) = check_stray s in
      \<lparr>fr_problems = check_root s @ dp_problems a @ check_idx s @ inode_ps @ stray_ps @ check_reachable s a,
       fr_reapable = reapable, fr_inodes_counted = of_nat (length (sn_inodes s)), fr_bytes_counted = bytes_counted,
       fr_counter_inodes = sn_counter_inodes s, fr_counter_bytes = sn_counter_bytes s\<rparr>)"

definition check_readable ::
  "'db engine \<Rightarrow> 'db scan_all \<Rightarrow> codecs \<Rightarrow> u64 \<Rightarrow> (u64 \<Rightarrow> bytes \<Rightarrow> core_error + bytes) \<Rightarrow> ('db store, core_error, fsck_report) act" where
  "check_readable E sc C cs names = bindE (fsck_scan_all E sc C) (\<lambda>s. returnE (check_scanned cs names s))"

definition rewrite_counters :: "'db engine \<Rightarrow> fsck_report \<Rightarrow> ('db store, core_error, fsck_report) act" where
  "rewrite_counters E report =
     (if \<not> counters_match report then
        bindE (core (store_write E [Put (key_bytes KQuotaBytes) (le64 (fr_bytes_counted report)),
                                    Put (key_bytes KQuotaInodes) (le64 (fr_inodes_counted report))])) (\<lambda>_.
        bindE (core (store_flush E)) (\<lambda>_. returnE report))
      else returnE report)"

definition recount ::
  "'db engine \<Rightarrow> 'db scan_all \<Rightarrow> codecs \<Rightarrow> u64 \<Rightarrow> (u64 \<Rightarrow> bytes \<Rightarrow> core_error + bytes) \<Rightarrow> ('db store, core_error, fsck_report) act" where
  "recount E sc C cs names = bindE (check_readable E sc C cs names) (rewrite_counters E)"

section \<open>Block volumes\<close>

definition BLOCK_INO :: u64 where "BLOCK_INO = 0"

definition block_row :: "u64 \<Rightarrow> u64 \<Rightarrow> bytes \<Rightarrow> bytes \<Rightarrow> problem list \<times> bool \<times> i64 \<Rightarrow> problem list \<times> bool \<times> i64" where
  "block_row size_bytes cs key v acc =
     (case acc of (ps, saw_superblock, bytes_counted) \<Rightarrow>
        if key = key_bytes KSuper then (ps, True, bytes_counted)
        else if key = key_bytes KQuotaBytes \<or> key = key_bytes KQuotaInodes then acc
        else case parse_chunk key of
               None \<Rightarrow> (ps @ [P_BlockKey key], saw_superblock, bytes_counted)
             | Some (ino, idx) \<Rightarrow>
                 if ino \<noteq> BLOCK_INO then (ps @ [P_BlockOwner ino idx], saw_superblock, bytes_counted)
                 else let chunk_start = ucast idx * cs in
                   (ps @ (if size_bytes \<le> chunk_start then [P_BlockBeyond idx chunk_start size_bytes] else []) @
                      (if cs < of_nat (length v) then [P_BlockOversize idx (length v) cs] else []),
                    saw_superblock, bytes_counted + billed_chunk_bytes size_bytes chunk_start (length v)))"

fun block_rows ::
  "'db engine \<Rightarrow> u64 \<Rightarrow> u64 \<Rightarrow> (bytes \<times> bytes) list \<Rightarrow> problem list \<times> bool \<times> i64 \<Rightarrow>
   ('db store, core_error, problem list \<times> bool \<times> i64) act" where
  "block_rows E size_bytes cs [] acc = bindE (core (store_next E)) (\<lambda>_. returnE acc)"
| "block_rows E size_bytes cs ((k, v) # kvs) acc =
     bindE (core (store_next E)) (\<lambda>_. block_rows E size_bytes cs kvs (block_row size_bytes cs k v acc))"

definition check_block_readable ::
  "'db engine \<Rightarrow> 'db scan_all \<Rightarrow> u64 \<Rightarrow> u64 \<Rightarrow> ('db store, core_error, fsck_report) act" where
  "check_block_readable E sc size_bytes cs =
     bindE (core (store_get E (key_bytes KQuotaBytes))) (\<lambda>qb.
     bindE (core (store_get E (key_bytes KQuotaInodes))) (\<lambda>qi.
     bindE (core (store_scan_all sc)) (\<lambda>kvs.
     bindE (block_rows E size_bytes cs kvs ([], False, 0)) (\<lambda>(ps, saw_superblock, bytes_counted).
       returnE \<lparr>fr_problems = ps @ (if saw_superblock then [] else [P_NoSuperblock]), fr_reapable = [],
         fr_inodes_counted = 1, fr_bytes_counted = bytes_counted,
         fr_counter_inodes = decode_counter qi, fr_counter_bytes = decode_counter qb\<rparr>))))"

definition recount_block :: "'db engine \<Rightarrow> 'db scan_all \<Rightarrow> u64 \<Rightarrow> u64 \<Rightarrow> ('db store, core_error, fsck_report) act" where
  "recount_block E sc size_bytes cs = bindE (check_block_readable E sc size_bytes cs) (rewrite_counters E)"

end
