(* ===== verification/Mount.thy ===== *)
theory Mount
  imports History
begin

text \<open>
  Formatting and mounting (\<^verbatim>\<open>volume.rs\<close>): what must be on the store for a mount to give a
  sound volume, that \<open>mkfs\<close> puts it there, and that a mount after a crash clears away the
  files that were unlinked but open.
\<close>

section \<open>Stores a mount can start from\<close>

definition stored :: "'db env \<Rightarrow> bytes \<Rightarrow> u64 \<Rightarrow> kv \<Rightarrow> bool" where
  "stored E dek cs m =
     (counters_ok m \<and> schema_keys m \<and> ns_ok (sealed E dek) (fs_of E dek m) \<and> acct_ok cs (fs_of E dek m) \<and>
      (\<exists>mark. m (key_bytes KNextIno) = Some (be64 mark) \<and> (\<forall>ino. mark \<le> ino \<longrightarrow> unused ino (fs_of E dek m))))"

text \<open>
  A volume that crashed: the store of a sound volume whose allocator handed out nothing
  beyond the mark it wrote.
\<close>

definition lease_kept :: "'db env \<Rightarrow> 'db volume \<Rightarrow> bool" where
  "lease_kept E s = (\<exists>mark. vcontents E s (key_bytes KNextIno) = Some (be64 mark) \<and> al_next (v_alloc s) \<le> mark)"

lemma crashed_stored:
  assumes s: "sound E s" and l: "lease_kept E s"
  shows "stored E (v_dek s) (v_chunk_size s) (vcontents E s)"
  using soundD(1-3) [OF s] l order.trans by (fastforce simp: stored_def lease_kept_def vol_inv_def tree_ok_def)

section \<open>The reaper of a mount\<close>

abbreviation expired :: "u64 \<Rightarrow> fs \<Rightarrow> fs" where
  "expired ino f \<equiv> reaped ino (expunged ino f)"

lemma stored_step:
  assumes st: "stored E dek cs m" and o: "fs_orphan (fs_of E dek m) ino \<noteq> None"
    and m': "counters_ok m'" "schema_keys m'" "m' (key_bytes KNextIno) = m (key_bytes KNextIno)"
    and f: "fs_of E dek m' = expired ino (fs_of E dek m) \<or> (\<exists>idxs. fs_of E dek m' = cut_chunks ino idxs (expunged ino (fs_of E dek m))) \<or>
      fs_of E dek m' = fs_of E dek m"
  shows "stored E dek cs m'"
proof -
  let ?f = "fs_of E dek m"
  have ns: "ns_ok (sealed E dek) ?f" and a: "acct_ok cs ?f" using st by (auto simp: stored_def)
  note n = ns_expunged [OF ns o] and b = acct_expunged [OF a o]
  have "ns_ok (sealed E dek) (fs_of E dek m') \<and> acct_ok cs (fs_of E dek m')"
    using f ns a n b by (auto simp: ns_chunks intro!: ns_reaped acct_reaped acct_cut_dead expunged_gone)
  moreover have "unused k (fs_of E dek m')" if "unused k ?f" for k
    using f expunged_simps(1) [OF that, of ino] that o by (auto simp: unused_def reaped_def cut_chunks_def)
  ultimately show ?thesis using st m' by (auto simp: stored_def)
qed

lemma stored_small:
  assumes "stored E dek cs m" "chunk_size_valid cs"
  shows "small_bills (fs_of E dek m)"
  using assms acct_small by (auto simp: stored_def)

lemma reap_crashed_orphan_wp:
  assumes E: "env_ok E" and st: "stored E dek cs (st_contents (en_engine E) s)" 
    and o: "fs_orphan (fs_of E dek (st_contents (en_engine E) s)) ino \<noteq> None"
  shows "wp (reap_crashed_orphan E ino)
    (\<lambda>_ t. stored E dek cs (st_contents (en_engine E) t) \<and>
       fs_of E dek (st_contents (en_engine E) t) = expired ino (fs_of E dek (st_contents (en_engine E) s)) \<and>
       st_contents (en_engine E) t (key_bytes KSuper) = st_contents (en_engine E) s (key_bytes KSuper))
    (\<lambda>e t. stored E dek cs (st_contents (en_engine E) t)) s"
proof -
  let ?c = "st_contents (en_engine E)"
  let ?f = "fs_of E dek (?c s)"
  note eng = env_okD(1) [OF E]
  have m: "counters_ok (?c s)" "schema_keys (?c s)" using st by (auto simp: stored_def)
  have ne: "ino \<noteq> - 1" using st o by (force simp: stored_def unused_def)
  have keys: "wiped (data_keys ino m) m (key_bytes KNextIno) = m (key_bytes KNextIno)" "wiped (data_keys ino m) m (key_bytes KSuper) = m (key_bytes KSuper)"
    "ks \<subseteq> chunk_keys ino m \<Longrightarrow> wiped ks m (key_bytes KNextIno) = m (key_bytes KNextIno)" for ks m
    by (auto simp: wiped_def data_keys_def chunk_keys_def xattr_keys_def)
  have rest: "wp (reap_orphan_data (en_engine E) ino)
     (\<lambda>_ t. stored E dek cs (?c t) \<and> fs_of E dek (?c t) = expired ino ?f \<and> ?c t (key_bytes KSuper) = ?c s (key_bytes KSuper))
     (\<lambda>e t. stored E dek cs (?c t)) u"
    if u: "fs_of E dek (?c u) = expunged ino ?f" "counters_ok (?c u)" "schema_keys (?c u)" "?c u (key_bytes KNextIno) = ?c s (key_bytes KNextIno)"
      "?c u (key_bytes KSuper) = ?c s (key_bytes KSuper)" for u
  proof (rule wp_mono [OF reap_orphan_data_wp [OF eng ne u(3)]], goal_cases)
    case (1 x t)
    have "stored E dek cs (?c t)"
      by (rule stored_step [OF st o]) (use 1 u in \<open>simp_all add: wiped_counters fs_of_wiped_data keys\<close>)
    then show ?case using 1 u by (simp add: fs_of_wiped_data keys)
  next
    case (2 e t)
    then obtain ks where ks: "ks \<subseteq> chunk_keys ino (?c u)" "?c t = wiped ks (?c u)" by blast
    obtain idxs where i: "fs_of E dek (?c t) = cut_chunks ino idxs (fs_of E dek (?c u))"
      unfolding ks(2) by (rule fs_of_wiped_chunks [OF ks(1)])
    show ?case
      by (rule stored_step [OF st o]) (use i u ks in \<open>auto simp: wiped_counters keys\<close>)
  qed
  have bury: "fs_of E dek m' = expunged ino ?f" "counters_ok m'" "schema_keys m'" "m' (key_bytes KNextIno) = ?c s (key_bytes KNextIno)"
      "m' (key_bytes KSuper) = ?c s (key_bytes KSuper)"
    if "Some m' = apply_batch (bury_batch ino x) (?c s)" "?c s (key_bytes (KInode ino)) = Some bs" "inode_decode (en_codecs E) bs = Inr x" for m' x bs
  proof -
    note b = batch_doesD [OF batch_bury [of E dek] m(1)]
    have "fs_inode ?f ino = Some x" using that by (simp add: fs_of_def decoded_def)
    then show "fs_of E dek m' = expunged ino ?f" using b(2) [OF that(1)] by (simp add: expunged_def)
    show "counters_ok m'" "schema_keys m'" using b(3,4) [OF that(1)] m by auto
    show "m' (key_bytes KNextIno) = ?c s (key_bytes KNextIno)" "m' (key_bytes KSuper) = ?c s (key_bytes KSuper)"
      using that(1) by (auto simp: bury_batch_def split: option.splits sum.splits)
  qed
  have gone: "?f = expunged ino ?f" if "?c s (key_bytes (KInode ino)) = None"
    using that by (simp add: expunged_def fs_of_def decoded_def)
  show ?thesis
    unfolding reap_crashed_orphan_def
    by (intro rest store_rules [OF eng] wp_rules)
       (use st m bury gone batch_doesD(1) [OF batch_bury m(1)] in auto)
qed

text \<open>Every orphan in turn.\<close>

definition expired_all :: "u64 list \<Rightarrow> fs \<Rightarrow> fs" where
  "expired_all inos f = fold (\<lambda>ino f. expired ino f) inos f"

lemma expired_orphan: "k \<noteq> ino \<Longrightarrow> fs_orphan (expired ino f) k = fs_orphan f k" "fs_orphan (expired ino f) ino = None"
  by (simp_all add: reaped_def expunged_def fs_steps split: option.split)

lemma reap_each_wp:
  assumes E: "env_ok E" and st: "stored E dek cs (st_contents (en_engine E) s)" and d: "distinct inos"
    and o: "\<And>ino. ino \<in> set inos \<Longrightarrow> fs_orphan (fs_of E dek (st_contents (en_engine E) s)) ino \<noteq> None"
  shows "wp (reap_each E inos)
    (\<lambda>_ t. stored E dek cs (st_contents (en_engine E) t) \<and>
       fs_of E dek (st_contents (en_engine E) t) = expired_all inos (fs_of E dek (st_contents (en_engine E) s)) \<and>
       st_contents (en_engine E) t (key_bytes KSuper) = st_contents (en_engine E) s (key_bytes KSuper))
    (\<lambda>e t. stored E dek cs (st_contents (en_engine E) t)) s"
  using st d o
proof (induction inos arbitrary: s)
  case Nil
  then show ?case by (simp add: wp_simps expired_all_def)
next
  case (Cons ino inos)
  show ?case
    unfolding reap_each.simps wp_bindE
  proof (rule wp_mono [OF reap_crashed_orphan_wp [OF E Cons.prems(1) Cons.prems(3) [OF list.set_intros(1)]]], goal_cases)
    case (1 x t)
    have "fs_orphan (fs_of E dek (st_contents (en_engine E) t)) k \<noteq> None" if "k \<in> set inos" for k
    proof -
      have "k \<noteq> ino" using Cons.prems(2) that by auto
      then show ?thesis using 1 Cons.prems(3) [of k] that by (simp add: expired_orphan)
    qed
    with 1 Cons.prems(2) show ?case
      by (intro wp_mono [OF Cons.IH]) (auto simp: expired_all_def)
  qed auto
qed

lemma in_orphan_scan_iff: "orphan_prefix \<le> key_bytes k \<and> key_bytes k < [112] \<longleftrightarrow> (\<exists>ino. k = KOrphan ino)"
  by (cases k) (auto simp: key_defs orphan_prefix_def)

lemma orphan_scan:
  assumes sc: "scan_of m orphan_prefix [112] kvs" and sk: "schema_keys m"
  obtains ics where "kvs = map (\<lambda>(i, v). (key_bytes (KOrphan i), v)) ics" "distinct (map fst ics)"
    "set (map fst ics) = {i. m (key_bytes (KOrphan i)) \<noteq> None}"
proof
  define ics where "ics = map (\<lambda>(k, v). (the (parse_ino k), v)) kvs"
  have kv: "\<exists>i. k = key_bytes (KOrphan i) \<and> m k = Some v" if "(k, v) \<in> set kvs" for k v
  proof -
    from that sc have m: "m k = Some v" "orphan_prefix \<le> k" "k < [112]" by (auto simp: scan_of_def)
    obtain k' where k': "k = key_bytes k'" using schema_keysD [OF sk m(1)] by blast
    with m in_orphan_scan_iff [of k'] show ?thesis by auto
  qed
  have inv: "(\<lambda>(i, v). (key_bytes (KOrphan i), v)) ((\<lambda>(k, v). (the (parse_ino k), v)) kv) = kv" if "kv \<in> set kvs" for kv
  proof -
    obtain k v where p: "kv = (k, v)" by (cases kv)
    with kv [of k v] that obtain i where "k = key_bytes (KOrphan i)" by blast
    then show ?thesis by (simp add: p)
  qed
  show kvs: "kvs = map (\<lambda>(i, v). (key_bytes (KOrphan i), v)) ics"
    unfolding ics_def map_map using inv by (intro map_idI [symmetric]) simp
  have "sorted_wrt (<) (map fst kvs)" using sc by (simp add: scan_of_def)
  then have "distinct (map fst kvs)" by (rule sorted_wrt_less_distinct)
  then show "distinct (map fst ics)" unfolding kvs by (simp add: distinct_map case_prod_beta inj_on_def)
  show "set (map fst ics) = {i. m (key_bytes (KOrphan i)) \<noteq> None}"
  proof (intro set_eqI iffI)
    fix i assume "i \<in> set (map fst ics)"
    then obtain v where "(key_bytes (KOrphan i), v) \<in> set kvs" unfolding kvs by force
    with kv show "i \<in> {i. m (key_bytes (KOrphan i)) \<noteq> None}" by blast
  next
    fix i assume "i \<in> {i. m (key_bytes (KOrphan i)) \<noteq> None}"
    then obtain v where "m (key_bytes (KOrphan i)) = Some v" by auto
    with in_orphan_scan_iff [of "KOrphan i"] sc have "(key_bytes (KOrphan i), v) \<in> set kvs" by (auto simp: scan_of_def)
    then show "i \<in> set (map fst ics)" unfolding kvs by force
  qed
qed

lemma collect_orphans_wp:
  assumes E: "env_ok E"
    and Q: "\<And>t. st_db t = st_db s \<Longrightarrow> Q (orphans @ map fst ics) t" and R: "\<And>e t. st_db t = st_db s \<Longrightarrow> R e t"
  shows "wp (collect_orphans E (map (\<lambda>(i, v). (key_bytes (KOrphan i), v)) ics) orphans) Q R s"
  using Q R
proof (induction ics arbitrary: orphans s)
  case Nil
  then show ?case
    unfolding list.map collect_orphans.simps by (intro wp_bindI store_rules [OF env_okD(1) [OF E]] wp_rules) auto
next
  case (Cons ic ics)
  obtain i v where ic: "ic = (i, v)" by (cases ic)
  show ?case
    unfolding ic list.map collect_orphans.simps prod.case parse_ino_simps option.case
    by (intro wp_bindI Cons.IH store_rules [OF env_okD(1) [OF E]] wp_rules) (use Cons.prems ic in auto)
qed

lemma reap_crashed_orphans_wp:
  assumes E: "env_ok E" and st: "stored E dek cs (st_contents (en_engine E) s)"
  shows "wp (reap_crashed_orphans E)
    (\<lambda>_ t. stored E dek cs (st_contents (en_engine E) t) \<and>
       (\<exists>inos. distinct inos \<and> set inos = dom (fs_orphan (fs_of E dek (st_contents (en_engine E) s))) \<and>
          fs_of E dek (st_contents (en_engine E) t) = expired_all inos (fs_of E dek (st_contents (en_engine E) s))))
    (\<lambda>e t. stored E dek cs (st_contents (en_engine E) t)) s"
proof -
  let ?c = "st_contents (en_engine E)"
  have sk: "schema_keys (?c s)" using st by (simp add: stored_def)
  show ?thesis
    unfolding reap_crashed_orphans_def
  proof (intro wp_bindI store_rules [OF env_okD(1) [OF E]], goal_cases)
    case (1 kvs t)
    then obtain ics where ics: "kvs = map (\<lambda>(i, v). (key_bytes (KOrphan i), v)) ics" "distinct (map fst ics)"
      "set (map fst ics) = {i. ?c s (key_bytes (KOrphan i)) \<noteq> None}" using orphan_scan [OF _ sk] by blast
    have o: "set (map fst ics) = dom (fs_orphan (fs_of E dek (?c s)))" unfolding ics(3) by (auto simp: fs_of_def)
    have c: "?c u = ?c s" if "st_db u = st_db t" for u using that 1(2) by simp
    show ?case
      unfolding ics(1)
    proof (rule collect_orphans_wp [OF E], goal_cases)
      case (1 u)
      then have s': "stored E dek cs (?c u)" using st c by simp
      show ?case
        unfolding append_Nil
        by (rule wp_mono [OF reap_each_wp [OF E s' ics(2)]]) (use o ics(2) in \<open>auto simp: c [OF 1] dom_def\<close>)
    next
      case (2 e u)
      then show ?case using st c by simp
    qed
  next
    case (2 e t)
    then show ?case using st by simp
  qed
qed

section \<open>Mounting\<close>

lemma expired_all_view:
  "fs_dirent (expired_all inos f) = fs_dirent f" "fs_index (expired_all inos f) = fs_index f"
  "k \<notin> set inos \<Longrightarrow> fs_inode (expired_all inos f) k = fs_inode f k"
  "k \<notin> set inos \<Longrightarrow> fs_chunk (expired_all inos f) k = fs_chunk f k"
  "k \<notin> set inos \<Longrightarrow> fs_xattr (expired_all inos f) k = fs_xattr f k"
  "k \<notin> set inos \<Longrightarrow> fs_symlink (expired_all inos f) k = fs_symlink f k"
  "k \<notin> set inos \<Longrightarrow> fs_orphan (expired_all inos f) k = fs_orphan f k"
  unfolding expired_all_def
  by (induction inos arbitrary: f) (auto simp: reaped_def expunged_def fs_steps split: option.splits)

lemma expired_all_gone:
  "k \<in> set inos \<or> fs_orphan f k = None \<Longrightarrow> fs_orphan (expired_all inos f) k = None"
  "k \<in> set inos \<or> fs_inode f k = None \<Longrightarrow> fs_inode (expired_all inos f) k = None"
  "k \<in> set inos \<or> fs_chunk f k = Map.empty \<Longrightarrow> fs_chunk (expired_all inos f) k = Map.empty"
  unfolding expired_all_def
  by (induction inos arbitrary: f) (auto simp: reaped_def expunged_def fs_steps split: option.splits)

text \<open>The file system a mount finds, without the files that were only kept by handles.\<close>

definition recovered :: "fs \<Rightarrow> fs \<Rightarrow> bool" where
  "recovered f g =
     (fs_dirent g = fs_dirent f \<and> fs_index g = fs_index f \<and> fs_orphan g = Map.empty \<and>
      (\<forall>k. if fs_orphan f k = None
           then fs_inode g k = fs_inode f k \<and> fs_chunk g k = fs_chunk f k \<and> fs_xattr g k = fs_xattr f k \<and> fs_symlink g k = fs_symlink f k
           else fs_inode g k = None \<and> fs_chunk g k = Map.empty))"

lemma recovered_all:
  assumes "set inos = dom (fs_orphan f)"
  shows "recovered f (expired_all inos f)"
proof -
  have "fs_orphan (expired_all inos f) = Map.empty"
    by (rule ext, rule expired_all_gone(1)) (use assms in auto)
  moreover have "k \<in> set inos \<longleftrightarrow> fs_orphan f k \<noteq> None" for k using assms by auto
  ultimately show ?thesis by (simp add: recovered_def expired_all_view expired_all_gone)
qed

lemma mounted:
  assumes st: "stored E dek (ucast (vr_chunk_size record)) m" and cs: "chunk_size_valid (ucast (vr_chunk_size record))"
    and sb: "verify_superblock_matches_record record sb w = Inr ()" and v: "v_dek v = dek" "v_chunk_size v = ucast (sb_chunk_size sb)"
      "v_attrs v = attr_cache_default" "v_quota v = quota_new (decode_counter (m (key_bytes KQuotaBytes))) (decode_counter (m (key_bytes KQuotaInodes))) lim"
      "v_alloc v = \<lparr>al_next = from_be64 bs, al_lease_end = e\<rparr>"
    and mark: "m (key_bytes KNextIno) = Some bs" "checked_add (from_be64 bs) LEASE_SIZE = Some e"
    and c: "vcontents E v = m(key_bytes KNextIno \<mapsto> be64 e)"
  shows "sound E v \<and> lease_kept E v"
proof -
  have f: "vfs E v = fs_of E dek m" by (simp add: v c)
  have cs': "v_chunk_size v = ucast (vr_chunk_size record)"
    using sb by (auto simp: v verify_superblock_matches_record_def split: if_splits)
  from st mark obtain k where k: "bs = be64 k" "\<And>ino. k \<le> ino \<Longrightarrow> unused ino (fs_of E dek m)" by (auto simp: stored_def)
  have s: "counters_ok m" "schema_keys m" "ns_ok (sealed E dek) (fs_of E dek m)" "acct_ok (v_chunk_size v) (fs_of E dek m)"
    using st by (simp_all add: stored_def cs')
  have q: "quota_usage (v_quota v) = (fs_bytes (fs_of E dek m), fs_inodes (fs_of E dek m))"
    by (simp add: v quota_new_def quota_usage_def fs_of_def)
  have "vol_inv E v"
    unfolding vol_inv_def f c q
    using s k by (auto simp: v attr_cache_default_def cache_ok_def counters_ok_def schema_keys_def)
  moreover have "from_be64 bs \<le> e"
    using mark(2) by (auto simp: checked_add_def word_le_nat_alt unat_word_ariths split: if_splits)
  ultimately show ?thesis using s cs by (auto simp: sound_def tree_ok_def f cs' v c lease_kept_def)
qed

lemma volume_open_wp:
  assumes E: "env_ok E" and st: "stored E dek (ucast (vr_chunk_size record)) (st_contents (en_engine E) s)"
    and cs: "chunk_size_valid (ucast (vr_chunk_size record))"
  shows "wp (volume_open E record dek)
    (\<lambda>mk t. sound E (mk t) \<and> lease_kept E (mk t) \<and> v_dek (mk t) = dek \<and> v_handles (mk t) = handles_empty \<and>
       recovered (fs_of E dek (st_contents (en_engine E) s)) (vfs E (mk t)))
    (\<lambda>e t. stored E dek (ucast (vr_chunk_size record)) (st_contents (en_engine E) t)) s"
  unfolding volume_open_def alloc_load_def
  apply (intro wp_bindI wp_mono [OF reap_crashed_orphans_wp [OF E, where dek = dek and cs = "ucast (vr_chunk_size record)"]] store_rules [OF env_okD(1) [OF E]] wp_rules)
  apply (simp_all add: st)
  subgoal premises prems for t bs sb ta tb tc td bsa e te
    by (intro conjI mounted [OF _ cs prems(5), where m = "st_contents (en_engine E) ta" and bs = bsa, THEN conjunct1]
          mounted [OF _ cs prems(5), where m = "st_contents (en_engine E) ta" and bs = bsa, THEN conjunct2])
       (use prems recovered_all in auto)
  done

section \<open>Formatting\<close>

definition new_root :: "timespec \<Rightarrow> inode" where
  "new_root ts = (inode_new Dir 0x1ED 0 0 ts)\<lparr>i_parent_dir := ROOT_INO\<rparr>"

definition fresh_fs :: "timespec \<Rightarrow> fs" where
  "fresh_fs ts =
     \<lparr>fs_inode = [ROOT_INO \<mapsto> new_root ts], fs_dirent = (\<lambda>_. Map.empty), fs_index = (\<lambda>_. Map.empty), fs_chunk = (\<lambda>_. Map.empty),
      fs_symlink = Map.empty, fs_xattr = (\<lambda>_. Map.empty), fs_orphan = Map.empty, fs_bytes = 0, fs_inodes = 1\<rparr>"

lemma fresh_ns: "ns_ok S (fresh_fs ts)"
  by (auto simp: ns_ok_def fresh_fs_def new_root_def inode_new_def is_dir_def entries_def dir_ok_def links_def subdirs_def intro: rooted_root)

lemma fresh_acct: "acct_ok cs (fresh_fs ts)"
  by (auto simp: acct_ok_def fresh_fs_def new_root_def inode_new_def bill_ok_def chunks_inside_def)

definition fresh_kv :: "bytes \<Rightarrow> bytes \<Rightarrow> kv" where
  "fresh_kv sb bs =
     [key_bytes KSuper \<mapsto> sb, key_bytes (KInode ROOT_INO) \<mapsto> bs, key_bytes KNextIno \<mapsto> be64 (ROOT_INO + 1), key_bytes KQuotaInodes \<mapsto> le64 1]"

lemma fresh_stored:
  assumes d: "inode_decode (en_codecs E) bs = Inr (new_root ts)"
  shows "stored E dek cs (fresh_kv sb bs)" "fs_of E dek (fresh_kv sb bs) = fresh_fs ts"
proof -
  let ?m = "fresh_kv sb bs"
  note k = fresh_kv_def
  have e: "fs_of E dek [key_bytes KSuper \<mapsto> sb] = (fresh_fs ts)\<lparr>fs_inode := Map.empty, fs_inodes := 0\<rparr>"
    by (auto simp: fs_of_def fresh_fs_def decoded_def decode_counter_def fun_eq_iff split: sum.splits)
  show f: "fs_of E dek ?m = fresh_fs ts" using d unfolding k by (simp add: e) (simp add: fresh_fs_def)
  have "schema_keys ?m" "counters_ok ?m" by (auto simp: k schema_keys_def counters_ok_def)
  moreover have "unused ino (fresh_fs ts)" if "ROOT_INO + 1 \<le> ino" for ino
    using that by (auto simp: unused_def fresh_fs_def ROOT_INO_def word_le_nat_alt)
  ultimately show "stored E dek cs ?m"
    unfolding stored_def f by (auto simp: k fresh_ns fresh_acct intro!: exI [of _ "ROOT_INO + 1"])
qed

lemma wp_store_now: "(\<And>ts t. st_db t = st_db s \<Longrightarrow> Q ts t) \<Longrightarrow> wp (store_now E) Q R s"
  by (simp add: wp_def store_now_def)

lemma wp_core_flush:
  assumes "engine_ok E" "\<And>t. st_contents E t = st_contents E s \<Longrightarrow> Q () t" "\<And>e t. st_contents E t = st_contents E s \<Longrightarrow> R e t"
  shows "wp (core (store_flush E)) Q R s"
  using assms by (auto simp: wp_def mapErrE_def store_flush_def engine_ok_def split: prod.splits sum.splits)

lemma mkfs_wp:
  assumes E: "env_ok E" and new: "st_contents (en_engine E) s = Map.empty" and k: "vr_kind record = Filesystem"
  shows "wp (mkfs E record)
    (\<lambda>_ t. stored E dek cs (st_contents (en_engine E) t) \<and> (\<exists>ts. fs_of E dek (st_contents (en_engine E) t) = fresh_fs ts))
    (\<lambda>e t. st_contents (en_engine E) t = Map.empty \<or> stored E dek cs (st_contents (en_engine E) t)) s"
proof -
  have c: "counter_merge None (encode_delta 1) = Inr (le64 1)" by (simp add: counter_merge_def encode_delta_def decode_i64_def)
  have d: "stored E dek cs m'" "fs_of E dek m' = fresh_fs ts" if "inode_encode (en_codecs E) (new_root ts) = Inr bs"
    "m' = fresh_kv sb bs"
    for ts bs sb m'
    unfolding that(2) by (rule fresh_stored [OF decode_encode(1) [OF env_okD(2) [OF E] that(1)]])+
  show ?thesis
    unfolding mkfs_def mkfs_root_def new_root_def [symmetric]
    by (intro wp_bindI wp_store_now wp_core_flush [OF env_okD(1) [OF E]] store_rules [OF env_okD(1) [OF E]] wp_rules)
       (auto simp: new k c fresh_kv_def [symmetric] intro: d(1) d(2) exI)
qed


definition ref_record :: volume_record where
  "ref_record = \<lparr>vr_state = Active, vr_fsid = 7, vr_cipher = Aes256Gcm, vr_chunk_size = 0x1000, vr_quota = qt_limits (v_quota ref_vol),
     vr_kind = Filesystem, vr_created_at = 0\<rparr>"

lemma ref_record_cs: "chunk_size_valid (ucast (vr_chunk_size ref_record))" "ucast (vr_chunk_size ref_record) = v_chunk_size ref_vol"
  by (auto simp: ref_record_def ref_vol_def chunk_size_valid_def intro!: exI [of _ 12])




end
