(* ===== verification/Fsck_Props.thy ===== *)
theory Fsck_Props
  imports Fsck Mount
begin

text \<open>
  What a clean report means. The pass over the keys collects what the abstract view shows;
  the checks on it find nothing on a sound volume, and when they find nothing the names are
  a tree with right link counts and the counters are right.
\<close>

section \<open>The pass\<close>

lemma scan_row_simps:
  "scan_row C (key_bytes (KInode ino)) v s = map_sum id (\<lambda>i. s\<lparr>sn_inodes := AList.update ino i (sn_inodes s)\<rparr>) (inode_decode C v)"
  "scan_row C (key_bytes (KDirent p enc)) v s = map_sum id (\<lambda>d. s\<lparr>sn_dirents := AList.update (p, enc) d (sn_dirents s)\<rparr>) (dirent_decode C v)"
  "scan_row C (key_bytes (KDirentIdx p k)) v s = map_sum id (\<lambda>e. s\<lparr>sn_idx := AList.update (p, k) e (sn_idx s)\<rparr>) (dirent_idx_decode C v)"
  "scan_row C (key_bytes (KChunk ino idx)) v s = Inr (s\<lparr>sn_chunks := push_chunk ino (idx, length v) (sn_chunks s)\<rparr>)"
  "scan_row C (key_bytes (KOrphan ino)) v s = map_sum id (\<lambda>x. s\<lparr>sn_orphans := AList.update ino x (sn_orphans s)\<rparr>) (orphan_decode C v)"
  "scan_row C (key_bytes (KSymlink ino)) v s = Inr (s\<lparr>sn_symlinks := List.insert ino (sn_symlinks s)\<rparr>)"
  "scan_row C (key_bytes (KXattr ino n)) v s = Inr s" "scan_row C (key_bytes KSuper) v s = Inr s"
  "scan_row C (key_bytes KQuotaBytes) v s = Inr s" "scan_row C (key_bytes KQuotaInodes) v s = Inr s"
  "scan_row C (key_bytes KNextIno) v s = Inr s"
proof -
  have t: "\<exists>r. key_bytes (KInode ino) = 105 # r" "\<exists>r. key_bytes (KDirent p enc) = 100 # r" "\<exists>r. key_bytes (KDirentIdx p k) = 101 # r"
    "\<exists>r. key_bytes (KChunk ino idx) = 99 # r" "\<exists>r. key_bytes (KOrphan ino) = 111 # r" "\<exists>r. key_bytes (KSymlink ino) = 115 # r"
    by (simp_all add: key_defs)
  have d: "drop 9 (key_bytes (KDirent p enc)) = enc" by (simp add: key_defs)
  show "scan_row C (key_bytes (KInode ino)) v s = map_sum id (\<lambda>i. s\<lparr>sn_inodes := AList.update ino i (sn_inodes s)\<rparr>) (inode_decode C v)"
    using t(1) by (auto simp: scan_row_def split: list.split)
  show "scan_row C (key_bytes (KDirent p enc)) v s = map_sum id (\<lambda>d. s\<lparr>sn_dirents := AList.update (p, enc) d (sn_dirents s)\<rparr>) (dirent_decode C v)"
    using t(2) by (auto simp: scan_row_def d split: list.split)
  show "scan_row C (key_bytes (KDirentIdx p k)) v s = map_sum id (\<lambda>e. s\<lparr>sn_idx := AList.update (p, k) e (sn_idx s)\<rparr>) (dirent_idx_decode C v)"
    using t(3) by (auto simp: scan_row_def split: list.split)
  show "scan_row C (key_bytes (KChunk ino idx)) v s = Inr (s\<lparr>sn_chunks := push_chunk ino (idx, length v) (sn_chunks s)\<rparr>)"
    using t(4) by (auto simp: scan_row_def split: list.split)
  show "scan_row C (key_bytes (KOrphan ino)) v s = map_sum id (\<lambda>x. s\<lparr>sn_orphans := AList.update ino x (sn_orphans s)\<rparr>) (orphan_decode C v)"
    using t(5) by (auto simp: scan_row_def split: list.split)
  show "scan_row C (key_bytes (KSymlink ino)) v s = Inr (s\<lparr>sn_symlinks := List.insert ino (sn_symlinks s)\<rparr>)"
    using t(6) by (auto simp: scan_row_def split: list.split)
qed (simp_all add: scan_row_def key_defs)

text \<open>What was collected from the rows of \<open>m\<close>.\<close>

definition seen :: "codecs \<Rightarrow> kv \<Rightarrow> scanned \<Rightarrow> bool" where
  "seen C m s =
     ((\<forall>ino. map_of (sn_inodes s) ino = decoded (inode_decode C) (m (key_bytes (KInode ino)))) \<and>
      (\<forall>p enc. map_of (sn_dirents s) (p, enc) = decoded (dirent_decode C) (m (key_bytes (KDirent p enc)))) \<and>
      (\<forall>p k. map_of (sn_idx s) (p, k) = decoded (dirent_idx_decode C) (m (key_bytes (KDirentIdx p k)))) \<and>
      (\<forall>ino. has_orphan s ino \<longleftrightarrow> m (key_bytes (KOrphan ino)) \<noteq> None) \<and>
      (\<forall>ino. ino \<in> set (sn_symlinks s) \<longleftrightarrow> m (key_bytes (KSymlink ino)) \<noteq> None) \<and>
      distinct (map fst (sn_inodes s)) \<and> distinct (map fst (sn_dirents s)) \<and> distinct (map fst (sn_idx s)))"

definition seen_chunks :: "kv \<Rightarrow> scanned \<Rightarrow> bool" where
  "seen_chunks m s =
     (distinct (map fst (sn_chunks s)) \<and>
      (\<forall>ino. map_of (sn_chunks s) ino \<noteq> None \<longleftrightarrow> (\<exists>idx. m (key_bytes (KChunk ino idx)) \<noteq> None)) \<and>
      (\<forall>ino. distinct (map fst (chunks_of s ino)) \<and>
         (\<forall>idx n. (idx, n) \<in> set (chunks_of s ino) \<longleftrightarrow> (\<exists>c. m (key_bytes (KChunk ino idx)) = Some c \<and> length c = n))))"

lemma seen_step:
  assumes s: "seen C m s" and k: "m (key_bytes k) = None" and r: "scan_row C (key_bytes k) v s = Inr s'"
  shows "seen C (m(key_bytes k \<mapsto> v)) s'"
  using s k r
  by (cases k) (auto simp: seen_def scan_row_simps decoded_def update_conv' distinct_update has_orphan_def map_sum_def
      split: sum.splits if_splits)

lemma chunks_of_push:
  "chunks_of (s\<lparr>sn_chunks := push_chunk ino c (sn_chunks s)\<rparr>) k = (if k = ino then chunks_of s ino @ [c] else chunks_of s k)"
  by (simp add: chunks_of_def push_chunk_def update_conv')

lemma seen_chunks_step:
  assumes s: "seen_chunks m s" and k: "m (key_bytes k) = None" and r: "scan_row C (key_bytes k) v s = Inr s'"
  shows "seen_chunks (m(key_bytes k \<mapsto> v)) s'"
proof (cases "\<exists>ino idx. k = KChunk ino idx")
  case True
  then obtain ino idx where [simp]: "k = KChunk ino idx" by blast
  have s': "s' = s\<lparr>sn_chunks := push_chunk ino (idx, length v) (sn_chunks s)\<rparr>" using r by (simp add: scan_row_simps)
  have "idx \<notin> set (map fst (chunks_of s ino))" using s k by (auto simp: seen_chunks_def)
  then show ?thesis
    using s k unfolding s' seen_chunks_def chunks_of_push
    by (auto simp: push_chunk_def update_conv' distinct_update) blast
next
  case False
  then have "sn_chunks s' = sn_chunks s" using r by (cases k) (auto simp: scan_row_simps map_sum_def split: sum.splits)
  then have e: "chunks_of s' = chunks_of s" "sn_chunks s' = sn_chunks s" by (simp_all add: chunks_of_def fun_eq_iff)
  have u: "(m(key_bytes k \<mapsto> v)) (key_bytes (KChunk ino idx)) = m (key_bytes (KChunk ino idx))" for ino idx
    using False by auto
  show ?thesis using s unfolding seen_chunks_def e u .
qed

lemma scan_rows_wp:
  assumes E: "engine_ok E" and s: "seen C m s" "seen_chunks m s" and d: "distinct (map fst kvs)"
    and k: "\<And>k v. (k, v) \<in> set kvs \<Longrightarrow> m k = None \<and> (\<exists>k'. k = key_bytes k')"
    and Q: "\<And>s' t. st_db t = st_db st \<Longrightarrow> seen C (m ++ map_of kvs) s' \<Longrightarrow> seen_chunks (m ++ map_of kvs) s' \<Longrightarrow> Q s' t"
    and R: "\<And>e t. st_db t = st_db st \<Longrightarrow> R e t"
  shows "wp (scan_rows E C kvs s) Q R st"
  using s d k Q R
proof (induction kvs arbitrary: s m st)
  case Nil
  then show ?case unfolding scan_rows.simps by (intro wp_bindI store_rules [OF E] wp_rules) auto
next
  case (Cons kv kvs)
  obtain k v where kv: "kv = (k, v)" by (cases kv)
  from Cons.prems(4) [of k v] obtain k' where k': "k = key_bytes k'" "m k = None" by (auto simp: kv)
  have m: "m ++ map_of (kv # kvs) = m(k \<mapsto> v) ++ map_of kvs"
  proof -
    have "map_of kvs k = None" using Cons.prems(3) by (simp add: kv map_of_eq_None_iff)
    then show ?thesis by (auto simp: kv map_add_def fun_eq_iff split: option.splits)
  qed
  show ?case
    unfolding kv scan_rows.simps
  proof (intro wp_bindI store_rules [OF E] wp_liftI, goal_cases)
    case (1 t s')
    then have "seen C (m(k \<mapsto> v)) s'" "seen_chunks (m(k \<mapsto> v)) s'"
      using seen_step [OF Cons.prems(1)] seen_chunks_step [OF Cons.prems(2)] k' by auto
    then show ?case
    proof (rule Cons.IH, goal_cases)
      case (2 k2 v2)
      then have "k2 \<noteq> k" using Cons.prems(3) by (force simp: kv)
      with 2 Cons.prems(4) [of k2 v2] show ?case by simp
    next
      case (3 t2 s2)
      show ?case by (rule Cons.prems(5) [unfolded m, OF _ 3(2,3)]) (simp add: 3(1) 1(1))
    qed (use 1 Cons.prems(3,6) in \<open>auto simp: kv\<close>)
  qed (use Cons.prems(6) in auto)
qed

lemma fsck_scan_all_wp:
  assumes E: "engine_ok E" and sc: "scan_all_ok E sc" and sk: "schema_keys (st_contents E st)"
    and Q: "\<And>s t. st_contents E t = st_contents E st \<Longrightarrow> seen C (st_contents E st) s \<Longrightarrow> seen_chunks (st_contents E st) s \<Longrightarrow>
      sn_counter_bytes s = decode_counter (st_contents E st (key_bytes KQuotaBytes)) \<Longrightarrow>
      sn_counter_inodes s = decode_counter (st_contents E st (key_bytes KQuotaInodes)) \<Longrightarrow> Q s t"
    and R: "\<And>e t. st_contents E t = st_contents E st \<Longrightarrow> R e t"
  shows "wp (fsck_scan_all E sc C) Q R st"
proof -
  have e: "seen C Map.empty scanned_empty" "seen_chunks Map.empty scanned_empty"
    by (simp_all add: seen_def seen_chunks_def scanned_empty_def decoded_def has_orphan_def chunks_of_def)
  have scan: "wp (core (store_scan_all sc)) Q' R' st"
    if "\<And>kvs t. st_db t = st_db st \<Longrightarrow> distinct (map fst kvs) \<Longrightarrow> map_of kvs = st_contents E st \<Longrightarrow> Q' kvs t" "\<And>e t. st_db t = st_db st \<Longrightarrow> R' e t" for Q' R'
  proof -
    have "distinct (map fst kvs) \<and> map_of kvs = st_contents E st" if "sc (st_db st) (st_ticks st) = Inr kvs" for kvs
    proof -
      have k: "sorted_wrt (<) (map fst kvs)" "\<And>k v. (k, v) \<in> set kvs \<longleftrightarrow> st_contents E st k = Some v"
        using sc that by (auto simp: scan_all_ok_def)
      have d: "distinct (map fst kvs)" by (rule sorted_wrt_less_distinct [OF k(1)])
      have "map_of kvs k = st_contents E st k" for k
        using k(2) [of k] d by (cases "st_contents E st k") (auto simp: map_of_eq_None_iff)
      then show ?thesis using d by (simp add: fun_eq_iff)
    qed
    with that show ?thesis by (auto simp: wp_def mapErrE_def store_scan_all_def split: sum.splits)
  qed
  have upd: "seen C m (s\<lparr>sn_counter_bytes := a, sn_counter_inodes := b\<rparr>) = seen C m s"
    "seen_chunks m (s\<lparr>sn_counter_bytes := a, sn_counter_inodes := b\<rparr>) = seen_chunks m s" for m s a b
    by (simp_all add: seen_def seen_chunks_def has_orphan_def chunks_of_def)
  show ?thesis
    unfolding fsck_scan_all_def
  proof (intro wp_bindI scan, goal_cases)
    case (1 kvs t)
    show ?case
    proof (rule scan_rows_wp [OF E e 1(2)], goal_cases)
      case (1 k v)
      then have "st_contents E st k = Some v" using \<open>distinct (map fst kvs)\<close> \<open>map_of kvs = st_contents E st\<close> by (metis map_of_eq_Some_iff)
      then show ?case using schema_keysD [OF sk] by auto
    next
      case (2 s' u)
      then show ?case
        using 1 by (intro wp_bindI store_rules [OF E] wp_rules) (auto simp: upd intro!: Q R)
    qed (use 1 R in auto)
  qed (use R in auto)
qed

section \<open>Counting the entries\<close>

definition names_sealed :: "'db env \<Rightarrow> bytes \<Rightarrow> kv \<Rightarrow> bool" where
  "names_sealed E dek m = (\<forall>p enc. m (key_bytes (KDirent p enc)) \<noteq> None \<longrightarrow> (\<exists>n. seal_name (en_siv E) dek p n = Inr enc))"

lemma check_dirents_eq:
  "dp_problems (fold (check_dirent names s) rows a) = dp_problems a @ concat (map (\<lambda>((p, enc), d). dirent_problems names s p enc d) rows)"
  "dp_links (fold (check_dirent names s) rows a) c = dp_links a c + of_nat (length (filter (\<lambda>(_, d). d_child_ino d = c) rows))"
  "dp_child_dirs (fold (check_dirent names s) rows a) q =
     dp_child_dirs a q + of_nat (length (filter (\<lambda>((p, _), d). p = q \<and> child_is_dir s (d_child_ino d)) rows))"
  "dp_children (fold (check_dirent names s) rows a) q = dp_children a q @ map (\<lambda>(_, d). d_child_ino d) (filter (\<lambda>((p, _), d). p = q) rows)"
  by (induction rows arbitrary: a) (auto simp: check_dirent_def split: prod.splits)

lemma filter_card:
  assumes "distinct (map fst xs)"
  shows "length (filter P xs) = card {k. \<exists>v. map_of xs k = Some v \<and> P (k, v)}"
proof -
  have d: "distinct (map fst (filter P xs))" using assms by (rule distinct_map_filter)
  have "{k. \<exists>v. map_of xs k = Some v \<and> P (k, v)} = set (map fst (filter P xs))"
    using assms by (force simp: image_iff)
  then show ?thesis using distinct_card [OF d] by simp
qed

text \<open>The rows of the entries are the entries of the view, under their sealed names.\<close>

lemma seen_dirent:
  assumes E: "env_ok E" and ns: "names_sealed E dek m" and s: "seen (en_codecs E) m s"
  shows "map_of (sn_dirents s) (p, enc) = Some d \<longleftrightarrow> (\<exists>n. seal_name (en_siv E) dek p n = Inr enc \<and> fs_dirent (fs_of E dek m) p n = Some d)"
proof
  assume r: "map_of (sn_dirents s) (p, enc) = Some d"
  then have d: "decoded (dirent_decode (en_codecs E)) (m (key_bytes (KDirent p enc))) = Some d" using s by (simp add: seen_def)
  then have "m (key_bytes (KDirent p enc)) \<noteq> None" by (auto simp: decoded_def split: option.splits)
  with ns obtain n where "seal_name (en_siv E) dek p n = Inr enc" unfolding names_sealed_def by blast
  with d show "\<exists>n. seal_name (en_siv E) dek p n = Inr enc \<and> fs_dirent (fs_of E dek m) p n = Some d"
    by (intro exI [of _ n]) (simp add: fs_of_def)
next
  assume "\<exists>n. seal_name (en_siv E) dek p n = Inr enc \<and> fs_dirent (fs_of E dek m) p n = Some d"
  then show "map_of (sn_dirents s) (p, enc) = Some d" using s by (auto simp: seen_def fs_of_def)
qed

lemma count_rows:
  assumes E: "env_ok E" and ns: "names_sealed E dek m" and s: "seen (en_codecs E) m s"
  shows "length (filter (\<lambda>((p, _), d). P p d) (sn_dirents s)) = card {(p, n). \<exists>d. fs_dirent (fs_of E dek m) p n = Some d \<and> P p d}"
proof -
  let ?A = "{(p, n). \<exists>d. fs_dirent (fs_of E dek m) p n = Some d \<and> P p d}" and ?g = "\<lambda>(p, n). (p, sealed E dek p n)"
  have "distinct (map fst (sn_dirents s))" using s by (simp add: seen_def)
  then have "length (filter (\<lambda>((p, _), d). P p d) (sn_dirents s)) = card {k. \<exists>d. map_of (sn_dirents s) k = Some d \<and> (case k of (p, _) \<Rightarrow> P p d)}"
    by (simp add: filter_card case_prod_beta)
  also have "{k. \<exists>d. map_of (sn_dirents s) k = Some d \<and> (case k of (p, _) \<Rightarrow> P p d)} = ?g ` ?A"
  proof (intro set_eqI iffI)
    fix k assume "k \<in> {k. \<exists>d. map_of (sn_dirents s) k = Some d \<and> (case k of (p, _) \<Rightarrow> P p d)}"
    then obtain p enc d n where k: "k = (p, enc)" "P p d" "seal_name (en_siv E) dek p n = Inr enc" "fs_dirent (fs_of E dek m) p n = Some d"
      by (cases k) (auto simp: seen_dirent [OF E ns s])
    then have "k = ?g (p, n)" "(p, n) \<in> ?A" by (auto simp: sealed_eq)
    then show "k \<in> ?g ` ?A" by blast
  next
    fix k assume "k \<in> ?g ` ?A"
    then obtain p n d where k: "k = (p, sealed E dek p n)" "P p d" "fs_dirent (fs_of E dek m) p n = Some d" by auto
    obtain enc where "seal_name (en_siv E) dek p n = Inr enc" using seal_name_total [OF env_okD(3) [OF E]] by blast
    with k have "map_of (sn_dirents s) k = Some d" by (auto simp: seen_dirent [OF E ns s] sealed_eq)
    with k show "k \<in> {k. \<exists>d. map_of (sn_dirents s) k = Some d \<and> (case k of (p, _) \<Rightarrow> P p d)}" by auto
  qed
  also have "card (?g ` ?A) = card ?A"
    by (rule card_image) (use sealed_inj [OF E] in \<open>auto simp: inj_on_def inj_def\<close>)
  finally show ?thesis .
qed

lemma dp_counts:
  assumes E: "env_ok E" and ns: "names_sealed E dek m" and s: "seen (en_codecs E) m s"
  defines "f \<equiv> fs_of E dek m"
  shows "dp_links (check_dirents names s) c = of_nat (card (links (fs_dirent f) c))"
    "dp_child_dirs (check_dirents names s) q =
       of_nat (card {n. \<exists>d i. fs_dirent f q n = Some d \<and> fs_inode f (d_child_ino d) = Some i \<and> i_kind i = Dir})"
    "set (dp_children (check_dirents names s) q) = {c. \<exists>n d. fs_dirent f q n = Some d \<and> d_child_ino d = c}"
proof -
  have r: "filter (\<lambda>(_, d). d_child_ino d = c) (sn_dirents s) = filter (\<lambda>((p, _), d). d_child_ino d = c) (sn_dirents s)"
    by (rule filter_cong) auto
  show "dp_links (check_dirents names s) c = of_nat (card (links (fs_dirent f) c))"
    unfolding check_dirents_def check_dirents_eq r count_rows [OF E ns s, where P = "\<lambda>p d. d_child_ino d = c"]
    by (simp add: dirent_pass_empty_def links_def f_def)
  have k: "child_is_dir s c \<longleftrightarrow> (\<exists>i. fs_inode f c = Some i \<and> i_kind i = Dir)" for c
    using s by (simp add: child_is_dir_def seen_def f_def fs_of_def is_dir_def split: option.split)
  have "card {(p, n). \<exists>d. fs_dirent f p n = Some d \<and> p = q \<and> child_is_dir s (d_child_ino d)} =
    card (Pair q ` {n. \<exists>d i. fs_dirent f q n = Some d \<and> fs_inode f (d_child_ino d) = Some i \<and> i_kind i = Dir})"
    by (rule arg_cong [of _ _ card]) (auto simp: k image_iff)
  then show "dp_child_dirs (check_dirents names s) q =
       of_nat (card {n. \<exists>d i. fs_dirent f q n = Some d \<and> fs_inode f (d_child_ino d) = Some i \<and> i_kind i = Dir})"
    unfolding check_dirents_def check_dirents_eq count_rows [OF E ns s, where P = "\<lambda>p d. p = q \<and> child_is_dir s (d_child_ino d)"]
    by (simp add: dirent_pass_empty_def f_def card_image inj_on_def)
  have "distinct (map fst (sn_dirents s))" using s by (simp add: seen_def)
  then have m: "((p, enc), d) \<in> set (sn_dirents s) \<longleftrightarrow> (\<exists>n. seal_name (en_siv E) dek p n = Inr enc \<and> fs_dirent f p n = Some d)" for p enc d
    unfolding f_def seen_dirent [OF E ns s, symmetric] by simp
  have "set (dp_children (check_dirents names s) q) = {c. \<exists>enc d. ((q, enc), d) \<in> set (sn_dirents s) \<and> d_child_ino d = c}"
    unfolding check_dirents_def check_dirents_eq by (force simp: dirent_pass_empty_def image_iff)
  also have "\<dots> = {c. \<exists>n d. fs_dirent f q n = Some d \<and> d_child_ino d = c}"
    unfolding m using seal_name_total [OF env_okD(3) [OF E], of dek q] by blast
  finally show "set (dp_children (check_dirents names s) q) = {c. \<exists>n d. fs_dirent f q n = Some d \<and> d_child_ino d = c}" .
qed

section \<open>The walk\<close>

lemma visit_all:
  "fold (visit s) cs (R, q) = (R', q') \<Longrightarrow> R' = R \<union> set cs \<and> set q' = set q \<union> {c \<in> set cs - R. child_is_dir s c}"
proof (induction cs arbitrary: R q)
  case (Cons c cs)
  show ?case
  proof (cases "c \<in> R")
    case True
    with Cons.prems have "fold (visit s) cs (R, q) = (R', q')" by (simp add: visit_simps)
    from Cons.IH [OF this] True show ?thesis by auto
  next
    case False
    with Cons.prems have "fold (visit s) cs (insert c R, if child_is_dir s c then q @ [c] else q) = (R', q')" by (simp add: visit_simps)
    from Cons.IH [OF this] False show ?thesis by auto
  qed
qed simp

lemma walk_closed:
  assumes "ROOT_INO \<in> R" "\<And>d. d \<in> R \<Longrightarrow> d = ROOT_INO \<or> child_is_dir s d \<Longrightarrow> d \<in> set q \<or> set (ch d) \<subseteq> R"
  shows "R \<subseteq> walk s ch R q \<and> (\<forall>d \<in> walk s ch R q. d = ROOT_INO \<or> child_is_dir s d \<longrightarrow> set (ch d) \<subseteq> walk s ch R q)"
  using assms
proof (induction s ch R q rule: walk.induct)
  case (2 s ch R d q)
  obtain R' q' where v: "fold (visit s) (ch d) (R, q) = (R', q')" by fastforce
  note w = visit_all [OF v]
  have c: "e \<in> set q' \<or> set (ch e) \<subseteq> R'" if "e \<in> R'" "e = ROOT_INO \<or> child_is_dir s e" for e
  proof (cases "e \<in> R")
    case True
    with 2(3) [OF True that(2)] w show ?thesis by auto
  next
    case False
    with that w 2(2) show ?thesis by auto
  qed
  have "ROOT_INO \<in> R'" using 2(2) w by simp
  from 2(1) [OF v [symmetric] this c] v w show ?case by auto
qed auto

declare walk.simps [simp del]

lemma walk_from_root:
  "ROOT_INO \<in> walk s ch {ROOT_INO} [ROOT_INO]"
  "d \<in> walk s ch {ROOT_INO} [ROOT_INO] \<Longrightarrow> d = ROOT_INO \<or> child_is_dir s d \<Longrightarrow> c \<in> set (ch d) \<Longrightarrow> c \<in> walk s ch {ROOT_INO} [ROOT_INO]"
  using walk_closed [of "{ROOT_INO}" s "[ROOT_INO]" ch] by auto

section \<open>Sound volumes are clean\<close>

lemma seen_view:
  assumes s: "seen (en_codecs E) m s"
  shows "map_of (sn_inodes s) = fs_inode (fs_of E dek m)" "map_of (sn_idx s) (p, k) = fs_index (fs_of E dek m) p k"
    "has_orphan s ino \<longleftrightarrow> fs_orphan (fs_of E dek m) ino \<noteq> None" "ino \<in> set (sn_symlinks s) \<longleftrightarrow> fs_symlink (fs_of E dek m) ino \<noteq> None"
    "child_is_dir s c \<longleftrightarrow> (\<exists>i. fs_inode (fs_of E dek m) c = Some i \<and> i_kind i = Dir)"
  using s by (auto simp: seen_def fs_of_def fun_eq_iff child_is_dir_def is_dir_def split: option.splits)

lemma fsck_dirents_ok:
  assumes E: "env_ok E" and ns: "ns_ok (sealed E dek) (fs_of E dek m)" and s: "seen (en_codecs E) m s"
    and d: "fs_dirent (fs_of E dek m) p n = Some d" and enc: "seal_name (en_siv E) dek p n = Inr enc"
  shows "dirent_problems (open_name (en_siv E) dek) s p enc d = []"
proof -
  note v = seen_view [OF s, where dek = dek]
  have "open_name (en_siv E) dek p enc = Inr n" by (rule open_seal_name [OF env_okD(3) [OF E] enc])
  then show ?thesis
    using ns_okD(3) [OF ns d] unfolding entry_ok_def dirent_problems_def v
    by (auto simp: is_dir_def sealed_eq [OF enc] Let_def split: option.splits)
qed

lemma fsck_inode_ok:
  assumes E: "env_ok E" and ns: "ns_ok (sealed E dek) (fs_of E dek m)" and sl: "names_sealed E dek m" and s: "seen (en_codecs E) m s"
    and i: "fs_inode (fs_of E dek m) ino = Some i"
  shows "inode_problems s (check_dirents names s) ino i = []"
proof -
  let ?f = "fs_of E dek m"
  note v = seen_view [OF s, where dek = dek] and c = dp_counts [OF E sl s, of names]
  have sub: "{n. \<exists>d i. fs_dirent ?f ino n = Some d \<and> fs_inode ?f (d_child_ino d) = Some i \<and> i_kind i = Dir} = subdirs (fs_dirent ?f) ino"
    using ns_okD(3) [OF ns] by (fastforce simp: subdirs_def entry_ok_def)
  show ?thesis
  proof (cases "i_kind i = Dir")
    case True
    have "dp_child_dirs (check_dirents names s) ino = of_nat (card (subdirs (fs_dirent ?f) ino))" unfolding c(2) sub ..
    with True ns_okD(5) [OF ns i] show ?thesis by (simp add: inode_problems_def is_dir_def c(1) dir_ok_def)
  next
    case False
    with ns_okD(6) [OF ns i] have f: "unat (i_nlink i) = card (links (fs_dirent ?f) ino)" "i_kind i = Symlink \<longrightarrow> fs_symlink ?f ino \<noteq> None"
      by (simp_all add: file_ok_def)
    have "i_nlink i = of_nat (card (links (fs_dirent ?f) ino))" by (simp flip: f(1))
    with False f(2) show ?thesis by (simp add: inode_problems_def is_dir_def c v)
  qed
qed

lemma fsck_billed_eq:
  assumes c: "seen_chunks m s"
  shows "fsck_billed cs s ino i = chunks_billed cs (fs_chunk (fs_of E dek m) ino) (i_size i)"
proof -
  let ?b = "\<lambda>(idx, len). billed_chunk_bytes (i_size i) (ucast idx * cs) len" and ?C = "fs_chunk (fs_of E dek m) ino"
  have ch: "distinct (map fst (chunks_of s ino))" "\<And>idx n. (idx, n) \<in> set (chunks_of s ino) \<longleftrightarrow> (\<exists>c. ?C idx = Some c \<and> length c = n)"
    using c by (auto simp: seen_chunks_def chunk_view)
  have "fsck_billed cs s ino i = sum ?b (set (chunks_of s ino))"
    unfolding fsck_billed_def using ch(1) by (simp add: sum_list_distinct_conv_sum_set distinct_map)
  also have "set (chunks_of s ino) = (\<lambda>idx. (idx, length (the (?C idx)))) ` dom ?C"
    using ch(2) by (auto simp: image_iff)
  also have "sum ?b \<dots> = sum (?b \<circ> (\<lambda>idx. (idx, length (the (?C idx))))) (dom ?C)"
    by (rule sum.reindex) (auto simp: inj_on_def)
  also have "\<dots> = (\<Sum>idx \<in> dom ?C. chunk_billed cs (i_size i) idx (?C idx))"
    by (rule sum.cong) (auto simp: chunk_billed_def)
  also have "\<dots> = chunks_billed cs ?C (i_size i)"
    unfolding chunks_billed_def by (rule sum.mono_neutral_left) (auto simp: chunk_billed_def split: option.split)
  finally show ?thesis .
qed

lemma fsck_billing_ok:
  assumes c: "seen_chunks m s" and b: "bill_ok cs (fs_chunk (fs_of E dek m) ino) i"
  shows "billing_problems cs s ino i = []"
proof -
  have "\<not> cs < of_nat len" if "(idx, len) \<in> set (chunks_of s ino)" for idx len
  proof -
    have "len \<le> unat cs" using that c b by (auto simp: seen_chunks_def bill_ok_def chunks_inside_def chunk_view)
    moreover have "unat cs < 2 ^ 64" by simp
    ultimately show ?thesis by (simp add: word_less_nat_alt unat_of_nat_lt del: unat_lt64)
  qed
  with b show ?thesis by (auto simp: billing_problems_def fsck_billed_eq [OF c, of _ _ _ E dek] bill_ok_def Let_def)
qed

lemma fsck_stray_ok:
  assumes a: "acct_ok cs (fs_of E dek m)" and s: "seen (en_codecs E) m s" and c: "seen_chunks m s"
  shows "fst (check_stray s) = []"
proof -
  note v = seen_view [OF s, where dek = dek]
  have "fs_orphan (fs_of E dek m) ino \<noteq> None" if "ino \<in> set (map fst (sn_chunks s))" "fs_inode (fs_of E dek m) ino = None" for ino
  proof -
    have "map_of (sn_chunks s) ino \<noteq> None" using that(1) by (simp add: map_of_eq_None_iff)
    then obtain idx where "m (key_bytes (KChunk ino idx)) \<noteq> None" using c unfolding seen_chunks_def by blast
    then have "fs_chunk (fs_of E dek m) ino \<noteq> Map.empty" by (auto simp: chunk_view fun_eq_iff)
    with acct_okD(5) [OF a that(2)] show ?thesis by blast
  qed
  then show ?thesis by (auto simp: check_stray_def Let_def v filter_empty_conv)
qed

lemma fsck_reachable_ok:
  assumes E: "env_ok E" and ns: "ns_ok (sealed E dek) (fs_of E dek m)" and sl: "names_sealed E dek m" and s: "seen (en_codecs E) m s"
  shows "check_reachable s (check_dirents names s) = []"
proof -
  let ?f = "fs_of E dek m" and ?ch = "dp_children (check_dirents names s)"
  let ?W = "walk s ?ch {ROOT_INO} [ROOT_INO]"
  note v = seen_view [OF s, where dek = dek]
  have ch: "d_child_ino d \<in> set (?ch p)" if "fs_dirent ?f p n = Some d" for p n d
    using that unfolding dp_counts(3) [OF E sl s, of names p] by blast
  have dirs: "c \<in> ?W" if "rooted (fs_inode ?f) c" for c
    using that
  proof induction
    case rooted_root
    show ?case by (rule walk_from_root)
  next
    case (rooted_step c i)
    show ?case
    proof (cases "c = ROOT_INO")
      case True
      then show ?thesis using walk_from_root(1) by simp
    next
      case False
      from parent_entry [OF ns rooted_step(1,2) False] obtain n d where d: "fs_dirent ?f (i_parent_dir i) n = Some d" "d_child_ino d = c"
        and "child_is_dir s (i_parent_dir i)" by (auto simp: v)
      with walk_from_root(2) [OF rooted_step(4), of c] ch [OF d(1)] show ?thesis by simp
    qed
  qed
  have "ino \<in> ?W \<or> i_nlink i = 0 \<and> fs_orphan ?f ino \<noteq> None" if i: "fs_inode ?f ino = Some i" for ino i
  proof (cases "i_kind i = Dir")
    case True
    then show ?thesis using dirs ns_okD(5) [OF ns i] by (simp add: dir_ok_def)
  next
    case False
    note fl = ns_okD(6) [OF ns i False, unfolded file_ok_def]
    show ?thesis
    proof (cases "i_nlink i = 0")
      case False
      with fl have "card (links (fs_dirent ?f) ino) \<noteq> 0" by (metis unat_eq_0)
      then obtain p n d where d: "fs_dirent ?f p n = Some d" "d_child_ino d = ino" by (auto simp: links_def card_eq_0_iff)
      from ns_okD(3) [OF ns d(1)] obtain j where "fs_inode ?f p = Some j" "i_kind j = Dir" by (auto simp: entry_ok_def)
      with ns_okD(5) [OF ns this] have "p \<in> ?W" "child_is_dir s p" by (auto simp: dir_ok_def v intro: dirs)
      with walk_from_root(2) [OF this(1)] ch [OF d(1)] d(2) show ?thesis by blast
    qed (use fl in simp)
  qed
  moreover have "map_of (sn_inodes s) ino = Some i" if "(ino, i) \<in> set (sn_inodes s)" for ino i
    by (rule map_of_is_SomeI) (use that s in \<open>auto simp: seen_def\<close>)
  ultimately show ?thesis unfolding check_reachable_def Let_def v by (fastforce simp: v)
qed

lemma check_inodes_eq:
  "fold (\<lambda>(ino, i) (ps, bytes_counted). (ps @ inode_problems s a ino i @ billing_problems cs s ino i, bytes_counted + fsck_billed cs s ino i)) rows (ps, b) =
   (ps @ concat (map (\<lambda>(ino, i). inode_problems s a ino i @ billing_problems cs s ino i) rows), b + sum_list (map (\<lambda>(ino, i). fsck_billed cs s ino i) rows))"
  by (induction rows arbitrary: ps b) (auto simp: add.assoc)

lemma sum_list_map_of:
  assumes "distinct (map fst xs)"
  shows "sum_list (map (\<lambda>(k, v). g k v) xs) = (\<Sum>k \<in> dom (map_of xs). g k (the (map_of xs k)))"
  using assms
proof (induction xs)
  case (Cons x xs)
  obtain k v where x: "x = (k, v)" by (cases x)
  have k: "k \<notin> dom (map_of xs)" using Cons.prems by (simp add: x dom_map_of_conv_image_fst)
  have "(\<Sum>k' \<in> dom (map_of xs). g k' (the (if k' = k then Some v else map_of xs k'))) = (\<Sum>k' \<in> dom (map_of xs). g k' (the (map_of xs k')))"
    by (rule sum.cong) (use k in auto)
  moreover have "dom (\<lambda>a. if a = k then Some v else map_of xs a) = insert k (dom (map_of xs))" by (auto split: if_splits)
  ultimately show ?case using Cons k by (simp add: x finite_dom_map_of fun_upd_def)
qed simp

lemma fsck_clean:
  assumes E: "env_ok E" and st: "stored E dek cs m" and sl: "names_sealed E dek m"
    and s: "seen (en_codecs E) m s" and c: "seen_chunks m s"
    and q: "sn_counter_bytes s = decode_counter (m (key_bytes KQuotaBytes))" "sn_counter_inodes s = decode_counter (m (key_bytes KQuotaInodes))"
  shows "is_clean (check_scanned cs (open_name (en_siv E) dek) s)"
proof -
  let ?f = "fs_of E dek m" and ?names = "open_name (en_siv E) dek"
  let ?a = "check_dirents ?names s"
  have ns: "ns_ok (sealed E dek) ?f" and a: "acct_ok cs ?f" using st by (simp_all add: stored_def)
  note v = seen_view [OF s, where dek = dek]
  have d: "distinct (map fst (sn_inodes s))" "distinct (map fst (sn_dirents s))" "distinct (map fst (sn_idx s))"
    using s by (simp_all add: seen_def)
  have rows: "fs_inode ?f ino = Some i" if "(ino, i) \<in> set (sn_inodes s)" for ino i using that d(1) by (simp flip: v(1))
  have root: "check_root s = []"
    using ns_okD(1) [OF ns] by (auto simp: check_root_def v(1) is_dir_def)
  have dir: "dp_problems ?a = []"
  proof -
    have "dirent_problems ?names s p enc d = []" if "((p, enc), d) \<in> set (sn_dirents s)" for p enc d
    proof -
      have "map_of (sn_dirents s) (p, enc) = Some d" using that d(2) by simp
      then show ?thesis using seen_dirent [OF E sl s] fsck_dirents_ok [OF E ns s] by blast
    qed
    then show ?thesis unfolding check_dirents_def check_dirents_eq by (auto simp: dirent_pass_empty_def)
  qed
  have idx: "check_idx s = []"
  proof -
    have "\<exists>enc d. ((p, enc), d) \<in> set (sn_dirents s) \<and> d_dirent_id d = k" if "((p, k), e) \<in> set (sn_idx s)" for p k e
    proof -
      have "fs_index ?f p k = Some e" using that d(3) by (simp flip: v(2))
      from ns_okD(4) [OF ns this] obtain n d' where d': "fs_dirent ?f p n = Some d'" "d_dirent_id d' = k" by blast
      obtain enc where "seal_name (en_siv E) dek p n = Inr enc" using seal_name_total [OF env_okD(3) [OF E]] by blast
      with d' have "map_of (sn_dirents s) (p, enc) = Some d'" using seen_dirent [OF E sl s] by blast
      with d' show ?thesis by (blast dest: map_of_SomeD)
    qed
    then show ?thesis unfolding check_idx_def by (fastforce simp: list_ex_iff)
  qed
  have ino: "check_inodes cs s ?a = ([], fs_bytes ?f)"
  proof -
    have bill: "fsck_billed cs s k (the (fs_inode ?f k)) = i_billed_bytes (the (fs_inode ?f k))" if "k \<in> dom (fs_inode ?f)" for k
    proof -
      from that obtain i where i: "fs_inode ?f k = Some i" by auto
      show ?thesis using acct_okD(4) [OF a i] by (simp add: i bill_ok_def fsck_billed_eq [OF c, of cs k i E dek])
    qed
    have "sum_list (map (\<lambda>(ino, i). fsck_billed cs s ino i) (sn_inodes s)) = (\<Sum>k \<in> dom (fs_inode ?f). i_billed_bytes (the (fs_inode ?f k)))"
      unfolding sum_list_map_of [OF d(1)] v(1) by (rule sum.cong [OF refl bill])
    moreover have "inode_problems s ?a k i @ billing_problems cs s k i = []" if "(k, i) \<in> set (sn_inodes s)" for k i
      using fsck_inode_ok [OF E ns sl s rows [OF that]] fsck_billing_ok [OF c acct_okD(4) [OF a rows [OF that]]] by simp
    ultimately show ?thesis unfolding check_inodes_def check_inodes_eq using acct_okD(3) [OF a] by auto
  qed
  have len: "of_nat (length (sn_inodes s)) = fs_inodes ?f"
    using acct_okD(2) [OF a] distinct_card [OF d(1)] by (simp flip: v(1) add: dom_map_of_conv_image_fst)
  have "fst (check_stray s) = []" "check_reachable s ?a = []"
    by (rule fsck_stray_ok [OF a s c], rule fsck_reachable_ok [OF E ns sl s])
  then show ?thesis
    unfolding check_scanned_def is_clean_def counters_match_def Let_def
    by (simp add: root dir idx ino len q split: prod.split) (auto simp: fs_of_def)
qed


definition mem_scan_all :: "(nat \<Rightarrow> slatedb_error option) \<Rightarrow> (bytes \<times> bytes) list scan_all" where
  "mem_scan_all fails db t = mem_result fails t (sort_key fst (AList.clearjunk db))"

lemma mem_scan_all_ok: "scan_all_ok (mem_engine fails) (mem_scan_all fails)"
proof -
  have "distinct (map fst (sort_key fst (AList.clearjunk db)))" for db :: "(bytes \<times> bytes) list"
    using distinct_clearjunk [of db] by (simp add: distinct_map)
  then have "sorted_wrt (<) (map fst (sort_key fst (AList.clearjunk db)))" for db :: "(bytes \<times> bytes) list"
    by (simp add: strict_sorted_iff)
  moreover have "(k, v) \<in> set (AList.clearjunk db) \<longleftrightarrow> map_of db k = Some v" for k v and db :: "(bytes \<times> bytes) list"
    using map_of_eq_Some_iff [OF distinct_clearjunk, of db k v] by (simp add: map_of_clearjunk)
  ultimately show ?thesis by (auto simp: scan_all_ok_def mem_scan_all_def mem_result_Inr mem_engine_def)
qed


lemma scan_rows_same:
  assumes E: "engine_ok E" and Q: "\<And>s' t. st_db t = st_db st \<Longrightarrow> Q s' t" and R: "\<And>e t. st_db t = st_db st \<Longrightarrow> R e t"
  shows "wp (scan_rows E C kvs s) Q R st"
  using Q R
proof (induction kvs arbitrary: s st)
  case Nil
  then show ?case unfolding scan_rows.simps by (intro wp_bindI store_rules [OF E] wp_rules) auto
next
  case (Cons kv kvs)
  obtain k v where kv: "kv = (k, v)" by (cases kv)
  show ?case
    unfolding kv scan_rows.simps by (intro wp_bindI store_rules [OF E] wp_liftI Cons.IH) (use Cons.prems in auto)
qed

lemma check_readable_same:
  assumes E: "engine_ok E"
  shows "wp (check_readable E sc C cs names)
    (\<lambda>r t. st_db t = st_db s \<and> fr_counter_bytes r = decode_counter (st_contents E s (key_bytes KQuotaBytes)) \<and>
       fr_counter_inodes r = decode_counter (st_contents E s (key_bytes KQuotaInodes)))
    (\<lambda>e t. st_db t = st_db s) s"
proof -
  have scan: "wp (core (store_scan_all sc)) Q R s" if "\<And>kvs t. st_db t = st_db s \<Longrightarrow> Q kvs t" "\<And>e t. st_db t = st_db s \<Longrightarrow> R e t" for Q R
    using that by (auto simp: wp_def mapErrE_def store_scan_all_def split: sum.splits)
  show ?thesis
    unfolding check_readable_def fsck_scan_all_def
    by (intro wp_bindI scan scan_rows_same [OF E] store_rules [OF E] wp_rules)
       (auto simp: check_scanned_def Let_def split: prod.split)
qed

text \<open>
  C21. A recount makes the counters right: on success the stored counters are the counted
  ones, whatever they were, and no other key changes; on an error every key but the
  counters is as it was.
\<close>

theorem recount_fixes:
  assumes E: "engine_ok E"
  shows "wp (recount E sc C cs names)
    (\<lambda>r t. decode_counter (st_contents E t (key_bytes KQuotaBytes)) = fr_bytes_counted r \<and>
       decode_counter (st_contents E t (key_bytes KQuotaInodes)) = fr_inodes_counted r \<and>
       (\<forall>k. k \<notin> {key_bytes KQuotaBytes, key_bytes KQuotaInodes} \<longrightarrow> st_contents E t k = st_contents E s k))
    (\<lambda>e t. \<forall>k. k \<notin> {key_bytes KQuotaBytes, key_bytes KQuotaInodes} \<longrightarrow> st_contents E t k = st_contents E s k) s"
proof -
  have w: "wp (rewrite_counters E r)
     (\<lambda>r t. decode_counter (st_contents E t (key_bytes KQuotaBytes)) = fr_bytes_counted r \<and>
       decode_counter (st_contents E t (key_bytes KQuotaInodes)) = fr_inodes_counted r \<and>
       (\<forall>k. k \<notin> {key_bytes KQuotaBytes, key_bytes KQuotaInodes} \<longrightarrow> st_contents E t k = st_contents E s k))
     (\<lambda>e t. \<forall>k. k \<notin> {key_bytes KQuotaBytes, key_bytes KQuotaInodes} \<longrightarrow> st_contents E t k = st_contents E s k) u"
    if "st_db u = st_db s" "fr_counter_bytes r = decode_counter (st_contents E s (key_bytes KQuotaBytes))"
      "fr_counter_inodes r = decode_counter (st_contents E s (key_bytes KQuotaInodes))" for r u
    unfolding rewrite_counters_def
    by (intro wp_bindI wp_core_flush [OF E] store_rules [OF E] wp_rules)
       (use that in \<open>auto simp: counters_match_def decode_counter_def\<close>)
  show ?thesis
    unfolding recount_def wp_bindE by (rule wp_mono [OF check_readable_same [OF E]], rule w) auto
qed

theorem recount_fixes_witness:
  "wp (recount (mem_engine (\<lambda>_. None)) (mem_scan_all (\<lambda>_. None)) ref_codecs 0x1000 (open_name ref_siv []))
    (\<lambda>r t. decode_counter (map_of (st_db t) (key_bytes KQuotaBytes)) = fr_bytes_counted r) (\<lambda>e t. True) (v_store ref_vol)"
  by (rule wp_mono [OF recount_fixes [OF mem_engine_ok]]) (auto simp: mem_engine_def)

end
