(* ===== verification/Spec2Isabelle.thy ===== *)
theory Spec2Isabelle
  imports Vfs_Props Fsck_Props
begin

text \<open>
  A verification development of slatefs, a POSIX file system that keeps every volume in one
  SlateDB key-value database on an object store. It follows the sources of the crate
  \<^verbatim>\<open>src/crates/slatefs-core/src\<close>, file by file; the frontends that serve the volumes over
  NFS, 9P, NBD and HTTP call the operations verified here.

  \<^bold>\<open>The program.\<close> A volume is a set of rows: inodes, directory entries (under encrypted
  names) with a second row per entry in the order of a listing, chunks of file data, targets
  of symbolic links, extended attributes, orphan markers, two usage counters and the mark of
  the inode allocator. Each operation reads what it needs, computes new rows and commits them
  as one batch; a merge operator adds to the counters. In memory a mounted volume has an
  attribute cache, the usage and limits of the quota, the leased inode numbers, open handles,
  advisory locks and a health flag that turns every call into an I/O error once another
  writer has fenced this one.

  \<^bold>\<open>Parameters.\<close> Code outside the repository is an argument of the definitions. The engine
  (\<open>engine\<close> in \<^verbatim>\<open>Engine.thy\<close>) may fail any call; \<open>engine_ok\<close> says that reads and scans
  return what is stored, in key order, and that a batch is applied whole or not at all.
  \<open>codecs_ok\<close> says that the serializers of the records can be read back, \<open>siv_ok\<close> that the
  name cipher can be undone. The clock, the eviction choices of the caches and the scan of
  all keys used by the checker are parameters too. \<^verbatim>\<open>Reference.thy\<close> instantiates all of them
  by executable functions; the witnesses use this instance.

  \<^bold>\<open>Theories.\<close>
  \<^item> \<^verbatim>\<open>Prelude\<close>: words, byte strings, the state-and-error monad of the model with its
    weakest-precondition rules (collections \<open>wp_simps\<close>, \<open>wp_rules\<close>).
  \<^item> \<^verbatim>\<open>Keys\<close> (\<^verbatim>\<open>meta/keys.rs\<close>), \<^verbatim>\<open>Records\<close> (\<^verbatim>\<open>meta/*.rs\<close>, \<^verbatim>\<open>error.rs\<close>, \<^verbatim>\<open>vfs.rs\<close>): the key schema and
    the records. Keys of different rows differ and sort as numbers do; records are read back.
  \<^item> \<^verbatim>\<open>Names\<close> (\<^verbatim>\<open>crypto/names.rs\<close>), \<^verbatim>\<open>Quota\<close> (\<^verbatim>\<open>quota.rs\<close>), \<^verbatim>\<open>Locks\<close> (\<^verbatim>\<open>locks.rs\<close>), \<^verbatim>\<open>Health\<close>
    (\<^verbatim>\<open>health.rs\<close>), \<^verbatim>\<open>Handles\<close> and \<^verbatim>\<open>Alloc\<close> (\<^verbatim>\<open>volume.rs\<close>, \<^verbatim>\<open>meta/alloc.rs\<close>): one theory per
    component with its own invariants. The lock theory has a step relation of tasks that
    follow the lock plans of the program, and shows that they never deadlock.
  \<^item> \<^verbatim>\<open>Data\<close>, \<^verbatim>\<open>Data_Plans\<close>, \<^verbatim>\<open>Data_Truncate\<close> (\<^verbatim>\<open>data.rs\<close>): reading, writing and cutting chunked
    data against a plain byte string.
  \<^item> \<^verbatim>\<open>Volume\<close> (\<^verbatim>\<open>volume.rs\<close>, \<^verbatim>\<open>attrcache.rs\<close>), \<^verbatim>\<open>Vfs_Base\<close>, \<^verbatim>\<open>Vfs_Names\<close>, \<^verbatim>\<open>Vfs_Data\<close>
    (\<^verbatim>\<open>vfs_impl.rs\<close>): formatting, mounting, reaping and every operation of the file system
    interface, as actions on the record \<open>volume\<close>.
  \<^item> \<^verbatim>\<open>Vfs_View\<close>, \<^verbatim>\<open>Vfs_Inv\<close>: the abstract file system \<open>fs\<close> (\<open>vfs E s\<close> is the one a volume holds)
    and the volume invariant \<open>vol_inv\<close>: caches agree with the store, the quota tracker with
    the stored counters, and numbers not yet handed out are unused.
  \<^item> \<^verbatim>\<open>Vfs_Create\<close>, \<^verbatim>\<open>Vfs_Files\<close>, \<^verbatim>\<open>Reaper\<close>, \<^verbatim>\<open>Vfs_Unlink\<close>, \<^verbatim>\<open>Vfs_Rmdir\<close>, \<^verbatim>\<open>Vfs_Rename\<close>, \<^verbatim>\<open>Vfs_Reads\<close>:
    for each operation one lemma \<open>_wp\<close> that says what it does to the abstract file system
    on success and after an error at any engine call.
  \<^item> \<^verbatim>\<open>Namespace\<close>, \<^verbatim>\<open>Namespace_Ops\<close>, \<^verbatim>\<open>Vfs_Tree\<close>: \<open>ns_ok\<close>, names form a tree with right link counts
    and paired index rows; every abstract effect keeps it.
  \<^item> \<^verbatim>\<open>Accounting\<close>: \<open>acct_ok\<close>, the counters are those a recount finds and chunks lie inside
    their files; every abstract effect keeps it.
  \<^item> \<^verbatim>\<open>History\<close>: a volume is \<open>sound\<close> when it has the three invariants; sequences of calls and
    that they keep it sound. \<^verbatim>\<open>Mount\<close>: formatting, mounting and crash recovery.
    \<^verbatim>\<open>Vfs_Props\<close>: the contracts of the operations on sound volumes and what they give each
    other.
  \<^item> \<^verbatim>\<open>Fsck\<close>, \<^verbatim>\<open>Fsck_Props\<close> (\<^verbatim>\<open>fsck.rs\<close>): the checker, that it accepts what the operations leave
    behind, and that a recount makes the counters right.

  \<^bold>\<open>Bounds and fuel.\<close> Numbers keep their width; sums that may wrap are written on words. The
  loop that reaps the chunks of an inode has \<open>reap_rounds\<close> rounds of \<open>REAP_BATCH\<close> keys, which
  covers all \<open>2 ^ 32\<close> chunk indices, so the bound never ends it. The ancestor walk of a rename
  has a number of steps as an argument and \<open>rename_walk_ends\<close> shows that enough steps give the
  answer. The retry loops of unlink, rmdir and rename take the list of changes other tasks
  make between the unlocked lookup and the lock; their contracts are stated for a first entry
  \<open>id\<close>, nobody interfering, where one round is enough. The walk of the checker terminates by a
  measure on the inodes it has not seen. Histories assume that inode numbers and entry
  identifiers are left, that buffers have machine length, that sizes set stay below the last
  chunk index, and that a link is not made to a file without links; each of these guards is
  one the code lacks or cannot meet in practice, and the findings of the manifest list the
  ones that matter.

  \<^bold>\<open>Not modelled.\<close> Tasks interleave only in the lock theory; an operation runs from its first
  to its last engine call without others in between, which the inode locks give for all
  calls but \<open>open\<close> and the cached reads. Durability is not part of the engine: contents are
  those the engine would serve, and a crash is the loss of everything in memory. Metrics and
  log lines are left out, the rate limiter is floating-point arithmetic on the wall clock,
  and payload encryption works below the engine on whole blocks. Snapshots and versioning,
  the control database, cloning and resizing of volumes, block devices, the frontends, the
  command line and the daemon are outside this development; they drive third-party servers,
  object stores and processes, or build on the operations above.
\<close>

end
